(* ===== verification/Prelude.thy ===== *)
theory Prelude
  imports Main "HOL-Library.Word" "HOL-Library.Char_ord" "HOL-Library.List_Lexorder"
    "HOL-Library.Sublist"
begin

text \<open>
  Shared vocabulary of the development: Rust's machine integers as words, a Rust \<open>str\<close> as the
  list of its UTF-8 bytes, the ASCII and whitespace predicates of the standard library, decimal
  and hexadecimal rendering with their parsers, \<open>Result\<close> as a sum with its \<open>?\<close> operator, and the
  ordered map behind \<open>serde_json::Map\<close> (the crate builds \<open>serde_json\<close> without
  \<open>preserve_order\<close>, so it is a \<open>BTreeMap\<close>).  The generic lemmas the components share are here,
  collected in \<open>bytes_simps\<close>, \<open>omap_simps\<close> and \<open>result_simps\<close>.
\<close>

named_theorems bytes_simps "evaluation of the byte predicates"
named_theorems omap_simps "laws of the ordered map"
named_theorems result_simps "case analysis of the result monad"

section \<open>Types\<close>

type_synonym u8 = "8 word"
type_synonym u16 = "16 word"
type_synonym u32 = "32 word"
type_synonym u64 = "64 word"

text \<open>A Rust \<open>str\<close>: its UTF-8 bytes; \<open>len()\<close>, indexing and \<open>BTreeMap\<close> order count bytes.\<close>

type_synonym str = string

abbreviation byte :: "char \<Rightarrow> nat" where
  "byte c \<equiv> of_char c"

section \<open>Results\<close>

text \<open>\<open>Result<T, E>\<close> is \<open>'e + 'a\<close> with \<open>Inl\<close> for \<open>Err\<close>; \<open>and_then\<close> is the \<open>?\<close> operator.\<close>

definition and_then :: "'e + 'a \<Rightarrow> ('a \<Rightarrow> 'e + 'b) \<Rightarrow> 'e + 'b" where
  "and_then r f = (case r of Inl e \<Rightarrow> Inl e | Inr x \<Rightarrow> f x)"

definition map_err :: "('e \<Rightarrow> 'f) \<Rightarrow> 'e + 'a \<Rightarrow> 'f + 'a" where
  "map_err f r = (case r of Inl e \<Rightarrow> Inl (f e) | Inr x \<Rightarrow> Inr x)"

definition ok_or :: "'a option \<Rightarrow> 'e \<Rightarrow> 'e + 'a" where
  "ok_or x e = (case x of None \<Rightarrow> Inl e | Some y \<Rightarrow> Inr y)"

text \<open>A guard \<open>if c { return Err(e) }\<close>.\<close>

definition reject_if :: "bool \<Rightarrow> 'e \<Rightarrow> 'e + unit" where
  "reject_if c e = (if c then Inl e else Inr ())"

text \<open>A \<open>for\<close> loop whose body may return an error: it stops at the first one.\<close>

fun try_each :: "('a \<Rightarrow> 'e + unit) \<Rightarrow> 'a list \<Rightarrow> 'e + unit" where
  "try_each f [] = Inr ()"
| "try_each f (x # xs) = and_then (f x) (\<lambda>_. try_each f xs)"

text \<open>\<open>iter().map(f).collect::<Result<Vec<_>, _>>()\<close>.\<close>

fun try_map :: "('a \<Rightarrow> 'e + 'b) \<Rightarrow> 'a list \<Rightarrow> 'e + 'b list" where
  "try_map f [] = Inr []"
| "try_map f (x # xs) = and_then (f x) (\<lambda>y. and_then (try_map f xs) (\<lambda>ys. Inr (y # ys)))"

definition is_ok :: "'e + 'a \<Rightarrow> bool" where
  "is_ok r = (case r of Inl _ \<Rightarrow> False | Inr _ \<Rightarrow> True)"

lemma and_then_simps [simp, result_simps]:
  "and_then (Inl e) f = Inl e"
  "and_then (Inr x) f = f x"
  by (simp_all add: and_then_def)

lemma map_err_simps [simp, result_simps]:
  "map_err f (Inl e) = Inl (f e)"
  "map_err f (Inr x) = Inr x"
  by (simp_all add: map_err_def)

lemma ok_or_simps [simp, result_simps]:
  "ok_or None e = Inl e"
  "ok_or (Some x) e = Inr x"
  by (simp_all add: ok_or_def)

lemma is_ok_simps [simp, result_simps]:
  "is_ok (Inl e) = False"
  "is_ok (Inr x) = True"
  by (simp_all add: is_ok_def)

lemma and_then_eq_Inr [simp, result_simps]:
  "and_then r f = Inr y \<longleftrightarrow> (\<exists>x. r = Inr x \<and> f x = Inr y)"
  by (cases r) auto

lemma and_then_eq_Inl [result_simps]:
  "and_then r f = Inl e \<longleftrightarrow> r = Inl e \<or> (\<exists>x. r = Inr x \<and> f x = Inl e)"
  by (cases r) auto

lemma reject_if_eq_Inr [simp, result_simps]:
  "reject_if c e = Inr u \<longleftrightarrow> \<not> c"
  by (simp add: reject_if_def)

lemma reject_if_simps [simp]:
  "reject_if True e = Inl e"
  "reject_if False e = Inr ()"
  by (simp_all add: reject_if_def)

lemma map_err_eq_Inr [simp, result_simps]:
  "map_err f r = Inr y \<longleftrightarrow> r = Inr y"
  by (cases r) auto

lemma ok_or_eq_Inr [simp, result_simps]:
  "ok_or x e = Inr y \<longleftrightarrow> x = Some y"
  by (cases x) auto

lemma try_each_ok [simp, result_simps]:
  "try_each f xs = Inr u \<longleftrightarrow> (\<forall>x \<in> set xs. f x = Inr ())"
  by (induction xs) auto

lemma try_map_ok:
  "try_map f xs = Inr ys \<longleftrightarrow> list_all2 (\<lambda>x y. f x = Inr y) xs ys"
proof (induction xs arbitrary: ys)
  case Nil
  then show ?case by auto
next
  case (Cons x xs)
  then show ?case
    by (auto simp: list_all2_Cons1)
qed

section \<open>Bytes\<close>

definition is_ascii :: "char \<Rightarrow> bool" where
  "is_ascii c \<longleftrightarrow> byte c < 128"

definition is_ascii_digit :: "char \<Rightarrow> bool" where
  "is_ascii_digit c \<longleftrightarrow> 48 \<le> byte c \<and> byte c \<le> 57"

definition is_ascii_uppercase :: "char \<Rightarrow> bool" where
  "is_ascii_uppercase c \<longleftrightarrow> 65 \<le> byte c \<and> byte c \<le> 90"

definition is_ascii_lowercase :: "char \<Rightarrow> bool" where
  "is_ascii_lowercase c \<longleftrightarrow> 97 \<le> byte c \<and> byte c \<le> 122"

definition is_ascii_alphabetic :: "char \<Rightarrow> bool" where
  "is_ascii_alphabetic c \<longleftrightarrow> is_ascii_uppercase c \<or> is_ascii_lowercase c"

definition is_ascii_alphanumeric :: "char \<Rightarrow> bool" where
  "is_ascii_alphanumeric c \<longleftrightarrow> is_ascii_alphabetic c \<or> is_ascii_digit c"

text \<open>A byte of an identifier: \<open>is_ascii_alphanumeric() || == b'_'\<close>.\<close>

definition is_ident_byte :: "char \<Rightarrow> bool" where
  "is_ident_byte c \<longleftrightarrow> is_ascii_alphanumeric c \<or> c = CHR ''_''"

definition to_ascii_upper :: "char \<Rightarrow> char" where
  "to_ascii_upper c = (if is_ascii_lowercase c then char_of (byte c - 32) else c)"

definition to_ascii_lower :: "char \<Rightarrow> char" where
  "to_ascii_lower c = (if is_ascii_uppercase c then char_of (byte c + 32) else c)"

lemmas ascii_defs [bytes_simps] =
  is_ascii_def is_ascii_digit_def is_ascii_uppercase_def is_ascii_lowercase_def
  is_ascii_alphabetic_def is_ascii_alphanumeric_def is_ident_byte_def

text \<open>
  \<open>String::push(b as char)\<close> for a byte \<open>b\<close>: the code point U+0000 to U+00FF in UTF-8, so a byte
  from 128 on becomes two.
\<close>

definition push_byte_as_char :: "char \<Rightarrow> str" where
  "push_byte_as_char c =
     (if byte c < 128 then [c]
      else [char_of (192 + byte c div 64), char_of (128 + byte c mod 64)])"

lemma push_byte_as_char_ascii [simp]: "is_ascii c \<Longrightarrow> push_byte_as_char c = [c]"
  by (simp add: push_byte_as_char_def is_ascii_def)

lemma length_push_byte_as_char:
  "length (push_byte_as_char c) = (if is_ascii c then 1 else 2)"
  by (simp add: push_byte_as_char_def is_ascii_def)

text \<open>A byte as an 8-bit word.\<close>

lemma unat_of_char_u8: "unat (of_char c :: u8) = byte c"
proof -
  have "(of_char c :: u8) = of_nat (byte c)" by (simp add: of_nat_of_char)
  then show ?thesis by (simp only: unat_of_nat) simp
qed

lemma of_char_u8_eq: "(of_char x :: u8) = of_char y \<longleftrightarrow> x = y"
proof
  assume "(of_char x :: u8) = of_char y"
  then have "byte x = byte y" using unat_of_char_u8 by metis
  then show "x = y" by simp
qed simp

section \<open>Whitespace\<close>

text \<open>
  \<open>char::is_whitespace\<close> on UTF-8 bytes: \<open>ws_len s\<close> is the byte length of a whitespace character
  at the head of \<open>s\<close> (0 when there is none): U+0009 to U+000D, U+0020, U+0085, U+00A0, U+1680,
  U+2000 to U+200A, U+2028, U+2029, U+202F, U+205F, U+3000.
\<close>

definition ws2 :: "nat \<Rightarrow> nat \<Rightarrow> bool" where
  "ws2 b c \<longleftrightarrow> b = 194 \<and> (c = 133 \<or> c = 160)"

definition ws3 :: "nat \<Rightarrow> nat \<Rightarrow> nat \<Rightarrow> bool" where
  "ws3 b c d \<longleftrightarrow>
     b = 225 \<and> c = 154 \<and> d = 128 \<or>
     b = 226 \<and> c = 128 \<and> (128 \<le> d \<and> d \<le> 138 \<or> d = 168 \<or> d = 169 \<or> d = 175) \<or>
     b = 226 \<and> c = 129 \<and> d = 159 \<or>
     b = 227 \<and> c = 128 \<and> d = 128"

definition ws1 :: "nat \<Rightarrow> bool" where
  "ws1 b \<longleftrightarrow> 9 \<le> b \<and> b \<le> 13 \<or> b = 32"

fun ws_len :: "str \<Rightarrow> nat" where
  "ws_len (a # b # c # _) =
     (if ws1 (byte a) then 1
      else if ws2 (byte a) (byte b) then 2
      else if ws3 (byte a) (byte b) (byte c) then 3 else 0)"
| "ws_len [a, b] =
     (if ws1 (byte a) then 1 else if ws2 (byte a) (byte b) then 2 else 0)"
| "ws_len [a] = (if ws1 (byte a) then 1 else 0)"
| "ws_len [] = 0"

text \<open>The same from the end, on the reversed bytes.\<close>

fun ws_len_rev :: "str \<Rightarrow> nat" where
  "ws_len_rev (c # b # a # _) =
     (if ws1 (byte c) then 1
      else if ws2 (byte b) (byte c) then 2
      else if ws3 (byte a) (byte b) (byte c) then 3 else 0)"
| "ws_len_rev [c, b] =
     (if ws1 (byte c) then 1 else if ws2 (byte b) (byte c) then 2 else 0)"
| "ws_len_rev [c] = (if ws1 (byte c) then 1 else 0)"
| "ws_len_rev [] = 0"

lemma ws_len_le: "ws_len s \<le> length s"
  by (cases s rule: ws_len.cases) auto

lemma ws_len_rev_le: "ws_len_rev s \<le> length s"
  by (cases s rule: ws_len_rev.cases) auto

lemma ws_len_Nil_iff: "ws_len s \<noteq> 0 \<Longrightarrow> s \<noteq> []"
  by auto

function trim_start :: "str \<Rightarrow> str" where
  "trim_start s = (if ws_len s = 0 then s else trim_start (drop (ws_len s) s))"
  by pat_completeness auto
termination
  by (relation "measure length") (use ws_len_le ws_len_Nil_iff in \<open>auto simp: diff_less\<close>)

function trim_end_rev :: "str \<Rightarrow> str" where
  "trim_end_rev s = (if ws_len_rev s = 0 then s else trim_end_rev (drop (ws_len_rev s) s))"
  by pat_completeness auto
termination
  by (relation "measure length") (auto intro!: diff_less simp: gr0_conv_Suc split: list.splits)

declare trim_start.simps [simp del] trim_end_rev.simps [simp del]

definition trim :: "str \<Rightarrow> str" where
  "trim s = rev (trim_end_rev (rev (trim_start s)))"

text \<open>\<open>s.trim().is_empty()\<close>: every character is whitespace.\<close>

definition is_blank :: "str \<Rightarrow> bool" where
  "is_blank s \<longleftrightarrow> trim_start s = []"


lemma trim_start_no_ws: "ws_len s = 0 \<Longrightarrow> trim_start s = s"
  by (subst trim_start.simps) simp

lemma trim_start_Nil [simp]: "trim_start [] = []"
  by (simp add: trim_start_no_ws)

lemma trim_start_step: "ws_len s \<noteq> 0 \<Longrightarrow> trim_start s = trim_start (drop (ws_len s) s)"
  by (subst trim_start.simps) simp

lemma ws_len_trim_start [simp]: "ws_len (trim_start s) = 0"
  by (induction s rule: trim_start.induct) (subst trim_start.simps, auto)

lemma suffix_trim_start: "suffix (trim_start s) s"
proof (induction s rule: trim_start.induct)
  case (1 s)
  show ?case
  proof (cases "ws_len s = 0")
    case True
    then show ?thesis by (simp add: trim_start_no_ws)
  next
    case False
    with "1" have "suffix (trim_start s) (drop (ws_len s) s)"
      by (simp add: trim_start_step)
    then show ?thesis
      by (rule suffix_order.trans) (rule suffix_drop)
  qed
qed

lemma trim_start_length: "length (trim_start s) \<le> length s"
  using suffix_trim_start by (rule suffix_length_le)

lemma ws_len_append_ascii: "ws1 (byte c) \<Longrightarrow> ws_len (c # s) = 1"
  by (cases "(c # s)" rule: ws_len.cases) auto

lemma trim_start_ws1: "ws1 (byte c) \<Longrightarrow> trim_start (c # s) = trim_start s"
  using ws_len_append_ascii [of c s] by (simp add: trim_start_step)

lemma ws_len_not_ws: "byte c < 128 \<Longrightarrow> \<not> ws1 (byte c) \<Longrightarrow> ws_len (c # s) = 0"
  by (cases "(c # s)" rule: ws_len.cases) (auto simp: ws2_def ws3_def)

section \<open>Numbers as text\<close>

text \<open>Positional digits, most significant first: \<open>{n}\<close> and \<open>{n:X}\<close> print them.\<close>

function digits_of :: "nat \<Rightarrow> nat \<Rightarrow> nat list" where
  "digits_of b n = (if b < 2 \<or> n < b then [n] else digits_of b (n div b) @ [n mod b])"
  by pat_completeness auto
termination
  by (relation "measure snd") auto

declare digits_of.simps [simp del]

definition of_digits :: "nat \<Rightarrow> nat list \<Rightarrow> nat" where
  "of_digits b ds = foldl (\<lambda>a d. a * b + d) 0 ds"

definition digit_char :: "nat \<Rightarrow> char" where
  "digit_char d = (if d < 10 then char_of (48 + d) else char_of (55 + d))"

text \<open>The value of a digit in any radix up to 16, either letter case.\<close>

definition digit_val :: "char \<Rightarrow> nat option" where
  "digit_val c =
     (if is_ascii_digit c then Some (byte c - 48)
      else if 65 \<le> byte c \<and> byte c \<le> 70 then Some (byte c - 55)
      else if 97 \<le> byte c \<and> byte c \<le> 102 then Some (byte c - 87)
      else None)"

definition show_radix :: "nat \<Rightarrow> nat \<Rightarrow> str" where
  "show_radix b n = map digit_char (digits_of b n)"

text \<open>\<open>n.to_string()\<close> of an unsigned integer.\<close>

definition show_nat :: "nat \<Rightarrow> str" where
  "show_nat n = show_radix 10 n"

fun parse_digits :: "nat \<Rightarrow> nat \<Rightarrow> str \<Rightarrow> nat option" where
  "parse_digits b acc [] = Some acc"
| "parse_digits b acc (c # cs) =
     (case digit_val c of
        None \<Rightarrow> None
      | Some d \<Rightarrow> if d < b then parse_digits b (acc * b + d) cs else None)"

text \<open>
  \<open>from_str_radix\<close> / \<open>parse::<u64>()\<close> without the width check: an optional \<open>+\<close>, then at least one
  digit of the radix.
\<close>

definition strip_plus :: "str \<Rightarrow> str" where
  "strip_plus s = (case s of c # cs \<Rightarrow> if c = CHR ''+'' then cs else s | [] \<Rightarrow> [])"

definition parse_radix :: "nat \<Rightarrow> str \<Rightarrow> nat option" where
  "parse_radix b s = (if strip_plus s = [] then None else parse_digits b 0 (strip_plus s))"

definition parse_u64 :: "nat \<Rightarrow> str \<Rightarrow> u64 option" where
  "parse_u64 b s =
     (case parse_radix b s of
        None \<Rightarrow> None
      | Some n \<Rightarrow> if n < 2 ^ 64 then Some (of_nat n) else None)"

text \<open>\<open>parse::<i64>()\<close>: the value as an integer in the range of an \<open>i64\<close>.\<close>

definition parse_i64 :: "str \<Rightarrow> int option" where
  "parse_i64 s =
     (case s of
        c # d # cs \<Rightarrow>
          if c = CHR ''-'' then
            (case parse_digits 10 0 (d # cs) of
               None \<Rightarrow> None
             | Some n \<Rightarrow> if n \<le> 2 ^ 63 then Some (- int n) else None)
          else
            (case parse_radix 10 s of
               None \<Rightarrow> None
             | Some n \<Rightarrow> if n < 2 ^ 63 then Some (int n) else None)
      | _ \<Rightarrow>
          (case parse_radix 10 s of
             None \<Rightarrow> None
           | Some n \<Rightarrow> if n < 2 ^ 63 then Some (int n) else None))"

lemma digits_of_nonempty [simp]: "digits_of b n \<noteq> []"
  by (subst digits_of.simps) simp

lemma of_digits_snoc: "of_digits b (ds @ [d]) = of_digits b ds * b + d"
  by (simp add: of_digits_def)

lemma of_digits_digits_of: "2 \<le> b \<Longrightarrow> of_digits b (digits_of b n) = n"
proof (induction b n rule: digits_of.induct)
  case (1 b n)
  show ?case
  proof (cases "n < b")
    case True
    with "1.prems" show ?thesis
      by (subst digits_of.simps) (simp add: of_digits_def)
  next
    case False
    with "1" have "of_digits b (digits_of b (n div b)) = n div b" by simp
    with False "1.prems" show ?thesis
      by (subst digits_of.simps) (simp add: of_digits_snoc)
  qed
qed

lemma digits_of_bound: "2 \<le> b \<Longrightarrow> \<forall>d \<in> set (digits_of b n). d < b"
proof (induction b n rule: digits_of.induct)
  case (1 b n)
  then show ?case
    by (subst digits_of.simps) auto
qed

lemma of_char_digit_char: "d < 16 \<Longrightarrow> byte (digit_char d) = (if d < 10 then 48 + d else 55 + d)"
  by (simp add: digit_char_def)

lemma digit_val_digit_char [simp]: "d < 16 \<Longrightarrow> digit_val (digit_char d) = Some d"
  by (auto simp: digit_val_def of_char_digit_char is_ascii_digit_def)

lemma parse_digits_map:
  assumes "\<forall>d \<in> set ds. d < b" and "b \<le> 16"
  shows "parse_digits b acc (map digit_char ds) = Some (foldl (\<lambda>a d. a * b + d) acc ds)"
  using assms(1)
proof (induction ds arbitrary: acc)
  case Nil
  then show ?case by simp
next
  case (Cons d ds)
  with assms(2) have "d < 16" by simp
  with Cons show ?case by simp
qed

lemma show_radix_nonempty [simp]: "show_radix b n \<noteq> []"
  by (simp add: show_radix_def)

lemma digit_char_not_plus: "d < 16 \<Longrightarrow> digit_char d \<noteq> CHR ''+''"
  by (auto simp: digit_val_def is_ascii_digit_def dest: digit_val_digit_char)

lemma show_radix_chars:
  assumes "2 \<le> b" and "b \<le> 16" and "c \<in> set (show_radix b n)"
  shows "\<exists>d < b. c = digit_char d"
  using assms digits_of_bound [of b n] by (auto simp: show_radix_def)

lemma strip_plus_show_radix [simp]:
  assumes "2 \<le> b" and "b \<le> 16"
  shows "strip_plus (show_radix b n) = show_radix b n"
proof (cases "show_radix b n")
  case (Cons c cs)
  then obtain d where "d < b" and "c = digit_char d"
    using show_radix_chars [OF assms, of c n] by auto
  with assms(2) have "c \<noteq> CHR ''+''"
    using digit_char_not_plus [of d] by simp
  with Cons show ?thesis by (simp add: strip_plus_def)
qed simp

lemma parse_show_radix [simp]:
  assumes "2 \<le> b" and "b \<le> 16"
  shows "parse_radix b (show_radix b n) = Some n"
proof -
  have "parse_digits b 0 (show_radix b n) = Some n"
    using parse_digits_map [OF digits_of_bound [OF assms(1)] assms(2), of 0 n]
      of_digits_digits_of [OF assms(1), of n]
    by (simp add: show_radix_def of_digits_def)
  with assms show ?thesis by (simp add: parse_radix_def)
qed

lemma show_nat_digits: "c \<in> set (show_nat n) \<Longrightarrow> is_ascii_digit c"
  using show_radix_chars [of 10 c n]
  by (auto simp: show_nat_def is_ascii_digit_def of_char_digit_char)

lemma show_nat_nonempty [simp]: "show_nat n \<noteq> []"
  by (simp add: show_nat_def)

lemma show_nat_inj [simp]: "show_nat m = show_nat n \<longleftrightarrow> m = n"
proof
  assume "show_nat m = show_nat n"
  then have "parse_radix 10 (show_nat m) = parse_radix 10 (show_nat n)" by simp
  then show "m = n" by (simp add: show_nat_def)
qed simp

section \<open>Splitting text\<close>

text \<open>\<open>split_once(c)\<close> and \<open>split(c)\<close> on a one-byte separator.\<close>

fun split_once :: "char \<Rightarrow> str \<Rightarrow> (str \<times> str) option" where
  "split_once c [] = None"
| "split_once c (x # xs) =
     (if x = c then Some ([], xs)
      else map_option (\<lambda>(a, b). (x # a, b)) (split_once c xs))"

fun split_on :: "char \<Rightarrow> str \<Rightarrow> str list" where
  "split_on c [] = [[]]"
| "split_on c (x # xs) =
     (if x = c then [] # split_on c xs
      else (case split_on c xs of w # ws \<Rightarrow> (x # w) # ws | [] \<Rightarrow> [[x]]))"

text \<open>\<open>[a, b, c].join(sep)\<close>.\<close>

fun join :: "str \<Rightarrow> str list \<Rightarrow> str" where
  "join sep [] = []"
| "join sep [x] = x"
| "join sep (x # y # ys) = x @ sep @ join sep (y # ys)"

lemma split_once_append:
  "c \<notin> set a \<Longrightarrow> split_once c (a @ c # b) = Some (a, b)"
  by (induction a) auto

lemma split_once_Some:
  "split_once c s = Some (a, b) \<longleftrightarrow> s = a @ c # b \<and> c \<notin> set a"
proof (induction s arbitrary: a)
  case Nil
  then show ?case by simp
next
  case (Cons x s)
  then show ?case by (cases a) auto
qed

text \<open>\<open>strip_prefix(p)\<close>.\<close>

fun strip_prefix :: "str \<Rightarrow> str \<Rightarrow> str option" where
  "strip_prefix [] s = Some s"
| "strip_prefix (p # ps) [] = None"
| "strip_prefix (p # ps) (x # xs) = (if p = x then strip_prefix ps xs else None)"

lemma strip_prefix_Some: "strip_prefix p s = Some r \<longleftrightarrow> s = p @ r"
  by (induction p s rule: strip_prefix.induct) auto

lemma strip_prefix_append [simp]: "strip_prefix p (p @ r) = Some r"
  by (simp add: strip_prefix_Some)

section \<open>Ordered maps\<close>

text \<open>
  \<open>serde_json::Map\<close> and \<open>BTreeMap<String, _>\<close>: entries in strictly ascending key order, keys
  compared bytewise.
\<close>

type_synonym 'v omap = "(str \<times> 'v) list"

definition omap_get :: "'v omap \<Rightarrow> str \<Rightarrow> 'v option" where
  "omap_get m k = map_of m k"

fun omap_insert :: "str \<Rightarrow> 'v \<Rightarrow> 'v omap \<Rightarrow> 'v omap" where
  "omap_insert k v [] = [(k, v)]"
| "omap_insert k v ((k', v') # m) =
     (if k = k' then (k, v) # m
      else if k < k' then (k, v) # (k', v') # m
      else (k', v') # omap_insert k v m)"

definition omap_remove :: "str \<Rightarrow> 'v omap \<Rightarrow> 'v omap" where
  "omap_remove k m = filter (\<lambda>(k', _). k' \<noteq> k) m"

definition omap_ok :: "'v omap \<Rightarrow> bool" where
  "omap_ok m \<longleftrightarrow> sorted_wrt (<) (map fst m)"

text \<open>The contract the clients of an ordered map rely on.\<close>

locale key_map =
  fixes get :: "'m \<Rightarrow> 'k \<Rightarrow> 'v option"
    and insert_key :: "'k \<Rightarrow> 'v \<Rightarrow> 'm \<Rightarrow> 'm"
    and remove :: "'k \<Rightarrow> 'm \<Rightarrow> 'm"
    and invar :: "'m \<Rightarrow> bool"
    and empty :: 'm
  assumes get_empty: "get empty k = None"
    and get_insert: "invar m \<Longrightarrow> get (insert_key k v m) k' = (if k' = k then Some v else get m k')"
    and get_remove: "invar m \<Longrightarrow> get (remove k m) k' = (if k' = k then None else get m k')"
    and invar_empty: "invar empty"
    and invar_insert: "invar m \<Longrightarrow> invar (insert_key k v m)"
    and invar_remove: "invar m \<Longrightarrow> invar (remove k m)"
begin

lemma invar_insert_all: "invar m \<Longrightarrow> invar (fold (\<lambda>(k, v). insert_key k v) kvs m)"
  by (induction kvs arbitrary: m) (auto simp: invar_insert)

lemma get_insert_all:
  "invar m \<Longrightarrow> get (fold (\<lambda>(k, v). insert_key k v) kvs m) k =
     (case map_of (rev kvs) k of None \<Rightarrow> get m k | Some v \<Rightarrow> Some v)"
  by (induction kvs arbitrary: m)
    (auto simp: get_insert invar_insert map_add_def split: option.splits)

lemma insert_remove_same: "invar m \<Longrightarrow> get (insert_key k v (remove k m)) = get (insert_key k v m)"
  by (rule ext) (simp add: get_insert get_remove invar_remove)

end

lemma omap_insert_keys: "set (map fst (omap_insert k v m)) = insert k (set (map fst m))"
  by (induction k v m rule: omap_insert.induct) (simp_all add: insert_commute)

lemma omap_ok_insert: "omap_ok m \<Longrightarrow> omap_ok (omap_insert k v m)"
proof (induction k v m rule: omap_insert.induct)
  case (1 k v)
  then show ?case by (simp add: omap_ok_def)
next
  case (2 k v k' v' m)
  consider "k = k'" | "k < k'" | "k' < k" by (rule linorder_cases)
  then show ?case
  proof cases
    case 1
    with "2.prems" show ?thesis by (simp add: omap_ok_def)
  next
    case 2
    with "2.prems" show ?thesis by (auto simp: omap_ok_def)
  next
    case 3
    then have "omap_ok (omap_insert k v m)"
      using "2" by (simp add: omap_ok_def)
    moreover have "\<forall>x \<in> set (map fst (omap_insert k v m)). k' < x"
      unfolding omap_insert_keys using 3 "2.prems" by (simp add: omap_ok_def)
    moreover have "\<not> k < k'" and "k \<noteq> k'" using 3 by auto
    ultimately show ?thesis by (simp add: omap_ok_def)
  qed
qed

lemma omap_get_insert:
  "omap_get (omap_insert k v m) k' = (if k' = k then Some v else omap_get m k')"
  by (induction m) (auto simp: omap_get_def)

lemma omap_get_remove: "omap_get (omap_remove k m) k' = (if k' = k then None else omap_get m k')"
  by (induction m) (auto simp: omap_get_def omap_remove_def)

lemma omap_ok_remove: "omap_ok m \<Longrightarrow> omap_ok (omap_remove k m)"
proof -
  assume "omap_ok m"
  moreover have "map fst (omap_remove k m) = filter (\<lambda>k'. k' \<noteq> k) (map fst m)"
    by (induction m) (auto simp: omap_remove_def)
  ultimately show ?thesis by (simp add: omap_ok_def sorted_wrt_filter)
qed

interpretation omap: key_map omap_get omap_insert omap_remove omap_ok "[]"
  by unfold_locales
    (auto simp: omap_get_insert omap_get_remove omap_ok_insert omap_ok_remove,
     auto simp: omap_get_def omap_ok_def)

lemmas omap_laws [simp, omap_simps] = omap_get_insert omap_get_remove

lemma omap_get_Nil [simp]: "omap_get [] k = None"
  by (simp add: omap_get_def)

lemma omap_empty: "(\<And>k. omap_get m k = None) \<Longrightarrow> m = []"
  by (cases m) (auto simp: omap_get_def, metis option.distinct(1))

lemma omap_ok_Nil [simp]: "omap_ok []"
  by (simp add: omap_ok_def)

section \<open>Transition systems\<close>

text \<open>
  The contract of a stateful component: its initial states satisfy an invariant that every step
  keeps, so every reachable state satisfies it.
\<close>

locale transition_invariant =
  fixes init :: "'s \<Rightarrow> bool"
    and step :: "'s \<Rightarrow> 's \<Rightarrow> bool"
    and inv :: "'s \<Rightarrow> bool"
  assumes init_inv: "init s \<Longrightarrow> inv s"
    and step_inv: "inv s \<Longrightarrow> step s t \<Longrightarrow> inv t"
begin

lemma steps_inv: "step\<^sup>*\<^sup>* s t \<Longrightarrow> inv s \<Longrightarrow> inv t"
  by (induction rule: rtranclp_induct) (auto intro: step_inv)

lemma reachable_inv: "init s \<Longrightarrow> step\<^sup>*\<^sup>* s t \<Longrightarrow> inv t"
  using steps_inv init_inv by blast

end

end
