(* ===== verification/Json.thy ===== *)
theory Json
  imports Prelude
begin

text \<open>
  \<open>serde_json::Value\<close>: numbers as \<open>serde_json\<close> keeps them (an unsigned or a negative 64-bit
  integer, or the bits of a finite \<open>f64\<close>), objects as ordered maps.  Text rendering and parsing of
  JSON is \<open>serde_json\<close>'s own code, so the definitions that need it take it as an argument.
\<close>

section \<open>Values\<close>

text \<open>\<open>NegInt\<close> holds the two's complement bits of a negative \<open>i64\<close>, \<open>FloatBits\<close> the bits of an \<open>f64\<close>.\<close>

datatype number = PosInt u64 | NegInt u64 | FloatBits u64

datatype json =
    JNull
  | JBool bool
  | JNum number
  | JStr str
  | JArr "json list"
  | JObj "json omap"

section \<open>Accessors\<close>

definition as_str :: "json \<Rightarrow> str option" where
  "as_str v = (case v of JStr s \<Rightarrow> Some s | _ \<Rightarrow> None)"

definition as_u64 :: "json \<Rightarrow> u64 option" where
  "as_u64 v = (case v of JNum (PosInt n) \<Rightarrow> Some n | _ \<Rightarrow> None)"

text \<open>\<open>Number::as_i64\<close>, as an integer.\<close>

definition as_i64 :: "number \<Rightarrow> int option" where
  "as_i64 n =
     (case n of
        PosInt u \<Rightarrow> if unat u < 2 ^ 63 then Some (uint u) else None
      | NegInt u \<Rightarrow> Some (sint u)
      | FloatBits _ \<Rightarrow> None)"

definition is_null :: "json \<Rightarrow> bool" where
  "is_null v = (v = JNull)"

text \<open>\<open>Value::get(key)\<close>: the member of an object, \<open>None\<close> for any other value.\<close>

definition json_get :: "json \<Rightarrow> str \<Rightarrow> json option" where
  "json_get v k = (case v of JObj m \<Rightarrow> omap_get m k | _ \<Rightarrow> None)"

definition json_of_u64 :: "u64 \<Rightarrow> json" where
  "json_of_u64 n = JNum (PosInt n)"

text \<open>\<open>Value::from(i64)\<close> of an integer in range.\<close>

definition json_of_int :: "int \<Rightarrow> json" where
  "json_of_int i = JNum (if 0 \<le> i then PosInt (of_int i) else NegInt (of_int i))"

definition json_of_opt_str :: "str option \<Rightarrow> json" where
  "json_of_opt_str x = (case x of None \<Rightarrow> JNull | Some s \<Rightarrow> JStr s)"

text \<open>An object literal \<open>json!({k: v, ...})\<close>: the members inserted one after the other.\<close>

definition json_obj :: "(str \<times> json) list \<Rightarrow> json" where
  "json_obj kvs = JObj (fold (\<lambda>(k, v). omap_insert k v) kvs [])"

text \<open>The first member of a map in its iteration order (\<open>map.values().next()\<close>).\<close>

definition omap_first :: "'v omap \<Rightarrow> 'v option" where
  "omap_first m = (case m of [] \<Rightarrow> None | (_, v) # _ \<Rightarrow> Some v)"

text \<open>Every object inside the value keeps its keys in order.\<close>

fun json_ok :: "json \<Rightarrow> bool" where
  "json_ok (JArr vs) = (\<forall>v \<in> set vs. json_ok v)"
| "json_ok (JObj m) = (omap_ok m \<and> (\<forall>p \<in> set m. json_ok (snd p)))"
| "json_ok _ = True"

lemma json_get_simps [simp]:
  "json_get (JObj m) k = omap_get m k"
  "json_get JNull k = None"
  "json_get (JArr vs) k = None"
  by (simp_all add: json_get_def)

lemma as_u64_of_u64 [simp]: "as_u64 (json_of_u64 n) = Some n"
  by (simp add: as_u64_def json_of_u64_def)

lemma json_obj_ok: "\<exists>m. json_obj kvs = JObj m \<and> omap_ok m"
  by (simp add: json_obj_def omap.invar_insert_all)

lemma json_obj_get:
  "json_get (json_obj kvs) k = map_of (rev kvs) k"
  using omap.get_insert_all [of "[]" kvs k]
  by (simp add: json_obj_def split: option.splits)

lemma omap_insert_values:
  "snd ` set (omap_insert k v m) \<subseteq> insert v (snd ` set m)"
  by (induction k v m rule: omap_insert.induct) auto

lemma json_ok_insert:
  "json_ok (JObj m) \<Longrightarrow> json_ok v \<Longrightarrow> json_ok (JObj (omap_insert k v m))"
  using omap_insert_values [of k v m] omap_ok_insert [of m k v]
  by (auto simp: image_subset_iff) force

end
