(* ===== verification/Errors.thy ===== *)
theory Errors
  imports Json
begin

text \<open>
  \<open>src/errors.rs\<close>: the plugin's error taxonomy, the classification of driver errors, and the
  projection to the host's \<open>BackendError\<close>.  A message built by \<open>format!\<close> is a \<open>msg\<close>: the fixed
  text it starts with, as a key, and the interpolated values in order; \<open>render\<close>, an argument where
  it is needed, turns it into text.  \<open>sqlx::Error\<close> is the \<open>sqlx\<close> crate's: of its variants only the
  ones the sources distinguish are named, with the database error code where there is one.
\<close>

section \<open>Messages and errors\<close>

datatype msg = Msg str "str list"

datatype sqlx_error =
    PoolTimedOut
  | PoolClosed
  | Database "str option" str
  | OtherSqlx str

datatype sql_error =
    PoolTimeout u64
  | Connect sqlx_error
  | Prepare sqlx_error
  | Execute sqlx_error
  | Serialize msg
  | Timeout u64
  | ProfileNotFound str
  | InvalidSpec msg
  | Driver sqlx_error

text \<open>\<open>BackendError\<close> of the plugin protocol; \<open>Transport\<close> keeps its prefix and its text.\<close>

datatype backend_error =
    BTimeout u64
  | BTransport str str
  | BInvalidSpec str
  | BProfileNotFound str

type_synonym 'a sql_result = "sql_error + 'a"
type_synonym 'a backend_result = "backend_error + 'a"

text \<open>\<open>tokio::time::timeout\<close> around a driver call: it elapsed, or the driver answered.\<close>

datatype 'a timed = Elapsed | Answered 'a

abbreviation invalid :: "str \<Rightarrow> str list \<Rightarrow> sql_error" where
  "invalid key args \<equiv> InvalidSpec (Msg key args)"

section \<open>Classification\<close>

definition from_execute :: "sqlx_error \<Rightarrow> sql_error" where
  "from_execute err =
     (case err of
        PoolTimedOut \<Rightarrow> PoolTimeout 0
      | PoolClosed \<Rightarrow> Driver PoolClosed
      | other \<Rightarrow> Execute other)"

text \<open>\<open>err.as_database_error()\<close> and \<open>code()\<close>.\<close>

definition database_code :: "sqlx_error \<Rightarrow> str option" where
  "database_code err = (case err of Database code _ \<Rightarrow> code | _ \<Rightarrow> None)"

definition is_stale_statement_error :: "sqlx_error \<Rightarrow> bool" where
  "is_stale_statement_error err =
     (case database_code err of
        None \<Rightarrow> False
      | Some code \<Rightarrow> code \<in> {''26000'', ''42P18'', ''0A000'', ''1615''})"

text \<open>\<open>is_retryable_stale\<close> of \<open>src/lib.rs\<close>.\<close>

definition is_retryable_stale :: "sql_error \<Rightarrow> bool" where
  "is_retryable_stale err =
     (case err of
        Execute inner \<Rightarrow> is_stale_statement_error inner
      | Prepare inner \<Rightarrow> is_stale_statement_error inner
      | Driver inner \<Rightarrow> is_stale_statement_error inner
      | _ \<Rightarrow> False)"

section \<open>Projection to the host\<close>

text \<open>
  \<open>render\<close> is the text of a message, \<open>sqlx_text\<close> the \<open>Display\<close> of a driver error, \<open>redact\<close> stands
  for \<open>redact_in_text\<close> (theory \<open>Redact\<close>).
\<close>

definition to_backend_error ::
    "(msg \<Rightarrow> str) \<Rightarrow> (sqlx_error \<Rightarrow> str) \<Rightarrow> (str \<Rightarrow> str) \<Rightarrow> sql_error \<Rightarrow> backend_error" where
  "to_backend_error render sqlx_text redact err =
     (case err of
        PoolTimeout ms \<Rightarrow> BTimeout ms
      | Timeout ms \<Rightarrow> BTimeout ms
      | ProfileNotFound name \<Rightarrow> BProfileNotFound name
      | InvalidSpec message \<Rightarrow> BInvalidSpec (redact (render message))
      | Serialize message \<Rightarrow> BTransport ''row serialization failed: '' (redact (render message))
      | Connect inner \<Rightarrow> BTransport ''connect: '' (redact (sqlx_text inner))
      | Driver inner \<Rightarrow> BTransport ''driver: '' (redact (sqlx_text inner))
      | Prepare inner \<Rightarrow> BTransport ''prepare: '' (redact (sqlx_text inner))
      | Execute inner \<Rightarrow> BTransport ''execute: '' (redact (sqlx_text inner)))"

text \<open>The labels the plugin derives from an outcome (\<open>src/lib.rs\<close>).\<close>

definition host_outcome_label :: "'a backend_result \<Rightarrow> str" where
  "host_outcome_label result =
     (case result of
        Inr _ \<Rightarrow> ''ok''
      | Inl (BTimeout _) \<Rightarrow> ''timeout''
      | Inl (BTransport _ _) \<Rightarrow> ''transport''
      | Inl (BInvalidSpec _) \<Rightarrow> ''invalid_spec''
      | Inl (BProfileNotFound _) \<Rightarrow> ''profile_not_found'')"

definition audit_action_for :: "'a backend_result \<Rightarrow> str option" where
  "audit_action_for result =
     (case result of
        Inr _ \<Rightarrow> None
      | Inl (BTimeout _) \<Rightarrow> Some ''dev.mcpg.backend.sql.query_timeout''
      | Inl (BTransport _ _) \<Rightarrow> Some ''dev.mcpg.backend.sql.query_failed''
      | Inl (BInvalidSpec _) \<Rightarrow> None
      | Inl (BProfileNotFound _) \<Rightarrow> None)"

definition refund_reason_for :: "backend_error \<Rightarrow> str" where
  "refund_reason_for err =
     (case err of
        BTimeout _ \<Rightarrow> ''timeout''
      | BTransport _ _ \<Rightarrow> ''transport''
      | BInvalidSpec _ \<Rightarrow> ''invalid_spec''
      | BProfileNotFound _ \<Rightarrow> ''invalid_spec'')"

text \<open>A driver-class failure: what the circuit breaker counts (\<open>execute_inner\<close>).\<close>

definition is_driver_failure :: "'a backend_result \<Rightarrow> bool" where
  "is_driver_failure result =
     (case result of
        Inl (BTimeout _) \<Rightarrow> True
      | Inl (BTransport _ _) \<Rightarrow> True
      | _ \<Rightarrow> False)"

lemma is_retryable_stale_transport:
  "is_retryable_stale e \<Longrightarrow> \<exists>p t. to_backend_error render sqlx_text redact e = BTransport p t"
  by (auto simp: is_retryable_stale_def to_backend_error_def split: sql_error.splits)

lemma from_execute_not_invalid: "from_execute e \<noteq> InvalidSpec m"
  by (simp add: from_execute_def split: sqlx_error.splits)

end
