(* ===== verification/Decimal.thy ===== *)
theory Decimal
  imports Prelude
begin

text \<open>
  \<open>f64::from_str\<close> of the standard library: the grammar of its literals, the exact value of one, and
  the bits of the nearest double (ties to even).  Configuration amounts and floating-point column
  values use it.
\<close>

section \<open>Literals\<close>

text \<open>A literal of \<open>f64::from_str\<close>: the sign, the digits as one integer, and the power of ten.\<close>

datatype f64_lit = LitNan | LitInf bool | LitDec bool nat int

definition strip_sign :: "str \<Rightarrow> bool \<times> str" where
  "strip_sign s =
     (case s of
        [] \<Rightarrow> (False, [])
      | c # cs \<Rightarrow> if c = CHR ''-'' then (True, cs) else if c = CHR ''+'' then (False, cs) else (False, s))"

definition lit_exponent :: "str \<Rightarrow> int option" where
  "lit_exponent s =
     (if s = [] then Some 0
      else if hd s \<noteq> CHR ''e'' \<and> hd s \<noteq> CHR ''E'' then None
      else
        (let (neg, ds) = strip_sign (tl s)
         in if ds = [] then None
            else map_option (\<lambda>n. if neg then - int n else int n) (parse_digits 10 0 ds)))"

definition lit_number :: "bool \<Rightarrow> str \<Rightarrow> f64_lit option" where
  "lit_number neg s =
     (let whole = takeWhile is_ascii_digit s;
          rest = dropWhile is_ascii_digit s;
          has_dot = rest \<noteq> [] \<and> hd rest = CHR ''.'';
          frac = (if has_dot then takeWhile is_ascii_digit (tl rest) else []);
          tail = (if has_dot then dropWhile is_ascii_digit (tl rest) else rest)
      in if whole = [] \<and> frac = [] then None
         else
           (case (parse_digits 10 0 (whole @ frac), lit_exponent tail) of
              (Some m, Some e) \<Rightarrow> Some (LitDec neg m (e - int (length frac)))
            | _ \<Rightarrow> None))"

definition parse_f64_lit :: "str \<Rightarrow> f64_lit option" where
  "parse_f64_lit s =
     (let (neg, body) = strip_sign s;
          low = map to_ascii_lower body
      in if low = ''nan'' then Some LitNan
         else if low = ''inf'' \<or> low = ''infinity'' then Some (LitInf neg)
         else lit_number neg body)"

text \<open>
  The nearest \<open>f64\<close> is finite below the midpoint of the largest finite number and \<open>2\<^sup>1\<^sup>0\<^sup>2\<^sup>4\<close>, and is
  not zero above the midpoint of zero and the smallest subnormal; both midpoints round away from
  the open side.
\<close>

definition lit_is_finite :: "f64_lit \<Rightarrow> bool" where
  "lit_is_finite l =
     (case l of
        LitDec _ m e \<Rightarrow>
          if 0 \<le> e then m * 10 ^ nat e < 2 ^ 1024 - 2 ^ 970
          else m < (2 ^ 1024 - 2 ^ 970) * 10 ^ nat (- e)
      | _ \<Rightarrow> False)"

definition lit_below_zero :: "f64_lit \<Rightarrow> bool" where
  "lit_below_zero l =
     (case l of
        LitDec neg m e \<Rightarrow> neg \<and> (if 0 \<le> e then 0 < m else 10 ^ nat (- e) < m * 2 ^ 1075)
      | LitInf neg \<Rightarrow> neg
      | LitNan \<Rightarrow> False)"

section \<open>Rounding\<close>

fun bit_length :: "nat \<Rightarrow> nat" where
  "bit_length n = (if n = 0 then 0 else Suc (bit_length (n div 2)))"

declare bit_length.simps [simp del]

text \<open>The floor of the binary logarithm of \<open>num / den\<close>, both positive.\<close>

definition floor_log2 :: "nat \<Rightarrow> nat \<Rightarrow> int" where
  "floor_log2 num den =
     (let d = int (bit_length num) - int (bit_length den)
      in if (if 0 \<le> d then den * 2 ^ nat d \<le> num else den \<le> num * 2 ^ nat (- d)) then d else d - 1)"

text \<open>The quotient rounded to the nearest integer, ties to even.\<close>

definition round_div :: "nat \<Rightarrow> nat \<Rightarrow> nat" where
  "round_div a b =
     (let q = a div b; r = a mod b
      in if 2 * r < b then q else if b < 2 * r then Suc q else if even q then q else Suc q)"

text \<open>
  The bits of \<open>num / den\<close>: the significand is an integer multiple of \<open>2\<^sup>e\<close> with \<open>e\<close> not below the
  exponent of the subnormals; adding it to the exponent field carries when it rounds up.
\<close>

definition f64_bits :: "nat \<Rightarrow> nat \<Rightarrow> nat" where
  "f64_bits num den =
     (if num = 0 then 0
      else
        (let e = max (- 1074) (floor_log2 num den - 52);
             m = (if 0 \<le> e then round_div num (den * 2 ^ nat e) else round_div (num * 2 ^ nat (- e)) den)
         in min (2047 * 2 ^ 52) (nat (e + 1074) * 2 ^ 52 + m)))"

definition lit_bits :: "f64_lit \<Rightarrow> u64" where
  "lit_bits l =
     (case l of
        LitNan \<Rightarrow> of_nat (4095 * 2 ^ 51)
      | LitInf neg \<Rightarrow> of_nat ((if neg then 2 ^ 63 else 0) + 2047 * 2 ^ 52)
      | LitDec neg m e \<Rightarrow>
          of_nat ((if neg then 2 ^ 63 else 0) +
            (if 0 \<le> e then f64_bits (m * 10 ^ nat e) 1 else f64_bits m (10 ^ nat (- e)))))"

text \<open>Two values, as the standard library gives them: one and a half, and the nearest double to 0.1.\<close>

lemma f64_bits_examples:
  "f64_bits 3 2 = 0x3FF8000000000000"
  "f64_bits 1 10 = 0x3FB999999999999A"
  by (simp_all add: f64_bits_def floor_log2_def round_div_def bit_length.simps Let_def)

end
