(* ===== verification/PgOutput.thy ===== *)
theory PgOutput
  imports Errors Decimal
begin

text \<open>
  \<open>src/pgoutput.rs\<close>: the decoder of PostgreSQL's \<open>pgoutput\<close> protocol.  The \<open>Reader\<close> is a parser
  from the remaining bytes to a value and the bytes after it.  The wire format of each field and of
  each message is the encoder of the same name; the interface between the two is the locale
  \<open>wire_codec\<close>, interpreted once per field type, from which the reading of whole messages follows.
  Log sequence numbers and column values close the theory.
\<close>

section \<open>Data\<close>

record column =
  col_name :: str
  col_type_oid :: u32
  col_key :: bool

record relation =
  rel_schema :: str
  rel_name :: str
  rel_columns :: "column list"

datatype datum = DNull | DUnchanged | DText str

text \<open>\<open>i64\<close> fields are 64-bit words read with \<open>sint\<close>.\<close>

datatype message =
    Begin u64 u64 u32
  | Commit u64
  | Relation u32 relation
  | Insert u32 "datum list"
  | Update u32 "(datum list \<times> bool) option" "datum list"
  | Delete u32 "datum list" bool
  | Truncate "u32 list" bool bool
  | Other

section \<open>Text\<close>

text \<open>
  \<open>String::from_utf8_lossy\<close>: \<open>utf8_len\<close> is the length of the well-formed character at the head and
  \<open>True\<close>, or the length of the ill-formed prefix that one U+FFFD replaces and \<open>False\<close>.
\<close>

definition is_cont :: "char \<Rightarrow> bool" where
  "is_cont c \<longleftrightarrow> 128 \<le> byte c \<and> byte c \<le> 191"

definition second_ok :: "nat \<Rightarrow> nat \<Rightarrow> bool" where
  "second_ok b1 b2 \<longleftrightarrow>
     (if b1 = 224 then 160 \<le> b2 \<and> b2 \<le> 191
      else if b1 = 237 then 128 \<le> b2 \<and> b2 \<le> 159
      else if b1 = 240 then 144 \<le> b2 \<and> b2 \<le> 191
      else if b1 = 244 then 128 \<le> b2 \<and> b2 \<le> 143
      else 128 \<le> b2 \<and> b2 \<le> 191)"

definition char_width :: "nat \<Rightarrow> nat" where
  "char_width b =
     (if b < 128 then 1 else if 194 \<le> b \<and> b \<le> 223 then 2 else if 224 \<le> b \<and> b \<le> 239 then 3
      else if 240 \<le> b \<and> b \<le> 244 then 4 else 0)"

fun utf8_len :: "str \<Rightarrow> nat \<times> bool" where
  "utf8_len [] = (0, False)"
| "utf8_len (c # cs) =
     (let w = char_width (byte c)
      in if w = 1 then (1, True)
         else if w = 0 then (1, False)
         else if cs = [] \<or> \<not> second_ok (byte c) (byte (hd cs)) then (1, False)
         else if w = 2 then (2, True)
         else if length cs < 2 \<or> \<not> is_cont (cs ! 1) then (2, False)
         else if w = 3 then (3, True)
         else if length cs < 3 \<or> \<not> is_cont (cs ! 2) then (3, False)
         else (4, True))"

definition replacement :: str where
  "replacement = [char_of (239::nat), char_of (191::nat), char_of (189::nat)]"

lemma utf8_len_pos: "s \<noteq> [] \<Longrightarrow> 0 < fst (utf8_len s)"
  by (cases s) (auto simp: Let_def)

lemma utf8_drop_shorter: "s \<noteq> [] \<Longrightarrow> (n, ok) = utf8_len s \<Longrightarrow> length (drop n s) < length s"
  using utf8_len_pos [of s] by (cases s) (auto dest: sym)

function from_utf8_lossy :: "str \<Rightarrow> str" where
  "from_utf8_lossy s =
     (if s = [] then []
      else
        (let (n, ok) = utf8_len s
         in (if ok then take n s else replacement) @ from_utf8_lossy (drop n s)))"
  by pat_completeness auto
termination
  by (relation "measure length") (use utf8_drop_shorter in auto)

declare from_utf8_lossy.simps [simp del]

text \<open>Well-formed UTF-8.\<close>

function utf8_valid :: "str \<Rightarrow> bool" where
  "utf8_valid s =
     (if s = [] then True
      else let (n, ok) = utf8_len s in ok \<and> utf8_valid (drop n s))"
  by pat_completeness auto
termination
  by (relation "measure length") (use utf8_drop_shorter in auto)

declare utf8_valid.simps [simp del]

section \<open>The reader\<close>

type_synonym 'a reader = "str \<Rightarrow> msg + 'a \<times> str"

definition rd_bind :: "'a reader \<Rightarrow> ('a \<Rightarrow> 'b reader) \<Rightarrow> 'b reader" where
  "rd_bind p f s = and_then (p s) (\<lambda>(x, rest). f x rest)"

definition rd_return :: "'a \<Rightarrow> 'a reader" where
  "rd_return x s = Inr (x, s)"

definition rd_fail :: "msg \<Rightarrow> 'a reader" where
  "rd_fail e s = Inl e"

definition rd_take :: "nat \<Rightarrow> str reader" where
  "rd_take n s =
     (if n \<le> length s then Inr (take n s, drop n s)
      else Inl (Msg ''pgoutput message ends early'' []))"

text \<open>\<open>from_be_bytes\<close>, and the bytes it reads.\<close>

definition of_be_bytes :: "str \<Rightarrow> nat" where
  "of_be_bytes bs = fold (\<lambda>b n. n * 256 + byte b) bs 0"

fun be_bytes :: "nat \<Rightarrow> nat \<Rightarrow> str" where
  "be_bytes 0 n = []"
| "be_bytes (Suc k) n = be_bytes k (n div 256) @ [char_of (n mod 256)]"

definition rd_u8 :: "u8 reader" where
  "rd_u8 = rd_bind (rd_take 1) (\<lambda>bs. rd_return (of_nat (of_be_bytes bs)))"

definition rd_u16 :: "u16 reader" where
  "rd_u16 = rd_bind (rd_take 2) (\<lambda>bs. rd_return (of_nat (of_be_bytes bs)))"

definition rd_u32 :: "u32 reader" where
  "rd_u32 = rd_bind (rd_take 4) (\<lambda>bs. rd_return (of_nat (of_be_bytes bs)))"

text \<open>\<open>i32\<close> and \<open>i64\<close> read the same bytes; their value is \<open>sint\<close> of the word.\<close>

definition rd_u64 :: "u64 reader" where
  "rd_u64 = rd_bind (rd_take 8) (\<lambda>bs. rd_return (of_nat (of_be_bytes bs)))"

definition rd_string :: "str reader" where
  "rd_string s =
     (let text = takeWhile (\<lambda>b. b \<noteq> CHR 0x00) s
      in if length text = length s then Inl (Msg ''pgoutput string is not terminated'' [])
         else Inr (from_utf8_lossy text, drop (length text + 1) s))"

text \<open>A counted loop \<open>for _ in 0..n { push(p()?) }\<close>.\<close>

fun rd_count :: "nat \<Rightarrow> 'a reader \<Rightarrow> 'a list reader" where
  "rd_count 0 p = rd_return []"
| "rd_count (Suc n) p = rd_bind p (\<lambda>x. rd_bind (rd_count n p) (\<lambda>xs. rd_return (x # xs)))"

definition rd_datum :: "datum reader" where
  "rd_datum =
     rd_bind rd_u8 (\<lambda>kind.
       if kind = of_char (CHR ''n'') then rd_return DNull
       else if kind = of_char (CHR ''u'') then rd_return DUnchanged
       else if kind = of_char (CHR ''t'') then
         rd_bind rd_u32 (\<lambda>len.
           if sint len < 0 then rd_fail (Msg ''pgoutput value has a negative length'' [])
           else rd_bind (rd_take (nat (sint len))) (\<lambda>bs. rd_return (DText (from_utf8_lossy bs))))
       else rd_fail (Msg ''pgoutput value kind is not text'' [push_byte_as_char (char_of (unat kind))]))"

definition rd_tuple :: "datum list reader" where
  "rd_tuple = rd_bind rd_u16 (\<lambda>columns. rd_count (unat columns) rd_datum)"

definition rd_column :: "column reader" where
  "rd_column =
     rd_bind rd_u8 (\<lambda>flags. rd_bind rd_string (\<lambda>name. rd_bind rd_u32 (\<lambda>type_oid.
     rd_bind rd_u32 (\<lambda>_.
       rd_return \<lparr>col_name = name, col_type_oid = type_oid, col_key = (and flags 1 = 1)\<rparr>))))"

section \<open>Messages\<close>

definition kind_error :: "str \<Rightarrow> u8 \<Rightarrow> msg" where
  "kind_error what kind = Msg (''pgoutput '' @ what @ '' has tuple'') [push_byte_as_char (char_of (unat kind))]"

definition rd_relation :: "message reader" where
  "rd_relation =
     rd_bind rd_u32 (\<lambda>oid. rd_bind rd_string (\<lambda>schema. rd_bind rd_string (\<lambda>name.
     rd_bind rd_u8 (\<lambda>_. rd_bind rd_u16 (\<lambda>count.
     rd_bind (rd_count (unat count) rd_column) (\<lambda>columns.
       rd_return (Relation oid
         \<lparr>rel_schema = (if schema = [] then ''pg_catalog'' else schema), rel_name = name,
          rel_columns = columns\<rparr>)))))))"

definition rd_insert :: "message reader" where
  "rd_insert =
     rd_bind rd_u32 (\<lambda>oid. rd_bind rd_u8 (\<lambda>kind.
       if kind = of_char (CHR ''N'') then rd_bind rd_tuple (\<lambda>new. rd_return (Insert oid new))
       else rd_fail (kind_error ''insert'' kind)))"

definition rd_update :: "message reader" where
  "rd_update =
     rd_bind rd_u32 (\<lambda>oid. rd_bind rd_u8 (\<lambda>kind0.
     rd_bind
       (if kind0 = of_char (CHR ''K'') \<or> kind0 = of_char (CHR ''O'') then
          rd_bind rd_tuple (\<lambda>old. rd_bind rd_u8 (\<lambda>kind.
            rd_return (Some (old, kind0 = of_char (CHR ''O'')), kind)))
        else rd_return (None, kind0))
       (\<lambda>(old, kind).
          if kind \<noteq> of_char (CHR ''N'') then rd_fail (kind_error ''update'' kind)
          else rd_bind rd_tuple (\<lambda>new. rd_return (Update oid old new)))))"

definition rd_delete :: "message reader" where
  "rd_delete =
     rd_bind rd_u32 (\<lambda>oid. rd_bind rd_u8 (\<lambda>kind.
       if kind = of_char (CHR ''K'') \<or> kind = of_char (CHR ''O'') then
         rd_bind rd_tuple (\<lambda>old. rd_return (Delete oid old (kind = of_char (CHR ''O''))))
       else rd_fail (kind_error ''delete'' kind)))"

definition rd_truncate :: "message reader" where
  "rd_truncate =
     rd_bind rd_u32 (\<lambda>count. rd_bind rd_u8 (\<lambda>options.
     rd_bind (rd_count (unat count) rd_u32) (\<lambda>oids.
       rd_return (Truncate oids (and options 1 = 1) (and options 2 = 2)))))"

definition rd_message :: "message reader" where
  "rd_message =
     rd_bind rd_u8 (\<lambda>tag.
       if tag = of_char (CHR ''B'') then
         rd_bind rd_u64 (\<lambda>lsn. rd_bind rd_u64 (\<lambda>time. rd_bind rd_u32 (\<lambda>xid.
           rd_return (Begin lsn time xid))))
       else if tag = of_char (CHR ''C'') then
         rd_bind rd_u8 (\<lambda>_. rd_bind rd_u64 (\<lambda>_. rd_bind rd_u64 (\<lambda>lsn.
           rd_return (Commit lsn))))
       else if tag = of_char (CHR ''R'') then rd_relation
       else if tag = of_char (CHR ''I'') then rd_insert
       else if tag = of_char (CHR ''U'') then rd_update
       else if tag = of_char (CHR ''D'') then rd_delete
       else if tag = of_char (CHR ''T'') then rd_truncate
       else rd_return Other)"

definition decode :: "str \<Rightarrow> msg + message" where
  "decode bytes = and_then (rd_message bytes) (\<lambda>(m, _). Inr m)"

section \<open>Values and rows\<close>

text \<open>\<open>serde_json::from_str\<close> is \<open>serde_json\<close>'s: the argument \<open>from_str\<close>.\<close>

definition value_of :: "(str \<Rightarrow> json option) \<Rightarrow> u32 \<Rightarrow> str \<Rightarrow> json" where
  "value_of from_str type_oid text =
     (if type_oid = 16 then JBool (text = ''t'')
      else if type_oid \<in> {20, 21, 23, 26} then
        (case parse_i64 text of None \<Rightarrow> JStr text | Some n \<Rightarrow> json_of_int n)
      else if type_oid \<in> {700, 701} then
        (case parse_f64_lit text of
           Some l \<Rightarrow> if lit_is_finite l then JNum (FloatBits (lit_bits l)) else JStr text
         | None \<Rightarrow> JStr text)
      else if type_oid \<in> {114, 3802} then
        (case from_str text of None \<Rightarrow> JStr text | Some v \<Rightarrow> v)
      else JStr text)"

fun row_step ::
    "(str \<Rightarrow> json option) \<Rightarrow> bool \<Rightarrow> column \<times> datum \<Rightarrow> json omap \<times> str list \<Rightarrow> json omap \<times> str list" where
  "row_step from_str keys_only (column, datum) (row, unchanged) =
     (if keys_only \<and> \<not> col_key column then (row, unchanged)
      else
        (case datum of
           DNull \<Rightarrow> (omap_insert (col_name column) JNull row, unchanged)
         | DUnchanged \<Rightarrow> (row, unchanged @ [col_name column])
         | DText text \<Rightarrow>
             (omap_insert (col_name column) (value_of from_str (col_type_oid column) text) row, unchanged)))"

definition row_of :: "(str \<Rightarrow> json option) \<Rightarrow> relation \<Rightarrow> datum list \<Rightarrow> bool \<Rightarrow> json omap \<times> str list" where
  "row_of from_str relation datums keys_only =
     fold (row_step from_str keys_only) (zip (rel_columns relation) datums) ([], [])"

section \<open>Log sequence numbers\<close>

definition lsn_text :: "u64 \<Rightarrow> str" where
  "lsn_text lsn =
     show_radix 16 (unat (drop_bit 32 lsn)) @ ''/'' @ show_radix 16 (unat (and lsn 0xFFFFFFFF))"

definition parse_lsn :: "str \<Rightarrow> u64 option" where
  "parse_lsn text =
     (case split_once (CHR ''/'') text of
        None \<Rightarrow> None
      | Some (high, low) \<Rightarrow>
          (case (parse_u64 16 high, parse_u64 16 low) of
             (Some h, Some l) \<Rightarrow> Some (or (push_bit 32 h) l)
           | _ \<Rightarrow> None))"

text \<open>
  \<open>commit_time\<close>: \<open>at_millis\<close> is the protocol crate's \<open>occurred_at_from_millis\<close>; the sum wraps at 64
  bits and the division truncates.
\<close>

definition commit_time :: "(int \<Rightarrow> str option) \<Rightarrow> u64 \<Rightarrow> str option" where
  "commit_time at_millis micros =
     (let t = sint (micros + 946684800000000) in at_millis (sgn t * (\<bar>t\<bar> div 1000)))"

section \<open>The wire format\<close>

text \<open>What the server sends for a value, after the protocol's message formats.\<close>

definition enc_u8 :: "u8 \<Rightarrow> str" where "enc_u8 w = be_bytes 1 (unat w)"
definition enc_u16 :: "u16 \<Rightarrow> str" where "enc_u16 w = be_bytes 2 (unat w)"
definition enc_u32 :: "u32 \<Rightarrow> str" where "enc_u32 w = be_bytes 4 (unat w)"
definition enc_u64 :: "u64 \<Rightarrow> str" where "enc_u64 w = be_bytes 8 (unat w)"

definition enc_string :: "str \<Rightarrow> str" where "enc_string s = s @ [CHR 0x00]"

definition string_ok :: "str \<Rightarrow> bool" where
  "string_ok s \<longleftrightarrow> CHR 0x00 \<notin> set s \<and> utf8_valid s"

definition enc_datum :: "datum \<Rightarrow> str" where
  "enc_datum d =
     (case d of
        DNull \<Rightarrow> ''n''
      | DUnchanged \<Rightarrow> ''u''
      | DText t \<Rightarrow> ''t'' @ enc_u32 (of_nat (length t)) @ t)"

definition datum_ok :: "datum \<Rightarrow> bool" where
  "datum_ok d = (case d of DText t \<Rightarrow> utf8_valid t \<and> length t < 2 ^ 31 | _ \<Rightarrow> True)"

definition enc_tuple :: "datum list \<Rightarrow> str" where
  "enc_tuple ds = enc_u16 (of_nat (length ds)) @ concat (map enc_datum ds)"

definition tuple_ok :: "datum list \<Rightarrow> bool" where
  "tuple_ok ds \<longleftrightarrow> length ds < 2 ^ 16 \<and> (\<forall>d \<in> set ds. datum_ok d)"

text \<open>
  A message as the server sends it, with the fields the decoder skips: the flags, the commit position
  and the time of a commit, the replica identity of a relation, the flags and the type modifier of a
  column, the options of a truncation; and the messages the decoder has no use for, the origin of a
  transaction, the name of a type and a logical message.
\<close>

record wire_column =
  wc_flags :: u8
  wc_name :: str
  wc_type_oid :: u32
  wc_modifier :: u32

datatype wire_message =
    WBegin u64 u64 u32
  | WCommit u8 u64 u64 u64
  | WOrigin u64 str
  | WRelation u32 str str u8 "wire_column list"
  | WType u32 str str
  | WInsert u32 "datum list"
  | WUpdate u32 "(datum list \<times> bool) option" "datum list"
  | WDelete u32 "datum list" bool
  | WTruncate "u32 list" u8
  | WMessage u8 u64 str str

definition enc_column :: "wire_column \<Rightarrow> str" where
  "enc_column c = enc_u8 (wc_flags c) @ enc_string (wc_name c) @ enc_u32 (wc_type_oid c) @ enc_u32 (wc_modifier c)"

definition enc_message :: "wire_message \<Rightarrow> str" where
  "enc_message m =
     (case m of
        WBegin lsn time xid \<Rightarrow> ''B'' @ enc_u64 lsn @ enc_u64 time @ enc_u32 xid
      | WCommit flags commit_lsn end_lsn time \<Rightarrow> ''C'' @ enc_u8 flags @ enc_u64 commit_lsn @ enc_u64 end_lsn @ enc_u64 time
      | WOrigin lsn name \<Rightarrow> ''O'' @ enc_u64 lsn @ enc_string name
      | WRelation oid schema name identity columns \<Rightarrow>
          ''R'' @ enc_u32 oid @ enc_string schema @ enc_string name @ enc_u8 identity @
          enc_u16 (of_nat (length columns)) @ concat (map enc_column columns)
      | WType oid schema name \<Rightarrow> ''Y'' @ enc_u32 oid @ enc_string schema @ enc_string name
      | WInsert oid new \<Rightarrow> ''I'' @ enc_u32 oid @ ''N'' @ enc_tuple new
      | WUpdate oid old new \<Rightarrow>
          ''U'' @ enc_u32 oid @
          (case old of None \<Rightarrow> [] | Some (t, full) \<Rightarrow> (if full then ''O'' else ''K'') @ enc_tuple t) @
          ''N'' @ enc_tuple new
      | WDelete oid old full \<Rightarrow> ''D'' @ enc_u32 oid @ (if full then ''O'' else ''K'') @ enc_tuple old
      | WTruncate oids options \<Rightarrow> ''T'' @ enc_u32 (of_nat (length oids)) @ enc_u8 options @ concat (map enc_u32 oids)
      | WMessage flags lsn prefix_text content \<Rightarrow>
          ''M'' @ enc_u8 flags @ enc_u64 lsn @ enc_string prefix_text @ enc_u32 (of_nat (length content)) @ content)"

text \<open>What the server can put into one: text without a null byte, in UTF-8, and counts that fit their field.\<close>

definition message_ok :: "wire_message \<Rightarrow> bool" where
  "message_ok m =
     (case m of
        WRelation _ schema name _ columns \<Rightarrow>
          string_ok schema \<and> string_ok name \<and> length columns < 2 ^ 16 \<and> (\<forall>c \<in> set columns. string_ok (wc_name c))
      | WInsert _ new \<Rightarrow> tuple_ok new
      | WUpdate _ old new \<Rightarrow> (\<forall>t full. old = Some (t, full) \<longrightarrow> tuple_ok t) \<and> tuple_ok new
      | WDelete _ old _ \<Rightarrow> tuple_ok old
      | WTruncate oids _ \<Rightarrow> length oids < 2 ^ 32
      | _ \<Rightarrow> True)"

text \<open>What it means to the plugin: the key flag is bit 0, an empty schema is \<open>pg_catalog\<close>, the position of a commit its end.\<close>

definition column_meant :: "wire_column \<Rightarrow> column" where
  "column_meant c = \<lparr>col_name = wc_name c, col_type_oid = wc_type_oid c, col_key = bit (wc_flags c) 0\<rparr>"

definition message_meant :: "wire_message \<Rightarrow> message" where
  "message_meant m =
     (case m of
        WBegin lsn time xid \<Rightarrow> Begin lsn time xid
      | WCommit _ _ end_lsn _ \<Rightarrow> Commit end_lsn
      | WRelation oid schema name _ columns \<Rightarrow>
          Relation oid \<lparr>rel_schema = (if schema = [] then ''pg_catalog'' else schema), rel_name = name,
            rel_columns = map column_meant columns\<rparr>
      | WInsert oid new \<Rightarrow> Insert oid new
      | WUpdate oid old new \<Rightarrow> Update oid old new
      | WDelete oid old full \<Rightarrow> Delete oid old full
      | WTruncate oids options \<Rightarrow> Truncate oids (bit options 0) (bit options 1)
      | _ \<Rightarrow> Other)"

section \<open>Codecs\<close>

text \<open>A reader that reads what an encoder wrote as what it means, whatever follows.\<close>

locale wire_codec =
  fixes ok :: "'w \<Rightarrow> bool" and enc :: "'w \<Rightarrow> str" and meant :: "'w \<Rightarrow> 'a" and dec :: "'a reader"
  assumes dec_enc: "ok x \<Longrightarrow> dec (enc x @ rest) = Inr (meant x, rest)"
begin

lemma bind_enc: "ok x \<Longrightarrow> rd_bind dec f (enc x @ rest) = f (meant x) rest"
  by (simp add: rd_bind_def dec_enc)

lemma count_enc:
  "\<forall>x \<in> set xs. ok x \<Longrightarrow> rd_count (length xs) dec (concat (map enc xs) @ rest) = Inr (map meant xs, rest)"
proof (induction xs)
  case (Cons x xs)
  then show ?case by (simp add: bind_enc) (simp add: rd_bind_def rd_return_def)
qed (simp add: rd_return_def)

end

text \<open>A counted sequence of a codec's values is a codec.\<close>

lemma rd_take_append [simp]: "rd_take (length a) (a @ s) = Inr (a, s)"
  by (simp add: rd_take_def)

lemma length_be_bytes [simp]: "length (be_bytes k n) = k"
  by (induction k arbitrary: n) auto

lemma of_be_bytes_append: "of_be_bytes (a @ [b]) = of_be_bytes a * 256 + byte b"
  by (simp add: of_be_bytes_def)

lemma of_be_be_bytes: "of_be_bytes (be_bytes k n) = n mod 256 ^ k"
proof (induction k arbitrary: n)
  case 0
  then show ?case by (simp add: of_be_bytes_def)
next
  case (Suc k)
  have "n mod 256 ^ Suc k = (n div 256 mod 256 ^ k) * 256 + n mod 256"
    by (metis add.commute mod_mult2_eq mult.commute power_Suc)
  with Suc show ?case by (simp add: of_be_bytes_append)
qed

lemma rd_be_bytes:
  "rd_bind (rd_take k) (\<lambda>bs. rd_return (of_nat (of_be_bytes bs))) (be_bytes k n @ rest) =
     Inr (of_nat (n mod 256 ^ k), rest)"
  using rd_take_append [of "be_bytes k n" rest]
  by (simp add: rd_bind_def rd_return_def of_be_be_bytes)

interpretation c8: wire_codec "\<lambda>_. True" enc_u8 "\<lambda>x. x" rd_u8
proof
  fix x rest
  have "unat (x :: u8) < 256" using unsigned_less [where 'a = nat, of x] by simp
  then show "rd_u8 (enc_u8 x @ rest) = Inr (x, rest)"
    unfolding rd_u8_def enc_u8_def rd_be_bytes by simp
qed

interpretation c16: wire_codec "\<lambda>_. True" enc_u16 "\<lambda>x. x" rd_u16
proof
  fix x rest
  have "unat (x :: u16) < 256 ^ 2" using unsigned_less [where 'a = nat, of x] by simp
  then show "rd_u16 (enc_u16 x @ rest) = Inr (x, rest)"
    unfolding rd_u16_def enc_u16_def rd_be_bytes by simp
qed

interpretation c32: wire_codec "\<lambda>_. True" enc_u32 "\<lambda>x. x" rd_u32
proof
  fix x rest
  have "unat (x :: u32) < 256 ^ 4" using unsigned_less [where 'a = nat, of x] by simp
  then show "rd_u32 (enc_u32 x @ rest) = Inr (x, rest)"
    unfolding rd_u32_def enc_u32_def rd_be_bytes by simp
qed

interpretation c64: wire_codec "\<lambda>_. True" enc_u64 "\<lambda>x. x" rd_u64
proof
  fix x rest
  have "unat (x :: u64) < 256 ^ 8" using unsigned_less [where 'a = nat, of x] by simp
  then show "rd_u64 (enc_u64 x @ rest) = Inr (x, rest)"
    unfolding rd_u64_def enc_u64_def rd_be_bytes by simp
qed

lemma from_utf8_lossy_valid: "utf8_valid s \<Longrightarrow> from_utf8_lossy s = s"
proof (induction s rule: utf8_valid.induct)
  case (1 s)
  show ?case
  proof (cases "s = []")
    case True
    then show ?thesis by (simp add: from_utf8_lossy.simps)
  next
    case False
    obtain n ok where u: "utf8_len s = (n, ok)" by fastforce
    with False "1.prems" have v: "ok" "utf8_valid (drop n s)" by (simp_all add: utf8_valid.simps [of s])
    with "1.IH" False u have "from_utf8_lossy (drop n s) = drop n s" by auto
    with False u v show ?thesis by (subst from_utf8_lossy.simps) simp
  qed
qed

interpretation cstr: wire_codec string_ok enc_string "\<lambda>x. x" rd_string
proof
  fix x rest
  assume "string_ok x"
  then have "takeWhile (\<lambda>b. b \<noteq> CHR 0x00) (enc_string x @ rest) = x" "from_utf8_lossy x = x"
    by (auto simp: string_ok_def enc_string_def takeWhile_append from_utf8_lossy_valid)
  then show "rd_string (enc_string x @ rest) = Inr (x, rest)"
    by (simp add: rd_string_def enc_string_def Let_def)
qed

text \<open>A tag byte.\<close>

lemma rd_u8_Cons [simp]: "rd_bind rd_u8 f (c # rest) = f (of_char c) rest"
proof -
  have "rd_u8 (c # rest) = Inr (of_char c, rest)"
    by (simp add: rd_u8_def rd_bind_def rd_take_def rd_return_def of_be_bytes_def of_nat_of_char)
  then show ?thesis by (simp add: rd_bind_def)
qed

interpretation cdatum: wire_codec datum_ok enc_datum "\<lambda>x. x" rd_datum
proof
  fix x rest
  assume x: "datum_ok x"
  show "rd_datum (enc_datum x @ rest) = Inr (x, rest)"
  proof (cases x)
    case (DText t)
    have "int (length t) < 2 ^ 31" using x DText by (simp add: datum_ok_def)
    then have "sint (word_of_nat (length t) :: u32) = int (length t)"
      by (simp add: signed_of_nat signed_take_bit_int_eq_self)
    with x DText show ?thesis
      by (simp add: rd_datum_def enc_datum_def c32.bind_enc datum_ok_def of_char_u8_eq)
        (simp add: rd_bind_def rd_return_def from_utf8_lossy_valid)
  qed (simp_all add: rd_datum_def enc_datum_def rd_return_def of_char_u8_eq)
qed

lemma tuple_count:
  "length xs < 2 ^ 16 \<Longrightarrow> unat (word_of_nat (length xs) :: u16) = length xs"
  by (simp add: unat_of_nat)

interpretation ctuple: wire_codec tuple_ok enc_tuple "\<lambda>x. x" rd_tuple
proof
  fix ds rest
  assume "tuple_ok ds"
  then show "rd_tuple (enc_tuple ds @ rest) = Inr (ds, rest)"
    by (simp add: tuple_ok_def rd_tuple_def enc_tuple_def c16.bind_enc tuple_count cdatum.count_enc)
qed

lemma and_bit_u8: "and (w :: u8) 1 = 1 \<longleftrightarrow> bit w 0" "and (w :: u8) 2 = 2 \<longleftrightarrow> bit w 1"
proof -
  have two: "bit (2 :: u8) n \<longleftrightarrow> n = 1" for n
    using bit_exp_iff [where 'a = "8 word", of 1 n] by (cases "n < 8") auto
  show "and w 1 = 1 \<longleftrightarrow> bit w 0" by (simp add: and_one_eq bit_0 odd_iff_mod_2_eq_one)
  show "and w 2 = 2 \<longleftrightarrow> bit w 1"
  proof
    assume "and w 2 = 2"
    then have "bit (and w 2) 1" by (simp only: two)
    then show "bit w 1" by (simp only: bit_and_iff)
  next
    assume "bit w 1"
    then show "and w 2 = 2" by (intro bit_word_eqI) (auto simp only: bit_and_iff two)
  qed
qed

interpretation ccolumn: wire_codec "\<lambda>c. string_ok (wc_name c)" enc_column column_meant rd_column
proof
  fix c :: wire_column and rest
  assume "string_ok (wc_name c)"
  then show "rd_column (enc_column c @ rest) = Inr (column_meant c, rest)"
    by (simp add: rd_column_def enc_column_def column_meant_def c8.bind_enc cstr.bind_enc c32.bind_enc rd_return_def and_bit_u8)
qed

lemmas wire_simps = c8.bind_enc c16.bind_enc c32.bind_enc c64.bind_enc cstr.bind_enc
  ctuple.bind_enc of_char_u8_eq rd_return_def

lemma rd_bind_assoc: "rd_bind (rd_bind p f) g = rd_bind p (\<lambda>x. rd_bind (f x) g)"
  by (rule ext) (auto simp: rd_bind_def and_then_def split: sum.splits)

lemma rd_bind_return: "rd_bind (rd_return x) f = f x"
  by (rule ext) (simp add: rd_bind_def rd_return_def)

lemma rd_bind_count:
  "p s = Inr (xs, rest) \<Longrightarrow> rd_bind p f s = f xs rest"
  by (simp add: rd_bind_def)

text \<open>The bytes of a message the decoder leaves unread: what follows what it needs.\<close>

definition unread :: "wire_message \<Rightarrow> str" where
  "unread m =
     (case m of
        WCommit _ _ _ time \<Rightarrow> enc_u64 time
      | WOrigin _ _ \<Rightarrow> tl (enc_message m)
      | WType _ _ _ \<Rightarrow> tl (enc_message m)
      | WMessage _ _ _ _ \<Rightarrow> tl (enc_message m)
      | _ \<Rightarrow> [])"

lemma read_relation:
  assumes "message_ok (WRelation oid schema name identity columns)"
  shows "rd_message (enc_message (WRelation oid schema name identity columns) @ rest) =
    Inr (message_meant (WRelation oid schema name identity columns), rest)"
proof -
  have "rd_bind (rd_count (length columns) rd_column) f (concat (map enc_column columns) @ rest) = f (map column_meant columns) rest"
    for f :: "_ \<Rightarrow> message reader"
    using assms by (intro rd_bind_count ccolumn.count_enc) (simp add: message_ok_def)
  then show ?thesis
    using assms by (simp add: rd_message_def enc_message_def message_meant_def rd_relation_def message_ok_def wire_simps tuple_count)
qed

lemma read_truncate:
  assumes "message_ok (WTruncate oids options)"
  shows "rd_message (enc_message (WTruncate oids options) @ rest) = Inr (message_meant (WTruncate oids options), rest)"
proof -
  have "rd_bind (rd_count (length oids) rd_u32) f (concat (map enc_u32 oids) @ rest) = f (map (\<lambda>x. x) oids) rest"
    for f :: "_ \<Rightarrow> message reader"
    by (intro rd_bind_count c32.count_enc) simp
  moreover have "unat (word_of_nat (length oids) :: u32) = length oids"
    using assms by (simp add: message_ok_def unat_of_nat)
  ultimately show ?thesis
    by (simp add: rd_message_def enc_message_def message_meant_def rd_truncate_def wire_simps and_bit_u8)
qed

lemma read_update:
  assumes "message_ok (WUpdate oid old new)"
  shows "rd_message (enc_message (WUpdate oid old new) @ rest) = Inr (message_meant (WUpdate oid old new), rest)"
  using assms
  by (cases old)
    (auto simp: rd_message_def enc_message_def message_meant_def message_ok_def rd_update_def c32.bind_enc
      ctuple.bind_enc of_char_u8_eq rd_bind_assoc rd_bind_return rd_return_def)

lemma read_message:
  assumes "message_ok m"
  shows "rd_message (enc_message m @ rest) = Inr (message_meant m, unread m @ rest)"
proof (cases m)
  case (WInsert oid new)
  then show ?thesis using assms
    by (simp add: rd_message_def enc_message_def message_meant_def unread_def message_ok_def rd_insert_def wire_simps)
next
  case (WDelete oid old full)
  then show ?thesis using assms
    by (simp add: rd_message_def enc_message_def message_meant_def unread_def message_ok_def rd_delete_def wire_simps)
next
  case (WRelation oid schema name identity columns)
  then show ?thesis using assms read_relation by (simp add: unread_def)
next
  case (WTruncate oids options)
  then show ?thesis using assms read_truncate by (simp add: unread_def)
next
  case (WUpdate oid old new)
  then show ?thesis using assms read_update by (simp add: unread_def)
qed (simp_all add: rd_message_def enc_message_def message_meant_def unread_def wire_simps)

lemma or_push_drop: "or (push_bit 32 (drop_bit 32 l)) (and l 0xFFFFFFFF) = (l :: u64)"
proof -
  have "(0xFFFFFFFF :: u64) = mask 32" by (simp add: mask_eq_exp_minus_1)
  then show ?thesis
    by (auto simp: bit_eq_iff bit_or_iff bit_and_iff bit_push_bit_iff bit_drop_bit_eq bit_mask_iff)
qed

section \<open>Properties\<close>

text \<open>
  C20. Every message of the \<open>pgoutput\<close> protocol, version 1, with values in text format and text in UTF-8,
  decodes to what it means, whatever bytes follow it: each field is read from where the server puts it, with
  the fields the plugin does not use skipped at their width (a commit has its commit position in front
  of its end position and its time behind it), any replica identity, flags, type modifier and options,
  the empty schema as \<open>pg_catalog\<close>; origin, type and logical messages are \<open>Other\<close>, whatever they hold.
\<close>

theorem decode_encode_message:
  assumes "message_ok m"
  shows "decode (enc_message m @ rest) =
    Inr (case m of
        WBegin lsn time xid \<Rightarrow> Begin lsn time xid
      | WCommit flags commit_lsn end_lsn time \<Rightarrow> Commit end_lsn
      | WRelation oid schema name identity columns \<Rightarrow>
          Relation oid \<lparr>rel_schema = (if schema = [] then ''pg_catalog'' else schema), rel_name = name,
            rel_columns = map (\<lambda>c. \<lparr>col_name = wc_name c, col_type_oid = wc_type_oid c, col_key = bit (wc_flags c) 0\<rparr>) columns\<rparr>
      | WInsert oid new \<Rightarrow> Insert oid new
      | WUpdate oid old new \<Rightarrow> Update oid old new
      | WDelete oid old full \<Rightarrow> Delete oid old full
      | WTruncate oids options \<Rightarrow> Truncate oids (bit options 0) (bit options 1)
      | WOrigin _ _ \<Rightarrow> Other | WType _ _ _ \<Rightarrow> Other | WMessage _ _ _ _ \<Rightarrow> Other)"
  using read_message [OF assms, of rest]
  by (simp add: decode_def message_meant_def column_meant_def [abs_def] split: wire_message.split)

theorem decode_encode_message_witness:
  "decode (enc_message (WUpdate 16384 (Some ([DText ''7'', DNull], False)) [DText ''8'', DUnchanged]) @ ''!'') =
     Inr (Update 16384 (Some ([DText ''7'', DNull], False)) [DText ''8'', DUnchanged])"
  by (subst decode_encode_message)
    (simp_all add: message_ok_def tuple_ok_def datum_ok_def utf8_valid.simps char_width_def)

text \<open>
  A log sequence number survives its text form, so the position an advance sends is the one the
  peek reported.
\<close>

theorem lsn_text_roundtrip: "parse_lsn (lsn_text lsn) = Some lsn"
proof -
  have slash: "CHR ''/'' \<notin> set (show_radix 16 n)" for n
  proof
    assume "CHR ''/'' \<in> set (show_radix 16 n)"
    then obtain d where "d < 16" "CHR ''/'' = digit_char d" using show_radix_chars [of 16] by auto
    then have "byte (CHR ''/'') = byte (digit_char d)" by simp
    with \<open>d < 16\<close> show False by (simp add: of_char_digit_char split: if_splits)
  qed
  have p: "parse_u64 16 (show_radix 16 (unat w)) = Some w" for w :: u64
    using unsigned_less [where 'a = nat, of w] by (simp add: parse_u64_def)
  show ?thesis
    by (simp add: parse_lsn_def lsn_text_def split_once_append [OF slash] p or_push_drop)
qed

end
