(* ===== verification/Cdc.thy ===== *)
theory Cdc
  imports PgOutput
begin

text \<open>
  \<open>src/watch_pg_cdc.rs\<close>: the PostgreSQL change-data-capture watch.  Its state between calls is
  \<open>progress\<close>; a peek reads the slot again from its confirmed position, delivers what is new, and
  records the transactions it saw; acknowledgements and releases come from the gateway; a settle
  advances the slot past the leading transactions whose changes are all acknowledged.  What the
  database answers is an argument.  The second half puts the watch beside a log of committed
  transactions and a slot position and shows that the position never passes a change that was not
  acknowledged.
\<close>

section \<open>Specification\<close>

record cdc_spec =
  cdc_url :: str
  cdc_publication :: str
  cdc_tables :: "str list"
  cdc_slot_opt :: "str option"
  cdc_poll_interval_ms :: u64
  cdc_max_in_flight :: u64
  cdc_ack_timeout_ms :: u64

text \<open>\<open>hash_hex\<close> is the hexadecimal BLAKE3 digest.\<close>

definition derived_slot :: "(str \<Rightarrow> str) \<Rightarrow> str \<Rightarrow> str" where
  "derived_slot hash_hex resource_uri = ''mcpg_'' @ take 16 (hash_hex resource_uri)"

definition valid_slot :: "str \<Rightarrow> bool" where
  "valid_slot name \<longleftrightarrow>
     name \<noteq> [] \<and> length name \<le> 63 \<and>
     (\<forall>c \<in> set name. is_ascii_lowercase c \<or> is_ascii_digit c \<or> c = CHR ''_'')"

definition quoted :: "str \<Rightarrow> str" where
  "quoted identifier =
     CHR 0x22 # concat (map (\<lambda>c. if c = CHR 0x22 then [CHR 0x22, CHR 0x22] else [c]) identifier) @ [CHR 0x22]"

definition quoted_table :: "str \<Rightarrow> str" where
  "quoted_table name = join ''.'' (map quoted (split_on (CHR ''.'') name))"

text \<open>
  The checks of \<open>watch\<close> on its decoded spec: the slot it will use.  \<open>options_validate\<close> is the check of
  the queue options (\<open>max_in_flight\<close>, \<open>ack_timeout\<close>, \<open>receive_wait\<close>), which the protocol crate has.
\<close>

definition cdc_validate ::
    "(str \<Rightarrow> str) \<Rightarrow> (u64 \<Rightarrow> u64 \<Rightarrow> u64 \<Rightarrow> msg + unit) \<Rightarrow> str \<Rightarrow> cdc_spec \<Rightarrow> msg + str" where
  "cdc_validate hash_hex options_validate resource_uri spec =
     and_then
       (reject_if (\<not> prefix ''postgres://'' (cdc_url spec) \<and> \<not> prefix ''postgresql://'' (cdc_url spec))
          (Msg ''url must start with postgres:// or postgresql://'' [])) (\<lambda>_.
     and_then
       (reject_if (sublist ''cred://'' (cdc_url spec)) (Msg ''url must not contain cred://'' [])) (\<lambda>_.
     and_then
       (reject_if (is_blank (cdc_publication spec)) (Msg ''publication must not be empty'' [])) (\<lambda>_.
     let slot = (case cdc_slot_opt spec of Some s \<Rightarrow> s | None \<Rightarrow> derived_slot hash_hex resource_uri)
     in and_then
          (reject_if (\<not> valid_slot slot)
             (Msg ''slot must be 1 to 63 lower-case letters, digits or _'' [])) (\<lambda>_.
        and_then
          (reject_if (cdc_poll_interval_ms spec < 100 \<or> cdc_poll_interval_ms spec > 20000)
             (Msg ''poll_interval_ms must be 100 to 20000'' [])) (\<lambda>_.
        and_then
          (options_validate (cdc_max_in_flight spec) (cdc_ack_timeout_ms spec) (cdc_poll_interval_ms spec)) (\<lambda>_.
        Inr slot))))))"

section \<open>State\<close>

record transaction =
  tx_changes :: "u64 set"
  tx_complete :: bool
  tx_acked :: "u64 set"

definition default_transaction :: transaction where
  "default_transaction = \<lparr>tx_changes = {}, tx_complete = False, tx_acked = {}\<rparr>"

text \<open>\<open>transactions\<close> is a \<open>BTreeMap\<close>: its entries in increasing order of the end LSN.\<close>

record progress =
  delivered :: "u64 set"
  transactions :: "(u64 \<times> transaction) list"
  owner :: "u64 \<rightharpoonup> u64"
  consumed :: u64

definition default_progress :: progress where
  "default_progress = \<lparr>delivered = {}, transactions = [], owner = Map.empty, consumed = 0\<rparr>"

text \<open>\<open>entry(key).or_default()\<close> followed by an update.\<close>

fun tx_upsert :: "u64 \<Rightarrow> (transaction \<Rightarrow> transaction) \<Rightarrow> (u64 \<times> transaction) list \<Rightarrow> (u64 \<times> transaction) list" where
  "tx_upsert k f [] = [(k, f default_transaction)]"
| "tx_upsert k f ((k', tx) # txs) =
     (if k = k' then (k, f tx) # txs
      else if k < k' then (k, f default_transaction) # (k', tx) # txs
      else (k', tx) # tx_upsert k f txs)"

text \<open>\<open>get_mut(key)\<close> followed by an update.\<close>

definition tx_modify :: "u64 \<Rightarrow> (transaction \<Rightarrow> transaction) \<Rightarrow> (u64 \<times> transaction) list \<Rightarrow> (u64 \<times> transaction) list" where
  "tx_modify k f txs = map (\<lambda>(k', tx). (k', if k' = k then f tx else tx)) txs"

function advance_from :: "u64 option \<Rightarrow> progress \<Rightarrow> progress \<times> u64 option" where
  "advance_from to p =
     (case transactions p of
        [] \<Rightarrow> (p, to)
      | (e, tx) # rest \<Rightarrow>
          if \<not> tx_complete tx \<or> card (tx_acked tx) < card (tx_changes tx) then (p, to)
          else
            advance_from (Some e)
              (p\<lparr>owner := (\<lambda>l. if l \<in> tx_changes tx then None else owner p l),
                 delivered := delivered p - tx_changes tx,
                 transactions := rest,
                 consumed := max (consumed p) e\<rparr>))"
  by pat_completeness auto
termination
  by (relation "measure (\<lambda>(to, p). length (transactions p))") auto

declare advance_from.simps [simp del]

definition advance :: "progress \<Rightarrow> progress \<times> u64 option" where
  "advance p = advance_from None p"

section \<open>Events\<close>

record watch_event =
  ev_event_id :: "str option"
  ev_event_type :: "str option"
  ev_occurred_at :: "str option"
  ev_data :: "json option"
  ev_upstream_cursor :: "json option"
  ev_gap :: bool

record delivery =
  dl_event :: watch_event
  dl_receipt :: json

definition default_event :: watch_event where
  "default_event =
     \<lparr>ev_event_id = None, ev_event_type = None, ev_occurred_at = None, ev_data = None,
      ev_upstream_cursor = None, ev_gap = False\<rparr>"

text \<open>
  The libraries a peek calls: \<open>serde_json::from_str\<close> and the protocol crate's time stamp.
\<close>

record cdc_env =
  ce_from_str :: "str \<Rightarrow> json option"
  ce_at_millis :: "int \<Rightarrow> str option"

definition relation_for :: "(u32 \<rightharpoonup> relation) \<Rightarrow> u32 \<Rightarrow> msg + relation" where
  "relation_for relations oid =
     ok_or (relations oid) (Msg ''pgoutput change of relation before its Relation'' [show_nat (unat oid)])"

text \<open>The members every event of the change carries.\<close>

definition base_members :: "cdc_env \<Rightarrow> u64 \<Rightarrow> (u32 \<times> u64) option \<Rightarrow> (str \<times> json) list" where
  "base_members env lsn begin =
     [(''lsn'', JStr (lsn_text lsn))] @
     (case begin of
        None \<Rightarrow> []
      | Some (xid, micros) \<Rightarrow>
          [(''xid'', json_of_u64 (ucast xid))] @
          (case commit_time (ce_at_millis env) micros of
             None \<Rightarrow> []
           | Some at \<Rightarrow> [(''commitTime'', JStr at)]))"

definition change_event ::
    "cdc_env \<Rightarrow> u64 \<Rightarrow> (u32 \<times> u64) option \<Rightarrow> str \<Rightarrow> str \<Rightarrow> (str \<times> json) list \<Rightarrow> watch_event" where
  "change_event env lsn begin event_type event_id data =
     default_event\<lparr>
       ev_event_id := Some event_id, ev_event_type := Some event_type,
       ev_occurred_at := Option.bind begin (\<lambda>(_, micros). commit_time (ce_at_millis env) micros),
       ev_data := Some (json_obj (base_members env lsn begin @ data)),
       ev_upstream_cursor := Some (json_obj [(''v'', json_of_u64 1), (''lsn'', JStr (lsn_text lsn))])\<rparr>"

definition row_change_event ::
    "cdc_env \<Rightarrow> str \<Rightarrow> u64 \<Rightarrow> (u32 \<times> u64) option \<Rightarrow> str \<Rightarrow> relation \<Rightarrow> json omap \<Rightarrow> json omap option \<Rightarrow>
     str list \<Rightarrow> watch_event" where
  "row_change_event env slot lsn begin op relation row old unchanged =
     change_event env lsn begin ''sql.row.changed'' (slot @ ''/'' @ lsn_text lsn)
       ([(''op'', JStr op), (''schema'', JStr (rel_schema relation)), (''table'', JStr (rel_name relation)),
         (''row'', JObj row)] @
        (case old of None \<Rightarrow> [] | Some o' \<Rightarrow> [(''old'', JObj o')]) @
        (if unchanged = [] then [] else [(''unchanged'', JArr (map JStr unchanged))]))"

definition change_events ::
    "cdc_env \<Rightarrow> str \<Rightarrow> u64 \<Rightarrow> (u32 \<times> u64) option \<Rightarrow> (u32 \<rightharpoonup> relation) \<Rightarrow> message \<Rightarrow>
     msg + watch_event list" where
  "change_events env slot lsn begin relations change =
     (case change of
        Insert oid new \<Rightarrow>
          and_then (relation_for relations oid) (\<lambda>relation.
            let (row, unchanged) = row_of (ce_from_str env) relation new False
            in Inr [row_change_event env slot lsn begin ''insert'' relation row None unchanged])
      | Update oid old new \<Rightarrow>
          and_then (relation_for relations oid) (\<lambda>relation.
            let (row, unchanged) = row_of (ce_from_str env) relation new False;
                old_row = map_option (\<lambda>(o', full). fst (row_of (ce_from_str env) relation o' (\<not> full))) old
            in Inr [row_change_event env slot lsn begin ''update'' relation row old_row unchanged])
      | Delete oid old full \<Rightarrow>
          and_then (relation_for relations oid) (\<lambda>relation.
            Inr [row_change_event env slot lsn begin ''delete'' relation
                   (fst (row_of (ce_from_str env) relation old (\<not> full))) None []])
      | Truncate oids cascade restart_identity \<Rightarrow>
          try_map
            (\<lambda>oid. and_then (relation_for relations oid) (\<lambda>relation.
               Inr (change_event env lsn begin ''sql.table.truncated''
                      (slot @ ''/'' @ lsn_text lsn @ ''/'' @ show_nat (unat oid))
                      [(''schema'', JStr (rel_schema relation)), (''table'', JStr (rel_name relation)),
                       (''cascade'', JBool cascade), (''restartIdentity'', JBool restart_identity)])))
            oids
      | _ \<Rightarrow> Inr [])"

section \<open>Peeking\<close>

definition is_change :: "message \<Rightarrow> bool" where
  "is_change m =
     (case m of Begin _ _ _ \<Rightarrow> False | Commit _ \<Rightarrow> False | Relation _ _ \<Rightarrow> False | Other \<Rightarrow> False | _ \<Rightarrow> True)"

definition new_changes :: "progress \<Rightarrow> (u64 \<times> message) list \<Rightarrow> nat" where
  "new_changes p messages =
     length (filter (\<lambda>(lsn, m). is_change m \<and> consumed p \<le> lsn \<and> lsn \<notin> delivered p) messages)"

definition MAX_PEEK_ROWS :: nat where "MAX_PEEK_ROWS = 65536"

text \<open>
  The reading loop: \<open>rows limit\<close> is the slot's output for a limit.  The limit quadruples from at
  least one, so nine rounds reach the maximum; \<open>None\<close> is a loop cut off by the fuel.
\<close>

fun peek_loop ::
    "nat \<Rightarrow> (nat \<Rightarrow> msg + (u64 \<times> message) list) \<Rightarrow> progress \<Rightarrow> nat \<Rightarrow> nat \<Rightarrow>
     (msg + (u64 \<times> message) list) option" where
  "peek_loop 0 rows p max_new limit = None"
| "peek_loop (Suc fuel) rows p max_new limit =
     (case rows limit of
        Inl e \<Rightarrow> Some (Inl e)
      | Inr messages \<Rightarrow>
          if length messages < limit \<or> limit = MAX_PEEK_ROWS \<or> max_new \<le> new_changes p messages
          then Some (Inr messages)
          else peek_loop fuel rows p max_new (min (limit * 4) MAX_PEEK_ROWS))"

definition first_limit :: "progress \<Rightarrow> nat \<Rightarrow> nat" where
  "first_limit p max_new = min MAX_PEEK_ROWS (max 1 (card (delivered p) + max_new))"

record peek_state =
  pk_relations :: "u32 \<rightharpoonup> relation"
  pk_deliveries :: "delivery list"
  pk_progress :: progress
  pk_transaction :: "u64 list"
  pk_begin :: "(u32 \<times> u64) option"

text \<open>The deliveries of one change: only the last event carries the receipt.\<close>

definition change_deliveries :: "u64 \<Rightarrow> watch_event list \<Rightarrow> delivery list" where
  "change_deliveries lsn events =
     map (\<lambda>(index, event). \<lparr>dl_event = event,
            dl_receipt = (if index + 1 = length events then json_obj [(''lsn'', json_of_u64 lsn)]
                          else JNull)\<rparr>)
       (zip [0..<length events] events)"

text \<open>One message of the loop over a peek; an error leaves what is already recorded.\<close>

definition peek_message ::
    "cdc_env \<Rightarrow> str \<Rightarrow> nat \<Rightarrow> u64 \<times> message \<Rightarrow> peek_state \<Rightarrow> peek_state \<times> (msg + unit)" where
  "peek_message env slot max_new lm st =
     (let (lsn, message) = lm; p = pk_progress st in
      case message of
        Begin _ micros xid \<Rightarrow> (st\<lparr>pk_begin := Some (xid, micros), pk_transaction := []\<rparr>, Inr ())
      | Commit end_lsn \<Rightarrow>
          if end_lsn \<le> consumed p then (st\<lparr>pk_transaction := []\<rparr>, Inr ())
          else
            (st\<lparr>pk_transaction := [],
                pk_progress := p\<lparr>
                  owner := (\<lambda>l. if l \<in> set (pk_transaction st) then Some end_lsn else owner p l),
                  transactions :=
                    tx_upsert end_lsn
                      (\<lambda>tx. tx\<lparr>tx_changes := set (pk_transaction st), tx_complete := True\<rparr>)
                      (transactions p)\<rparr>\<rparr>, Inr ())
      | Relation oid relation \<Rightarrow> (st\<lparr>pk_relations := (pk_relations st)(oid \<mapsto> relation)\<rparr>, Inr ())
      | Other \<Rightarrow> (st, Inr ())
      | change \<Rightarrow>
          (let st1 = st\<lparr>pk_transaction := pk_transaction st @ [lsn]\<rparr> in
           if lsn < consumed p \<or> lsn \<in> delivered p \<or> max_new \<le> length (pk_deliveries st) then (st1, Inr ())
           else
             (case change_events env slot lsn (pk_begin st) (pk_relations st) change of
                Inl e \<Rightarrow> (st1, Inl e)
              | Inr events \<Rightarrow>
                  (st1\<lparr>pk_progress := p\<lparr>delivered := insert lsn (delivered p)\<rparr>,
                       pk_deliveries := pk_deliveries st @ change_deliveries lsn events\<rparr>, Inr ()))))"

fun peek_messages ::
    "cdc_env \<Rightarrow> str \<Rightarrow> nat \<Rightarrow> (u64 \<times> message) list \<Rightarrow> peek_state \<Rightarrow> peek_state \<times> (msg + unit)" where
  "peek_messages env slot max_new [] st = (st, Inr ())"
| "peek_messages env slot max_new (m # ms) st =
     (case peek_message env slot max_new m st of
        (st', Inl e) \<Rightarrow> (st', Inl e)
      | (st', Inr _) \<Rightarrow> peek_messages env slot max_new ms st')"

definition peek_start :: "progress \<Rightarrow> peek_state" where
  "peek_start p =
     \<lparr>pk_relations = Map.empty, pk_deliveries = [], pk_progress = p, pk_transaction = [], pk_begin = None\<rparr>"

definition peek ::
    "cdc_env \<Rightarrow> str \<Rightarrow> (nat \<Rightarrow> msg + (u64 \<times> message) list) \<Rightarrow> nat \<Rightarrow> progress \<Rightarrow>
     progress \<times> (msg + delivery list)" where
  "peek env slot rows max_new p =
     (case peek_loop 9 rows p max_new (first_limit p max_new) of
        Some (Inr messages) \<Rightarrow>
          (case peek_messages env slot max_new messages (peek_start p) of
             (st, r) \<Rightarrow> (pk_progress st, and_then r (\<lambda>_. Inr (pk_deliveries st))))
      | Some (Inl e) \<Rightarrow> (p, Inl e)
      | None \<Rightarrow> (p, Inl (Msg [] [])))"

section \<open>The watch\<close>

record cdc =
  cdc_slot :: str
  cdc_pool :: bool
  cdc_progress :: progress
  cdc_resumed :: bool
  cdc_gap :: bool
  cdc_unadvanced :: "u64 option"

text \<open>\<open>Option<u64>::max\<close>: \<open>None\<close> is below every number.\<close>

fun opt_max :: "u64 option \<Rightarrow> u64 option \<Rightarrow> u64 option" where
  "opt_max None y = y"
| "opt_max x None = x"
| "opt_max (Some a) (Some b) = Some (max a b)"

text \<open>
  \<open>settle\<close>: the position it asks the database to advance to, and the new state for the answer
  \<open>advanced\<close>.
\<close>

definition settle :: "bool \<Rightarrow> cdc \<Rightarrow> cdc \<times> u64 option" where
  "settle advanced c =
     (let (p, to) = advance (cdc_progress c);
          target = opt_max to (cdc_unadvanced c);
          c1 = c\<lparr>cdc_progress := p\<rparr>
      in case target of
           None \<Rightarrow> (c1, None)
         | Some t \<Rightarrow> (c1\<lparr>cdc_unadvanced := (if advanced then None else Some t)\<rparr>, Some t))"

text \<open>\<open>prepared\<close> is what connecting and \<open>prepare\<close> answer: an error, or whether the slot was created.\<close>

definition cdc_connect :: "msg + bool \<Rightarrow> cdc \<Rightarrow> cdc \<times> (msg + unit)" where
  "cdc_connect prepared c =
     (case prepared of
        Inl e \<Rightarrow> (c, Inl e)
      | Inr created \<Rightarrow>
          (c\<lparr>cdc_gap := (cdc_gap c \<or> created \<and> cdc_resumed c), cdc_progress := default_progress,
             cdc_pool := True\<rparr>, Inr ()))"

definition gap_delivery :: delivery where
  "gap_delivery = \<lparr>dl_event = default_event\<lparr>ev_gap := True\<rparr>, dl_receipt = JNull\<rparr>"

definition cdc_receive ::
    "cdc_env \<Rightarrow> (nat \<Rightarrow> msg + (u64 \<times> message) list) \<Rightarrow> bool \<Rightarrow> nat \<Rightarrow> cdc \<Rightarrow>
     cdc \<times> (msg + delivery list) \<times> u64 option" where
  "cdc_receive env rows advanced max_new c =
     (if \<not> cdc_pool c then (c, Inl (Msg ''not connected'' []), None)
      else
        (let gaps = (if cdc_gap c then [gap_delivery] else []);
             c1 = c\<lparr>cdc_gap := False\<rparr>;
             (p, r) = peek env (cdc_slot c) rows max_new (cdc_progress c1);
             c2 = c1\<lparr>cdc_progress := p\<rparr>
         in case r of
              Inl e \<Rightarrow> (c2, Inl e, None)
            | Inr ds \<Rightarrow> (case settle advanced c2 of (c3, to) \<Rightarrow> (c3, Inr (gaps @ ds), to))))"

definition receipt_lsn :: "json \<Rightarrow> u64 option" where
  "receipt_lsn receipt = Option.bind (json_get receipt ''lsn'') as_u64"

definition ack_progress :: "u64 \<Rightarrow> progress \<Rightarrow> progress" where
  "ack_progress lsn p =
     (case owner p lsn of
        None \<Rightarrow> p
      | Some e \<Rightarrow>
          p\<lparr>transactions := tx_modify e (\<lambda>tx. tx\<lparr>tx_acked := insert lsn (tx_acked tx)\<rparr>) (transactions p)\<rparr>)"

definition cdc_ack :: "json \<Rightarrow> cdc \<Rightarrow> cdc" where
  "cdc_ack receipt c =
     (case receipt_lsn receipt of
        None \<Rightarrow> c
      | Some lsn \<Rightarrow> c\<lparr>cdc_progress := ack_progress lsn (cdc_progress c)\<rparr>)"

definition cdc_release :: "json \<Rightarrow> cdc \<Rightarrow> cdc" where
  "cdc_release receipt c =
     (case receipt_lsn receipt of
        None \<Rightarrow> c
      | Some lsn \<Rightarrow>
          c\<lparr>cdc_progress := (cdc_progress c)\<lparr>delivered := delivered (cdc_progress c) - {lsn}\<rparr>\<rparr>)"

section \<open>The watch beside its database\<close>

text \<open>
  The log lists the committed transactions in commit order, each by its end LSN and the LSNs of its
  changes; \<open>w_confirmed\<close> is the slot's position, and \<open>w_acks\<close> what the gateway acknowledged.
\<close>

type_synonym tx_log = "(u64 \<times> u64 list) list"

record world =
  w_cdc :: cdc
  w_log :: tx_log
  w_confirmed :: u64
  w_acks :: "u64 set"

text \<open>A slot's output frames each transaction by its Begin and its Commit.\<close>

definition frames :: "message \<Rightarrow> bool" where
  "frames m = (case m of Begin _ _ _ \<Rightarrow> True | Commit _ \<Rightarrow> True | _ \<Rightarrow> False)"

definition change_lsns :: "(u64 \<times> message) list \<Rightarrow> u64 list" where
  "change_lsns ms = map fst (filter (\<lambda>(_, m). is_change m) ms)"

inductive blocks :: "(u64 \<times> message) list \<Rightarrow> tx_log \<Rightarrow> bool" where
  none: "blocks [] []"
| block: "blocks ms txs \<Longrightarrow> \<forall>(_, m) \<in> set body. \<not> frames m \<Longrightarrow>
     blocks ((l, Begin a b c) # body @ (l', Commit e) # ms) ((e, change_lsns body) # txs)"

text \<open>
  What PostgreSQL documents of a peek: whole transactions in commit order, from the first one past
  the confirmed position.
\<close>

definition slot_output :: "tx_log \<Rightarrow> u64 \<Rightarrow> (u64 \<times> message) list \<Rightarrow> bool" where
  "slot_output log confirmed ms \<longleftrightarrow>
     (\<exists>k. blocks ms (take k (filter (\<lambda>(e, _). confirmed < e) log)))"

inductive world_step :: "world \<Rightarrow> world \<Rightarrow> bool" where
  commit: "\<forall>(e', _) \<in> set (w_log w). e' < e \<Longrightarrow> w_confirmed w < e \<Longrightarrow>
     consumed (cdc_progress (w_cdc w)) < e \<Longrightarrow>
     (\<forall>u. cdc_unadvanced (w_cdc w) = Some u \<longrightarrow> u < e) \<Longrightarrow>
     world_step w (w\<lparr>w_log := w_log w @ [(e, cs)]\<rparr>)"
| connect: "prepared \<noteq> Inr True \<Longrightarrow>
     world_step w (w\<lparr>w_cdc := fst (cdc_connect prepared (w_cdc w))\<rparr>)"
| peek: "\<forall>limit ms. rows limit = Inr ms \<longrightarrow> slot_output (w_log w) (w_confirmed w) ms \<Longrightarrow>
     world_step w (w\<lparr>w_cdc := (w_cdc w)\<lparr>cdc_gap := False,
       cdc_progress := fst (peek env (cdc_slot (w_cdc w)) rows max_new (cdc_progress (w_cdc w)))\<rparr>\<rparr>)"
| settle: "settle advanced (w_cdc w) = (c', to) \<Longrightarrow>
     world_step w (w\<lparr>w_cdc := c',
       w_confirmed := (case to of None \<Rightarrow> w_confirmed w
                       | Some t \<Rightarrow> if advanced then max (w_confirmed w) t else w_confirmed w)\<rparr>)"
| ack: "receipt_lsn receipt = Some lsn \<Longrightarrow>
     world_step w (w\<lparr>w_cdc := cdc_ack receipt (w_cdc w), w_acks := insert lsn (w_acks w)\<rparr>)"
| release: "world_step w (w\<lparr>w_cdc := cdc_release receipt (w_cdc w)\<rparr>)"

definition world_init :: "world \<Rightarrow> bool" where
  "world_init w \<longleftrightarrow>
     w_log w = [] \<and> cdc_progress (w_cdc w) = default_progress \<and> cdc_unadvanced (w_cdc w) = None"

text \<open>Everything up to a position is acknowledged.\<close>

definition settled :: "tx_log \<Rightarrow> u64 set \<Rightarrow> u64 \<Rightarrow> bool" where
  "settled log acks u \<longleftrightarrow> (\<forall>(e, cs) \<in> set log. e \<le> u \<longrightarrow> set cs \<subseteq> acks)"

definition txs_inv ::
    "tx_log \<Rightarrow> u64 set \<Rightarrow> u64 \<Rightarrow> u64 \<Rightarrow> (u64 \<times> transaction) list \<Rightarrow> (u64 \<rightharpoonup> u64) \<Rightarrow> bool" where
  "txs_inv log acks confirmed con txs own \<longleftrightarrow>
     sorted_wrt (<) (map fst txs) \<and>
     (\<forall>(e, tx) \<in> set txs.
        tx_complete tx \<and> (\<exists>cs. (e, cs) \<in> set log \<and> tx_changes tx = set cs) \<and>
        tx_acked tx \<subseteq> tx_changes tx \<inter> acks \<and>
        (\<forall>(e', _) \<in> set log. e' \<le> e \<longrightarrow> e' \<le> con \<or> e' \<le> confirmed \<or> e' \<in> fst ` set txs)) \<and>
     (\<forall>l e. own l = Some e \<longrightarrow> (\<exists>cs. (e, cs) \<in> set log \<and> l \<in> set cs))"

definition tx_inv :: "tx_log \<Rightarrow> u64 set \<Rightarrow> u64 \<Rightarrow> progress \<Rightarrow> bool" where
  "tx_inv log acks confirmed p \<longleftrightarrow>
     txs_inv log acks confirmed (consumed p) (transactions p) (owner p)"

definition world_inv :: "world \<Rightarrow> bool" where
  "world_inv w \<longleftrightarrow>
     (let p = cdc_progress (w_cdc w) in
      sorted_wrt (<) (map fst (w_log w)) \<and>
      settled (w_log w) (w_acks w) (w_confirmed w) \<and> settled (w_log w) (w_acks w) (consumed p) \<and>
      (\<forall>u. cdc_unadvanced (w_cdc w) = Some u \<longrightarrow> settled (w_log w) (w_acks w) u) \<and>
      tx_inv (w_log w) (w_acks w) (w_confirmed w) p)"

text \<open>Two concurrent transactions for the witnesses: the second wrote before the first committed.\<close>

definition sample_cdc_env :: cdc_env where
  "sample_cdc_env = \<lparr>ce_from_str = (\<lambda>_. None), ce_at_millis = (\<lambda>_. None)\<rparr>"

definition sample_tx :: "u64 \<Rightarrow> u64 \<Rightarrow> (u64 \<times> message) list" where
  "sample_tx l e =
     [(l, Begin e 0 1), (l, Relation 1 \<lparr>rel_schema = ''s'', rel_name = ''t'', rel_columns = []\<rparr>),
      (l, Insert 1 []), (e, Commit e)]"

definition sample_cdc :: "progress \<Rightarrow> cdc" where
  "sample_cdc p = \<lparr>cdc_slot = ''slot'', cdc_pool = True, cdc_progress = p, cdc_resumed = False,
                   cdc_gap = False, cdc_unadvanced = None\<rparr>"

section \<open>Lemmas\<close>

lemma tx_upsert_keys: "fst ` set (tx_upsert k f txs) = insert k (fst ` set txs)"
  by (induction k f txs rule: tx_upsert.induct) auto

lemma tx_upsert_sorted:
  "sorted_wrt (<) (map fst txs) \<Longrightarrow> sorted_wrt (<) (map fst (tx_upsert k f txs))"
proof (induction k f txs rule: tx_upsert.induct)
  case (2 k f k' tx txs)
  have "\<forall>x \<in> set (map fst (tx_upsert k f txs)). k' < x" if "k' < k"
    using 2 that tx_upsert_keys [of k f txs] by auto
  with 2 show ?case by auto
qed simp

lemma tx_upsert_mem:
  "sorted_wrt (<) (map fst txs) \<Longrightarrow> (e, tx) \<in> set (tx_upsert k f txs) \<Longrightarrow>
     e \<noteq> k \<and> (e, tx) \<in> set txs \<or>
     e = k \<and> (tx = f default_transaction \<or> (\<exists>t. (k, t) \<in> set txs \<and> tx = f t))"
  by (induction k f txs rule: tx_upsert.induct) (auto split: if_splits)

lemma sorted_fst_unique:
  "sorted_wrt (<) (map fst xs) \<Longrightarrow> (e, a) \<in> set xs \<Longrightarrow> (e, b) \<in> set xs \<Longrightarrow> a = (b :: 'b)" for e :: u64
  by (induction xs) auto

lemma tx_inv_delivered [simp]:
  "tx_inv log acks c (p\<lparr>delivered := d\<rparr>) = tx_inv log acks c p"
  by (simp add: tx_inv_def txs_inv_def)

lemma settled_mono: "settled log acks u \<Longrightarrow> v \<le> u \<Longrightarrow> settled log acks v"
  by (fastforce simp: settled_def)

lemma settled_max: "settled log acks u \<Longrightarrow> settled log acks v \<Longrightarrow> settled log acks (max u v)"
  by (simp add: max_def)

lemma settled_acks: "settled log acks u \<Longrightarrow> settled log (insert l acks) u"
  by (fastforce simp: settled_def)

lemma tx_inv_drop_first:
  assumes "tx_inv log acks confirmed p" and "transactions p = (e, tx) # rest"
  shows "tx_inv log acks confirmed
           (p\<lparr>owner := (\<lambda>l. if l \<in> C then None else owner p l), delivered := d,
              transactions := rest, consumed := max (consumed p) e\<rparr>)"
proof -
  have near: "e' \<le> max (consumed p) e \<or> e' \<le> confirmed \<or> e' \<in> fst ` set rest"
    if "e' \<le> consumed p \<or> e' \<le> confirmed \<or> e' \<in> fst ` set (transactions p)" for e'
    using that assms(2) by (auto simp: le_max_iff_disj)
  have "\<forall>(e', _) \<in> set log. e' \<le> k \<longrightarrow>
      e' \<le> max (consumed p) e \<or> e' \<le> confirmed \<or> e' \<in> fst ` set rest" if "(k, t) \<in> set rest" for k t
  proof -
    have "(k, t) \<in> set (transactions p)" using that assms(2) by simp
    then have "\<forall>(e', _) \<in> set log. e' \<le> k \<longrightarrow>
        e' \<le> consumed p \<or> e' \<le> confirmed \<or> e' \<in> fst ` set (transactions p)"
      using assms(1) unfolding tx_inv_def txs_inv_def by blast
    then show ?thesis using near by blast
  qed
  then show ?thesis
    using assms by (simp add: tx_inv_def txs_inv_def) blast
qed

text \<open>The first transaction leaves only once it is acknowledged, so everything up to it is.\<close>

lemma settled_next:
  assumes "tx_inv log acks confirmed p" and "transactions p = (e, tx) # rest"
    and "\<not> (\<not> tx_complete tx \<or> card (tx_acked tx) < card (tx_changes tx))"
    and "sorted_wrt (<) (map fst log)" and "settled log acks confirmed" and "settled log acks (consumed p)"
  shows "settled log acks e"
  unfolding settled_def
proof clarify
  have mem: "(e, tx) \<in> set (transactions p)" using assms(2) by simp
  have rest: "\<forall>x \<in> fst ` set rest. e < x" using assms(1,2) by (auto simp: tx_inv_def txs_inv_def)
  obtain cs where cs: "(e, cs) \<in> set log" "tx_changes tx = set cs" "tx_acked tx \<subseteq> set cs \<inter> acks"
    using assms(1) mem by (fastforce simp: tx_inv_def txs_inv_def)
  have "tx_acked tx = set cs"
    using assms(3) cs by (intro card_subset_eq) (auto simp: card_mono intro: le_antisym)
  with cs have acked: "set cs \<subseteq> acks" by blast
  fix e' cs' x
  assume e': "(e', cs') \<in> set log" "e' \<le> e" and x: "x \<in> set cs'"
  then consider "e' \<le> consumed p" | "e' \<le> confirmed" | "e' \<in> fst ` set (transactions p)"
    using assms(1) mem by (fastforce simp: tx_inv_def txs_inv_def)
  then show "x \<in> acks"
  proof cases
    case 3
    with rest assms(2) e'(2) have "e' = e" by auto
    with sorted_fst_unique [OF assms(4)] cs(1) e'(1) have "cs' = cs" by blast
    with acked x show ?thesis by blast
  qed (use assms(5,6) e' x in \<open>auto simp: settled_def\<close>)
qed

lemma advance_from_inv:
  assumes "advance_from to p = (p', to')"
    and "sorted_wrt (<) (map fst log)" and "settled log acks confirmed"
    and "tx_inv log acks confirmed p" and "settled log acks (consumed p)"
  shows "tx_inv log acks confirmed p' \<and> settled log acks (consumed p') \<and> consumed p \<le> consumed p' \<and>
         (to' = to \<or> (\<exists>e. to' = Some e \<and> settled log acks e))"
  using assms
proof (induction to p rule: advance_from.induct)
  case (1 to p)
  show ?case
  proof (cases "transactions p")
    case Nil
    with "1.prems" show ?thesis by (auto simp: advance_from.simps [of to p])
  next
    case (Cons et rest)
    obtain e tx where et: "et = (e, tx)" by fastforce
    show ?thesis
    proof (cases "\<not> tx_complete tx \<or> card (tx_acked tx) < card (tx_changes tx)")
      case True
      with Cons et "1.prems" show ?thesis by (auto simp: advance_from.simps [of to p])
    next
      case False
      let ?p = "p\<lparr>owner := (\<lambda>l. if l \<in> tx_changes tx then None else owner p l),
                 delivered := delivered p - tx_changes tx,
                 transactions := rest, consumed := max (consumed p) e\<rparr>"
      have se: "settled log acks e"
        by (rule settled_next [OF "1.prems"(4) Cons [unfolded et] False "1.prems"(2,3,5)])
      have inv: "tx_inv log acks confirmed ?p"
        by (rule tx_inv_drop_first [OF "1.prems"(4) Cons [unfolded et]])
      have step: "advance_from (Some e) ?p = (p', to')"
        using "1.prems"(1) Cons et False by (simp add: advance_from.simps [of to p])
      have "tx_inv log acks confirmed p' \<and> settled log acks (consumed p') \<and> consumed ?p \<le> consumed p' \<and>
         (to' = Some e \<or> (\<exists>e. to' = Some e \<and> settled log acks e))"
        by (rule "1.IH" [OF Cons et [symmetric] False step "1.prems"(2,3) inv])
          (simp add: settled_max se "1.prems"(5))
      with se show ?thesis by (auto intro: order_trans [OF max.cobounded1])
    qed
  qed
qed

text \<open>Between a Begin and its Commit only deliveries and the collected changes grow.\<close>

lemma peek_message_body:
  assumes "\<not> frames m" and "peek_message env slot mx (l, m) st = (st', r)"
  shows "(\<exists>d. pk_progress st' = (pk_progress st)\<lparr>delivered := d\<rparr>) \<and>
         (r = Inr () \<longrightarrow> pk_transaction st' = pk_transaction st @ change_lsns [(l, m)])"
proof -
  have eq: "\<exists>d. pk_progress st = (pk_progress st)\<lparr>delivered := d\<rparr>"
    by (rule exI [of _ "delivered (pk_progress st)"]) simp
  show ?thesis
    using assms
    by (cases m)
      (auto simp: peek_message_def frames_def Let_def change_lsns_def is_change_def
        split: if_splits sum.splits intro: eq exI [of _ "delivered (pk_progress st')"])
qed

lemma change_lsns_Cons: "change_lsns (x # ms) = change_lsns [x] @ change_lsns ms"
  by (simp add: change_lsns_def split: prod.splits)

lemma peek_messages_body:
  assumes "\<forall>(_, m) \<in> set ms. \<not> frames m" and "peek_messages env slot mx ms st = (st', r)"
  shows "(\<exists>d. pk_progress st' = (pk_progress st)\<lparr>delivered := d\<rparr>) \<and>
         (r = Inr () \<longrightarrow> pk_transaction st' = pk_transaction st @ change_lsns ms)"
  using assms
proof (induction ms arbitrary: st)
  case Nil
  then show ?case
    by (auto simp: change_lsns_def intro: exI [of _ "delivered (pk_progress st)"])
next
  case (Cons x ms)
  obtain l m where x: "x = (l, m)" by fastforce
  obtain st1 r1 where step: "peek_message env slot mx (l, m) st = (st1, r1)" by fastforce
  have 1: "(\<exists>d. pk_progress st1 = (pk_progress st)\<lparr>delivered := d\<rparr>) \<and>
      (r1 = Inr () \<longrightarrow> pk_transaction st1 = pk_transaction st @ change_lsns [(l, m)])"
    using Cons.prems(1) x by (intro peek_message_body [OF _ step]) simp
  show ?case
  proof (cases r1)
    case (Inl e)
    with Cons.prems(2) x step have "st' = st1" "r = Inl e" by simp_all
    with 1 show ?thesis by simp
  next
    case (Inr u)
    with Cons.prems x step have "peek_messages env slot mx ms st1 = (st', r)" by simp
    with Cons have 2: "(\<exists>d. pk_progress st' = (pk_progress st1)\<lparr>delivered := d\<rparr>) \<and>
        (r = Inr () \<longrightarrow> pk_transaction st' = pk_transaction st1 @ change_lsns ms)" by simp
    with 1 Inr x show ?thesis by (auto simp: change_lsns_Cons [of "(l, m)" ms])
  qed
qed

lemma peek_messages_append:
  "peek_messages env slot mx (a @ b) st =
     (case peek_messages env slot mx a st of
        (st', Inl e) \<Rightarrow> (st', Inl e)
      | (st', Inr _) \<Rightarrow> peek_messages env slot mx b st')"
  by (induction a arbitrary: st) (auto split: prod.splits sum.splits)

text \<open>A Commit records the transaction with exactly the changes between it and its Begin.\<close>

lemma tx_inv_commit:
  assumes inv: "tx_inv log acks confirmed p" and log: "(e, cs) \<in> set log"
    and before: "\<forall>(e', _) \<in> set log. e' < e \<longrightarrow>
      e' \<le> consumed p \<or> e' \<le> confirmed \<or> e' \<in> fst ` set (transactions p)"
    and uniq: "sorted_wrt (<) (map fst log)"
  shows "tx_inv log acks confirmed
    (p\<lparr>owner := (\<lambda>l. if l \<in> set cs then Some e else owner p l),
       transactions := tx_upsert e (\<lambda>tx. tx\<lparr>tx_changes := set cs, tx_complete := True\<rparr>) (transactions p)\<rparr>)"
proof -
  let ?T = "tx_upsert e (\<lambda>tx. tx\<lparr>tx_changes := set cs, tx_complete := True\<rparr>) (transactions p)"
  have sorted: "sorted_wrt (<) (map fst (transactions p))" using inv by (simp add: tx_inv_def txs_inv_def)
  have keys: "fst ` set ?T = insert e (fst ` set (transactions p))" by (rule tx_upsert_keys)
  have old: "tx_complete t \<and> (\<exists>cs. (k, cs) \<in> set log \<and> tx_changes t = set cs) \<and>
      tx_acked t \<subseteq> tx_changes t \<inter> acks \<and>
      (\<forall>(e', _) \<in> set log. e' \<le> k \<longrightarrow>
         e' \<le> consumed p \<or> e' \<le> confirmed \<or> e' \<in> fst ` set (transactions p))"
    if "(k, t) \<in> set (transactions p)" for k t
    using inv that unfolding tx_inv_def txs_inv_def by blast
  have acked: "tx_acked t \<subseteq> set cs \<inter> acks" if "(e, t) \<in> set (transactions p)" for t
    using old [OF that] sorted_fst_unique [OF uniq _ log] by auto
  have upto: "\<forall>(e', _) \<in> set log. e' \<le> e \<longrightarrow> e' \<le> consumed p \<or> e' \<le> confirmed \<or> e' \<in> fst ` set ?T"
    using before unfolding keys by (auto simp: order_le_less)
  have "tx_complete t \<and> (\<exists>cs. (k, cs) \<in> set log \<and> tx_changes t = set cs) \<and>
      tx_acked t \<subseteq> tx_changes t \<inter> acks \<and>
      (\<forall>(e', _) \<in> set log. e' \<le> k \<longrightarrow> e' \<le> consumed p \<or> e' \<le> confirmed \<or> e' \<in> fst ` set ?T)"
    if kt: "(k, t) \<in> set ?T" for k t
    using tx_upsert_mem [OF sorted kt]
  proof (elim disjE conjE)
    assume "(k, t) \<in> set (transactions p)"
    from old [OF this] show ?thesis unfolding keys by blast
  next
    assume "k = e" and "\<exists>u. (e, u) \<in> set (transactions p) \<and>
        t = u\<lparr>tx_changes := set cs, tx_complete := True\<rparr>"
    then show ?thesis using log acked upto by fastforce
  qed (use log upto in \<open>auto simp: default_transaction_def\<close>)
  then have mem: "\<forall>(k, t) \<in> set ?T. tx_complete t \<and> (\<exists>cs. (k, cs) \<in> set log \<and> tx_changes t = set cs) \<and>
      tx_acked t \<subseteq> tx_changes t \<inter> acks \<and>
      (\<forall>(e', _) \<in> set log. e' \<le> k \<longrightarrow> e' \<le> consumed p \<or> e' \<le> confirmed \<or> e' \<in> fst ` set ?T)"
    by blast
  have "\<forall>l k. (if l \<in> set cs then Some e else owner p l) = Some k \<longrightarrow>
      (\<exists>cs. (k, cs) \<in> set log \<and> l \<in> set cs)"
    using inv log unfolding tx_inv_def txs_inv_def by auto
  with mem tx_upsert_sorted [OF sorted]
  have "txs_inv log acks confirmed (consumed p) ?T (\<lambda>l. if l \<in> set cs then Some e else owner p l)"
    by (simp only: txs_inv_def simp_thms)
  then show ?thesis by (simp add: tx_inv_def)
qed

lemma sorted_prefix_mem:
  fixes e :: u64
  assumes "sorted_wrt (<) (map fst (xs @ (e, c) # ys))" and "(e', c') \<in> set (xs @ (e, c) # ys)"
    and "e' < e"
  shows "(e', c') \<in> set xs"
proof (rule ccontr)
  assume "(e', c') \<notin> set xs"
  with assms(2,3) have "(e', c') \<in> set ys" by auto
  moreover have "\<forall>y \<in> set ys. e < fst y" using assms(1) by (auto simp: sorted_wrt_append)
  ultimately have "e < e'" by force
  with assms(3) show False by simp
qed

text \<open>A peek keeps the invariant, whether it ends with an error or not.\<close>

lemma log_prefix:
  fixes confirmed :: u64
  assumes "filter (\<lambda>(e, _). confirmed < e) log = seen @ (e, cs) # later" and "sorted_wrt (<) (map fst log)"
    and "(e', cs') \<in> set log" "e' < e" "\<not> e' \<le> (confirmed )"
  shows "(e', cs') \<in> set seen"
proof -
  have "sorted_wrt (<) (map fst (filter (\<lambda>(e, _). confirmed < e) log))"
    using assms(2) by (simp add: sorted_wrt_map sorted_wrt_filter)
  moreover have "(e', cs') \<in> set (filter (\<lambda>(e, _). confirmed < e) log)" using assms(3,5) by auto
  ultimately show ?thesis using assms(4) unfolding assms(1) by (rule sorted_prefix_mem)
qed

lemma peek_blocks_inv:
  assumes "blocks ms txs"
    and "filter (\<lambda>(e, _). confirmed < e) log = seen @ txs @ later"
    and "sorted_wrt (<) (map fst log)"
    and "tx_inv log acks confirmed (pk_progress st)"
    and "\<forall>(e, _) \<in> set seen. e \<le> consumed (pk_progress st) \<or> e \<in> fst ` set (transactions (pk_progress st))"
    and "peek_messages env slot mx ms st = (st', r)"
  shows "tx_inv log acks confirmed (pk_progress st') \<and>
         consumed (pk_progress st') = consumed (pk_progress st)"
  using assms
proof (induction ms txs arbitrary: st seen rule: blocks.induct)
  case none
  then show ?case by simp
next
  case (block ms txs body l a b c l' e)
  let ?st0 = "st\<lparr>pk_begin := Some (c, b), pk_transaction := []\<rparr>"
  obtain st1 r1 where body: "peek_messages env slot mx body ?st0 = (st1, r1)" by fastforce
  from peek_messages_body [OF block.hyps(2) body]
  obtain d where d: "pk_progress st1 = (pk_progress st)\<lparr>delivered := d\<rparr>"
    and tr: "r1 = Inr () \<Longrightarrow> pk_transaction st1 = change_lsns body"
    by auto
  have run: "(st', r) = (case (st1, r1) of (s, Inl x) \<Rightarrow> (s, Inl x)
      | (s, Inr _) \<Rightarrow> peek_messages env slot mx ((l', Commit e) # ms) s)"
    using block.prems(5) by (simp add: peek_message_def peek_messages_append body)
  note split = block.prems(1) [unfolded append_Cons]
  note IH = block.IH [OF _ block.prems(2), of "seen @ [(e, change_lsns body)]"]
  have inv1: "tx_inv log acks confirmed (pk_progress st1)" "consumed (pk_progress st1) = consumed (pk_progress st)"
    "transactions (pk_progress st1) = transactions (pk_progress st)"
    using block.prems(3) by (simp_all add: d)
  show ?case
  proof (cases r1)
    case (Inl x)
    with run inv1 show ?thesis by simp
  next
    case (Inr u)
    show ?thesis
    proof (cases "e \<le> consumed (pk_progress st1)")
      case True
      with run Inr have "peek_messages env slot mx ms (st1\<lparr>pk_transaction := []\<rparr>) = (st', r)"
        by (simp add: peek_message_def)
      from IH [OF _ _ _ this] show ?thesis using block.prems True inv1 by simp
    next
      case False
      let ?tx = "\<lambda>tx. tx\<lparr>tx_changes := set (change_lsns body), tx_complete := True\<rparr>"
      let ?p2 = "(pk_progress st1)\<lparr>owner := (\<lambda>l. if l \<in> set (change_lsns body) then Some e else owner (pk_progress st1) l),
        transactions := tx_upsert e ?tx (transactions (pk_progress st1))\<rparr>"
      have run2: "peek_messages env slot mx ms (st1\<lparr>pk_transaction := [], pk_progress := ?p2\<rparr>) = (st', r)"
        using run Inr False by (simp add: peek_message_def tr Let_def)
      have "(e, change_lsns body) \<in> set (filter (\<lambda>(e, _). confirmed < e) log)" unfolding split by simp
      then have log: "(e, change_lsns body) \<in> set log" by simp
      have "\<forall>(e', _) \<in> set log. e' < e \<longrightarrow> e' \<le> consumed (pk_progress st1) \<or> e' \<le> confirmed
          \<or> e' \<in> fst ` set (transactions (pk_progress st1))"
        using log_prefix [OF split block.prems(2)] block.prems(4) unfolding inv1(2,3) by fastforce
      then have "tx_inv log acks confirmed ?p2" by (rule tx_inv_commit [OF inv1(1) log _ block.prems(2)])
      with IH [OF _ _ _ run2] show ?thesis
        using block.prems by (simp add: inv1(2,3) tx_upsert_keys) fastforce
    qed
  qed
qed

lemma peek_loop_rows:
  "peek_loop fuel rows p mx limit = Some (Inr ms) \<Longrightarrow> \<exists>limit. rows limit = Inr ms"
  by (induction fuel arbitrary: limit) (auto split: sum.splits if_splits)

lemma peek_inv:
  assumes "\<forall>limit ms. rows limit = Inr ms \<longrightarrow> slot_output log confirmed ms"
    and "sorted_wrt (<) (map fst log)" and "tx_inv log acks confirmed p"
  shows "tx_inv log acks confirmed (fst (peek env slot rows mx p)) \<and>
         consumed (fst (peek env slot rows mx p)) = consumed p"
proof (cases "peek_loop 9 rows p mx (first_limit p mx)")
  case None
  with assms show ?thesis by (simp add: peek_def)
next
  case (Some r)
  show ?thesis
  proof (cases r)
    case (Inl e)
    with Some assms show ?thesis by (simp add: peek_def)
  next
    case (Inr ms)
    have "\<exists>limit. rows limit = Inr ms"
      using Some Inr by (intro peek_loop_rows) simp
    then have "slot_output log confirmed ms" using assms(1) by blast
    then obtain k where b: "blocks ms (take k (filter (\<lambda>(e, _). confirmed < e) log))"
      by (auto simp: slot_output_def)
    obtain st r' where run: "peek_messages env slot mx ms (peek_start p) = (st, r')" by fastforce
    have "tx_inv log acks confirmed (pk_progress st) \<and>
        consumed (pk_progress st) = consumed (pk_progress (peek_start p))"
      using assms(3)
      by (intro peek_blocks_inv [OF b, where seen = "[]" and
            later = "drop k (filter (\<lambda>(e, _). confirmed < e) log)", OF _ assms(2) _ _ run])
        (simp_all add: peek_start_def)
    with Some Inr run show ?thesis by (simp add: peek_def peek_start_def)
  qed
qed

lemma tx_inv_acks: "tx_inv log acks c p \<Longrightarrow> tx_inv log (insert l acks) c p"
  unfolding tx_inv_def txs_inv_def by fastforce

lemma tx_inv_confirmed: "tx_inv log acks c p \<Longrightarrow> c \<le> c' \<Longrightarrow> tx_inv log acks c' p"
  unfolding tx_inv_def txs_inv_def by fastforce

lemma tx_modify_keys [simp]: "map fst (tx_modify k f txs) = map fst txs"
  by (simp add: tx_modify_def case_prod_unfold)

lemma tx_inv_ack:
  assumes "tx_inv log acks c p" and "sorted_wrt (<) (map fst log)" and "l \<in> acks"
  shows "tx_inv log acks c (ack_progress l p)"
proof (cases "owner p l")
  case None
  with assms show ?thesis by (simp add: ack_progress_def)
next
  case (Some e)
  let ?T = "tx_modify e (\<lambda>tx. tx\<lparr>tx_acked := insert l (tx_acked tx)\<rparr>) (transactions p)"
  have keys: "fst ` set ?T = fst ` set (transactions p)"
    by (metis list.set_map tx_modify_keys)
  obtain cs where cs: "(e, cs) \<in> set log" "l \<in> set cs"
    using assms(1) Some unfolding tx_inv_def txs_inv_def by blast
  have "tx_complete t \<and> (\<exists>cs. (k, cs) \<in> set log \<and> tx_changes t = set cs) \<and>
      tx_acked t \<subseteq> tx_changes t \<inter> acks \<and>
      (\<forall>(e', _) \<in> set log. e' \<le> k \<longrightarrow> e' \<le> consumed p \<or> e' \<le> c \<or> e' \<in> fst ` set ?T)"
    if kt: "(k, t) \<in> set ?T" for k t
  proof -
    from kt obtain u where u: "(k, u) \<in> set (transactions p)"
      "t = (if k = e then u\<lparr>tx_acked := insert l (tx_acked u)\<rparr> else u)"
      by (auto simp: tx_modify_def)
    have old: "tx_complete u \<and> (\<exists>cs. (k, cs) \<in> set log \<and> tx_changes u = set cs) \<and>
      tx_acked u \<subseteq> tx_changes u \<inter> acks \<and>
      (\<forall>(e', _) \<in> set log. e' \<le> k \<longrightarrow> e' \<le> consumed p \<or> e' \<le> c \<or> e' \<in> fst ` set (transactions p))"
      using assms(1) u(1) unfolding tx_inv_def txs_inv_def by blast
    moreover have "l \<in> tx_changes u" if "k = e"
      using old sorted_fst_unique [OF assms(2) _ cs(1)] cs(2) that by auto
    ultimately show ?thesis unfolding keys u(2) using assms(3) by auto
  qed
  then have "txs_inv log acks c (consumed p) ?T (owner p)"
    using assms(1) unfolding tx_inv_def txs_inv_def by (simp only: tx_modify_keys) blast
  then show ?thesis using Some by (simp add: ack_progress_def tx_inv_def)
qed

lemma tx_inv_log:
  assumes "tx_inv log acks c p" and "\<forall>(e', _) \<in> set log. e' < e"
  shows "tx_inv (log @ [(e, cs)]) acks c p"
proof -
  have "\<forall>(k, t) \<in> set (transactions p). k < e"
    using assms unfolding tx_inv_def txs_inv_def by fastforce
  then have "\<forall>(k, t) \<in> set (transactions p). \<not> e \<le> k" by auto
  then show ?thesis
    using assms(1) unfolding tx_inv_def txs_inv_def
    by (simp add: case_prod_unfold) blast
qed

lemma settled_log: "settled log acks u \<Longrightarrow> u < e \<Longrightarrow> settled (log @ [(e, cs)]) acks u"
  by (auto simp: settled_def)

lemma world_step_inv:
  assumes inv: "world_inv w" and step: "world_step w w'"
  shows "world_inv w'"
proof -
  let ?log = "w_log w" and ?acks = "w_acks w" and ?c = "w_cdc w"
  have sorted: "sorted_wrt (<) (map fst ?log)" and conf: "settled ?log ?acks (w_confirmed w)"
    and con: "settled ?log ?acks (consumed (cdc_progress ?c))"
    and un: "\<And>u. cdc_unadvanced ?c = Some u \<Longrightarrow> settled ?log ?acks u"
    and tx: "tx_inv ?log ?acks (w_confirmed w) (cdc_progress ?c)"
    using inv by (simp_all add: world_inv_def Let_def)
  from step show ?thesis
  proof cases
    case (commit e cs)
    then show ?thesis
      using sorted conf con un tx_inv_log [OF tx commit(2)]
      by (auto simp: world_inv_def Let_def settled_log sorted_wrt_append)
  next
    case (connect prepared)
    have "tx_inv ?log ?acks (w_confirmed w) default_progress"
      by (simp add: tx_inv_def txs_inv_def default_progress_def)
    moreover have "settled ?log ?acks (consumed default_progress)"
      using con by (rule settled_mono) (simp add: default_progress_def)
    ultimately show ?thesis
      using connect inv
      by (auto simp: world_inv_def Let_def cdc_connect_def split: sum.splits)
  next
    case (peek rows env max_new)
    then show ?thesis
      using sorted conf con un peek_inv [OF peek(2) sorted tx]
      by (simp add: world_inv_def Let_def)
  next
    case (settle advanced c' to)
    obtain p' t where adv: "advance_from None (cdc_progress ?c) = (p', t)" by fastforce
    from advance_from_inv [OF adv sorted conf tx con]
    have A: "tx_inv ?log ?acks (w_confirmed w) p'" "settled ?log ?acks (consumed p')"
      and T: "\<And>x. t = Some x \<Longrightarrow> settled ?log ?acks x" by auto
    have target: "settled ?log ?acks x" if "opt_max t (cdc_unadvanced ?c) = Some x" for x
      using that T un by (cases t; cases "cdc_unadvanced ?c") (auto simp: settled_max)
    show ?thesis
      using settle sorted conf con un A target
      by (auto simp: world_inv_def Let_def settle_def advance_def adv settled_max
          split: option.splits if_splits intro: tx_inv_confirmed)
  next
    case (ack receipt lsn)
    have "tx_inv ?log (insert lsn ?acks) (w_confirmed w) (ack_progress lsn (cdc_progress ?c))"
      by (rule tx_inv_ack [OF tx_inv_acks [OF tx] sorted]) simp
    then show ?thesis
      using ack sorted conf con un
      by (auto simp: world_inv_def Let_def cdc_ack_def settled_acks ack_progress_def
          split: option.splits)
  next
    case (release receipt)
    then show ?thesis
      using inv by (auto simp: world_inv_def Let_def cdc_release_def split: option.splits)
  qed
qed

interpretation cdcw: transition_invariant world_init world_step world_inv
proof
  show "world_inv w" if "world_init w" for w
    using that by (simp add: world_init_def world_inv_def settled_def tx_inv_def txs_inv_def
        default_progress_def)
qed (rule world_step_inv)

text \<open>The reading loop ends within its fuel, since the limit quadruples.\<close>

lemma peek_loop_fuel:
  "0 < limit \<Longrightarrow> MAX_PEEK_ROWS \<le> limit * 4 ^ n \<Longrightarrow> limit \<le> MAX_PEEK_ROWS \<Longrightarrow>
     peek_loop (Suc n) rows p mx limit \<noteq> None"
proof (induction n arbitrary: limit)
  case 0
  then show ?case by (simp split: sum.splits)
next
  case (Suc n)
  have "peek_loop (Suc n) rows p mx (min (limit * 4) MAX_PEEK_ROWS) \<noteq> None"
  proof (rule Suc.IH)
    show "MAX_PEEK_ROWS \<le> min (limit * 4) MAX_PEEK_ROWS * 4 ^ n"
      using Suc.prems(2) by (cases "limit * 4 \<le> MAX_PEEK_ROWS") (simp_all add: min_def)
  qed (use Suc.prems in \<open>simp_all add: MAX_PEEK_ROWS_def\<close>)
  then show ?case by (simp split: sum.splits)
qed

lemma peek_loop_nine:
  "peek_loop 9 rows p mx limit =
     (case rows limit of
        Inl e \<Rightarrow> Some (Inl e)
      | Inr messages \<Rightarrow>
          if length messages < limit \<or> limit = MAX_PEEK_ROWS \<or> mx \<le> new_changes p messages
          then Some (Inr messages)
          else peek_loop 8 rows p mx (min (limit * 4) MAX_PEEK_ROWS))"
  using peek_loop.simps(2) [of 8 rows p mx limit] by simp

lemma receipt_lsn_simps [simp]:
  "receipt_lsn JNull = None"
  "receipt_lsn (json_obj [(''lsn'', json_of_u64 l)]) = Some l"
  by (simp_all add: receipt_lsn_def json_obj_get)

lemma change_deliveries_receipts:
  "d \<in> set (change_deliveries l events) \<Longrightarrow> receipt_lsn (dl_receipt d) \<in> {None, Some l}"
  "events \<noteq> [] \<Longrightarrow> \<exists>d \<in> set (change_deliveries l events). receipt_lsn (dl_receipt d) = Some l"
proof -
  show "d \<in> set (change_deliveries l events) \<Longrightarrow> receipt_lsn (dl_receipt d) \<in> {None, Some l}"
    by (auto simp: change_deliveries_def)
  assume "events \<noteq> []"
  then have "(length events - 1, last events) \<in> set (zip [0..<length events] events)"
    by (auto simp: set_zip last_conv_nth intro!: exI [of _ "length events - 1"])
  with \<open>events \<noteq> []\<close> show "\<exists>d \<in> set (change_deliveries l events). receipt_lsn (dl_receipt d) = Some l"
    by (force simp: change_deliveries_def)
qed

text \<open>The change arms of the loop are one.\<close>

lemma peek_message_change:
  assumes "is_change m"
  shows "peek_message env slot mx (l, m) st =
    (let p = pk_progress st; st1 = st\<lparr>pk_transaction := pk_transaction st @ [l]\<rparr> in
     if l < consumed p \<or> l \<in> delivered p \<or> mx \<le> length (pk_deliveries st) then (st1, Inr ())
     else (case change_events env slot l (pk_begin st) (pk_relations st) m of
             Inl e \<Rightarrow> (st1, Inl e)
           | Inr events \<Rightarrow>
               (st1\<lparr>pk_progress := p\<lparr>delivered := insert l (delivered p)\<rparr>,
                    pk_deliveries := pk_deliveries st @ change_deliveries l events\<rparr>, Inr ())))"
  using assms by (cases m) (simp_all add: peek_message_def is_change_def Let_def)

lemma peek_message_other:
  assumes "\<not> is_change m" and "peek_message env slot mx (l, m) st = (st', r)"
  shows "r = Inr () \<and> pk_deliveries st' = pk_deliveries st \<and>
         delivered (pk_progress st') = delivered (pk_progress st) \<and>
         consumed (pk_progress st') = consumed (pk_progress st)"
  using assms by (cases m) (auto simp: peek_message_def is_change_def Let_def split: if_splits)

definition emitted :: "peek_state \<Rightarrow> u64 set" where
  "emitted st = {l. \<exists>d \<in> set (pk_deliveries st). receipt_lsn (dl_receipt d) = Some l}"

lemma change_events_nonempty:
  assumes "is_change m" and "\<forall>c r. m \<noteq> Truncate [] c r"
    and "change_events env slot l b rels m = Inr events"
  shows "events \<noteq> []"
proof (cases m)
  case (Truncate oids c r)
  with assms show ?thesis
    by (cases oids) (auto simp: change_events_def)
qed (use assms in \<open>auto simp: change_events_def is_change_def Let_def case_prod_unfold\<close>)

text \<open>What one message does to the changes in flight and to those emitted.\<close>

lemma peek_message_emits:
  assumes "peek_message env slot mx (l, m) st = (st', r)"
  shows "consumed (pk_progress st') = consumed (pk_progress st) \<and>
         delivered (pk_progress st) \<subseteq> delivered (pk_progress st') \<and>
         length (pk_deliveries st) \<le> length (pk_deliveries st') \<and>
         emitted st \<subseteq> emitted st' \<and> emitted st' \<subseteq> emitted st \<union> {l. consumed (pk_progress st) \<le> l} \<and>
         (r = Inr () \<and> (\<forall>c r. m \<noteq> Truncate [] c r) \<longrightarrow>
            delivered (pk_progress st') - delivered (pk_progress st) \<subseteq> emitted st') \<and>
         (r = Inr () \<and> is_change m \<and> consumed (pk_progress st) \<le> l \<and> length (pk_deliveries st') < mx \<longrightarrow>
            l \<in> delivered (pk_progress st'))"
proof (cases "is_change m")
  case False
  with peek_message_other [OF False assms] show ?thesis by (simp add: emitted_def)
next
  case True
  show ?thesis
  proof (cases "l < consumed (pk_progress st) \<or> l \<in> delivered (pk_progress st) \<or> mx \<le> length (pk_deliveries st)")
    case skip: True
    then have "st' = st\<lparr>pk_transaction := pk_transaction st @ [l]\<rparr>"
      using assms by (simp add: peek_message_change [OF True] Let_def)
    with skip show ?thesis by (auto simp: emitted_def)
  next
    case new: False
    show ?thesis
    proof (cases "change_events env slot l (pk_begin st) (pk_relations st) m")
      case (Inl e)
      then have "st' = st\<lparr>pk_transaction := pk_transaction st @ [l]\<rparr>" "r = Inl e"
        using assms new by (simp_all add: peek_message_change [OF True] Let_def)
      then show ?thesis by (auto simp: emitted_def)
    next
      case (Inr events)
      then have st': "pk_progress st' = (pk_progress st)\<lparr>delivered := insert l (delivered (pk_progress st))\<rparr>"
        "pk_deliveries st' = pk_deliveries st @ change_deliveries l events"
        using assms new by (auto simp: peek_message_change [OF True] Let_def)
      have "l \<in> emitted st'" if "\<forall>c r. m \<noteq> Truncate [] c r"
        using change_deliveries_receipts(2) [OF change_events_nonempty [OF True that Inr]]
        by (auto simp: emitted_def st')
      moreover have "emitted st' \<subseteq> insert l (emitted st)"
        using change_deliveries_receipts(1) by (fastforce simp: emitted_def st')
      moreover have "emitted st \<subseteq> emitted st'" by (auto simp: emitted_def st')
      ultimately show ?thesis using new st' by auto
    qed
  qed
qed

text \<open>What a run over messages does to the state, and that runs compose.\<close>

definition peek_effect :: "nat \<Rightarrow> (u64 \<times> message) list \<Rightarrow> peek_state \<Rightarrow> peek_state \<Rightarrow> bool \<Rightarrow> bool" where
  "peek_effect mx ms st st' ok \<longleftrightarrow>
     consumed (pk_progress st') = consumed (pk_progress st) \<and>
     delivered (pk_progress st) \<subseteq> delivered (pk_progress st') \<and>
     length (pk_deliveries st) \<le> length (pk_deliveries st') \<and>
     emitted st \<subseteq> emitted st' \<and> emitted st' \<subseteq> emitted st \<union> {l. consumed (pk_progress st) \<le> l} \<and>
     (ok \<and> (\<forall>(_, m) \<in> set ms. \<forall>c r. m \<noteq> Truncate [] c r) \<longrightarrow>
        delivered (pk_progress st') - delivered (pk_progress st) \<subseteq> emitted st') \<and>
     (ok \<and> length (pk_deliveries st') < mx \<longrightarrow>
        (\<forall>(l, m) \<in> set ms. is_change m \<and> consumed (pk_progress st) \<le> l \<longrightarrow>
           l \<in> delivered (pk_progress st')))"

lemma peek_effect_trans:
  assumes one: "peek_effect mx ms st st1 True" and rest: "peek_effect mx ms' st1 st' ok"
  shows "peek_effect mx (ms @ ms') st st' ok"
proof -
  have con: "consumed (pk_progress st1) = consumed (pk_progress st)"
    and grows: "delivered (pk_progress st) \<subseteq> delivered (pk_progress st1)" "delivered (pk_progress st1) \<subseteq> delivered (pk_progress st')"
      "emitted st \<subseteq> emitted st1" "emitted st1 \<subseteq> emitted st'"
      "length (pk_deliveries st) \<le> length (pk_deliveries st1)" "length (pk_deliveries st1) \<le> length (pk_deliveries st')"
    using one rest by (simp_all add: peek_effect_def)
  have "delivered (pk_progress st') - delivered (pk_progress st) \<subseteq> emitted st'"
    if "ok" "\<forall>(_, m) \<in> set (ms @ ms'). \<forall>c r. m \<noteq> Truncate [] c r"
  proof -
    have "delivered (pk_progress st1) - delivered (pk_progress st) \<subseteq> emitted st1"
      "delivered (pk_progress st') - delivered (pk_progress st1) \<subseteq> emitted st'"
      using one rest that by (simp_all add: peek_effect_def)
    with grows show ?thesis by blast
  qed
  moreover have "\<forall>(k, m) \<in> set (ms @ ms'). is_change m \<and> consumed (pk_progress st) \<le> k \<longrightarrow> k \<in> delivered (pk_progress st')"
    if "ok" "length (pk_deliveries st') < mx"
  proof -
    have "length (pk_deliveries st1) < mx" using grows(6) that(2) by linarith
    then have "\<forall>(k, m) \<in> set ms. is_change m \<and> consumed (pk_progress st) \<le> k \<longrightarrow> k \<in> delivered (pk_progress st1)"
      using one by (simp add: peek_effect_def)
    moreover have "\<forall>(k, m) \<in> set ms'. is_change m \<and> consumed (pk_progress st) \<le> k \<longrightarrow> k \<in> delivered (pk_progress st')"
      using rest that con by (simp add: peek_effect_def)
    ultimately show ?thesis using grows(2) by auto
  qed
  moreover have "emitted st' \<subseteq> emitted st \<union> {l. consumed (pk_progress st) \<le> l}"
  proof -
    have "emitted st1 \<subseteq> emitted st \<union> {l. consumed (pk_progress st) \<le> l}"
      "emitted st' \<subseteq> emitted st1 \<union> {l. consumed (pk_progress st) \<le> l}"
      using one rest con by (simp_all add: peek_effect_def)
    then show ?thesis by blast
  qed
  ultimately show ?thesis
    using grows rest con order_trans [OF grows(1,2)] order_trans [OF grows(3,4)] by (simp add: peek_effect_def)
qed

lemma peek_messages_effect:
  "peek_messages env slot mx ms st = (st', r) \<Longrightarrow> peek_effect mx ms st st' (r = Inr ())"
proof (induction ms arbitrary: st)
  case Nil
  then show ?case by (simp add: peek_effect_def)
next
  case (Cons x ms)
  obtain l m where x: "x = (l, m)" by fastforce
  obtain st1 r1 where step: "peek_message env slot mx (l, m) st = (st1, r1)" by fastforce
  have one: "peek_effect mx [x] st st1 (r1 = Inr ())"
    using peek_message_emits [OF step] by (simp add: peek_effect_def x)
  show ?case
  proof (cases r1)
    case (Inl e)
    with Cons.prems x step have "st' = st1" "r = Inl e" by simp_all
    with one show ?thesis by (simp add: peek_effect_def)
  next
    case (Inr u)
    with Cons.prems x step have "peek_messages env slot mx ms st1 = (st', r)" by simp
    from peek_effect_trans [OF _ Cons.IH [OF this]] one Inr show ?thesis by fastforce
  qed
qed

lemmas peek_messages_emits = peek_messages_effect [unfolded peek_effect_def]

section \<open>Properties\<close>

text \<open>
  C3. The slot never passes a change that was not acknowledged.  Beside any log of committed
  transactions that grows in commit order, through any interleaving of peeks (whatever they return of
  the log, and even when they fail half-way), acknowledgements, releases, reconnections to the same
  slot and advances that succeed or fail, every change of every transaction up to the slot's confirmed
  position was acknowledged by the gateway.
\<close>

theorem cdc_slot_never_skips_unacked:
  assumes "world_init w0" and "world_step\<^sup>*\<^sup>* w0 w" and "(e, cs) \<in> set (w_log w)"
    and "e \<le> w_confirmed w"
  shows "set cs \<subseteq> w_acks w"
  using cdcw.reachable_inv [OF assms(1,2)] assms(3,4)
  by (auto simp: world_inv_def Let_def settled_def)

theorem cdc_slot_never_skips_unacked_witness:
  "\<exists>w. world_step\<^sup>*\<^sup>* \<lparr>w_cdc = sample_cdc default_progress, w_log = [], w_confirmed = 0, w_acks = {}\<rparr> w \<and>
     w_log w = [(100, [10])] \<and> w_confirmed w = 100 \<and> set [10] \<subseteq> w_acks w"
proof -
  let ?w0 = "\<lparr>w_cdc = sample_cdc default_progress, w_log = [], w_confirmed = 0, w_acks = {}\<rparr> :: world"
  let ?w1 = "?w0\<lparr>w_log := [(100, [10])]\<rparr>"
  let ?rows = "\<lambda>_ :: nat. Inr (sample_tx 10 100) :: msg + (u64 \<times> message) list"
  let ?p2 = "\<lparr>delivered = {10}, transactions = [(100, \<lparr>tx_changes = {10}, tx_complete = True, tx_acked = {}\<rparr>)],
    owner = (\<lambda>l. if l = 10 then Some 100 else None), consumed = 0\<rparr>"
  let ?w2 = "?w1\<lparr>w_cdc := sample_cdc ?p2\<rparr>"
  let ?p3 = "?p2\<lparr>transactions := [(100, \<lparr>tx_changes = {10}, tx_complete = True, tx_acked = {10}\<rparr>)]\<rparr>"
  let ?w3 = "?w1\<lparr>w_cdc := sample_cdc ?p3, w_acks := {10}\<rparr>"
  let ?p4 = "\<lparr>delivered = {}, transactions = [], owner = Map.empty, consumed = 100\<rparr>"
  let ?w4 = "?w1\<lparr>w_cdc := sample_cdc ?p4, w_acks := {10}, w_confirmed := 100\<rparr>"
  have "world_step ?w0 ?w1"
    using world_step.commit [of ?w0 100 "[10]"] by (simp add: sample_cdc_def default_progress_def)
  moreover have "world_step ?w1 ?w2"
  proof -
    have "blocks (sample_tx 10 100) [(100, [10])]"
      using blocks.block [OF blocks.none, of "[(10, Relation 1 \<lparr>rel_schema = ''s'', rel_name = ''t'',
        rel_columns = []\<rparr>), (10, Insert 1 [])]" 10 100 0 1 100 100]
      by (simp add: sample_tx_def frames_def change_lsns_def is_change_def)
    then have out: "slot_output [(100, [10])] 0 (sample_tx 10 100)"
      by (auto simp: slot_output_def intro!: exI [of _ 1])
    have "fst (peek sample_cdc_env ''slot'' ?rows 10 default_progress) = ?p2"
      by (simp add: peek_def first_limit_def default_progress_def MAX_PEEK_ROWS_def sample_tx_def
          peek_loop_nine peek_start_def peek_message_def Let_def change_events_def relation_for_def
          row_of_def default_transaction_def fun_eq_iff)
    then show ?thesis
      using world_step.peek [of ?rows ?w1 sample_cdc_env 10] out by (simp add: sample_cdc_def)
  qed
  moreover have "world_step ?w2 ?w3"
    using world_step.ack [of "json_obj [(''lsn'', json_of_u64 10)]" 10 ?w2]
    by (simp add: sample_cdc_def cdc_ack_def ack_progress_def tx_modify_def)
  moreover have "world_step ?w3 ?w4"
  proof -
    have "settle True (sample_cdc ?p3) = (sample_cdc ?p4, Some 100)"
      by (simp add: settle_def advance_def advance_from.simps sample_cdc_def fun_eq_iff)
    then show ?thesis using world_step.settle [of True ?w3 "sample_cdc ?p4" "Some 100"] by simp
  qed
  ultimately have run: "world_step\<^sup>*\<^sup>* ?w0 ?w4" by simp
  have "world_init ?w0" by (simp add: world_init_def sample_cdc_def)
  from cdc_slot_never_skips_unacked [OF this run, of 100 "[10]"] run show ?thesis
    by (intro exI [of _ ?w4]) simp
qed

text \<open>
  A peek that does not fill its quota leaves no unconsumed change behind: every change in what it
  read is in flight afterwards, and those that were not in flight before (never delivered, or released)
  are in its deliveries with a receipt.
\<close>

theorem cdc_peek_complete:
  assumes "peek_messages env slot mx ms (peek_start p) = (st, Inr ())"
    and "length (pk_deliveries st) < mx"
    and "\<forall>(_, m) \<in> set ms. \<forall>c r. m \<noteq> Truncate [] c r"
    and "(l, m) \<in> set ms" and "is_change m" and "consumed p \<le> l"
  shows "l \<in> delivered (pk_progress st) \<and>
         (l \<notin> delivered p \<longrightarrow> (\<exists>d \<in> set (pk_deliveries st). receipt_lsn (dl_receipt d) = Some l))"
proof -
  from peek_messages_emits [OF assms(1)] assms(2-)
  have "l \<in> delivered (pk_progress st)" "delivered (pk_progress st) - delivered p \<subseteq> emitted st"
    by (auto simp: peek_start_def)
  then show ?thesis by (auto simp: emitted_def)
qed

theorem cdc_peek_complete_witness:
  "\<exists>st. peek_messages sample_cdc_env ''slot'' 5 (sample_tx 10 100) (peek_start default_progress) = (st, Inr ()) \<and>
     (\<exists>d \<in> set (pk_deliveries st). receipt_lsn (dl_receipt d) = Some 10)"
proof -
  obtain st r where run:
    "peek_messages sample_cdc_env ''slot'' 5 (sample_tx 10 100) (peek_start default_progress) = (st, r)"
    by fastforce
  then have "r = Inr ()" "length (pk_deliveries st) < 5"
    by (auto simp: sample_tx_def peek_message_def peek_start_def default_progress_def Let_def
        change_events_def relation_for_def row_of_def change_deliveries_def)
  with cdc_peek_complete [of sample_cdc_env "''slot''" 5 "sample_tx 10 100" default_progress st 10 "Insert 1 []"] run
  show ?thesis by (auto simp: sample_tx_def default_progress_def is_change_def)
qed

text \<open>
  A change that was logged below the consumed position is never delivered: a peek emits no such
  change and leaves the consumed position as it is.  PostgreSQL reports each change under its own
  position in the log, and a transaction that wrote before another one committed and commits after it
  is read with positions below the end of the other.  Such a transaction is recorded but its changes
  are withheld, so it is never acknowledged and the slot stays before it until the next reconnection.
\<close>

theorem cdc_interleaved_change_withheld:
  assumes "peek_messages env slot mx ms (peek_start p) = (st, r)" and "l < consumed p"
  shows "(\<forall>d \<in> set (pk_deliveries st). receipt_lsn (dl_receipt d) \<noteq> Some l) \<and>
         consumed (pk_progress st) = consumed p"
proof -
  have "emitted (peek_start p) = {}" by (simp add: emitted_def peek_start_def)
  with peek_messages_emits [OF assms(1)] have "emitted st \<subseteq> {l. consumed p \<le> l}"
    "consumed (pk_progress st) = consumed p"
    by (simp_all add: peek_start_def)
  with assms(2) show ?thesis by (auto simp: emitted_def)
qed

theorem cdc_interleaved_change_withheld_witness:
  "\<exists>st. peek_messages sample_cdc_env ''slot'' 5 (sample_tx 50 200) (peek_start (default_progress\<lparr>consumed := 100\<rparr>)) =
      (st, Inr ()) \<and>
     (\<forall>d \<in> set (pk_deliveries st). receipt_lsn (dl_receipt d) \<noteq> Some 50) \<and>
     map fst (transactions (pk_progress st)) = [200] \<and> advance (pk_progress st) = (pk_progress st, None)"
proof -
  obtain st r where run: "peek_messages sample_cdc_env ''slot'' 5 (sample_tx 50 200)
      (peek_start (default_progress\<lparr>consumed := 100\<rparr>)) = (st, r)"
    by fastforce
  then have "r = Inr ()" and T: "transactions (pk_progress st) =
      [(200, \<lparr>tx_changes = {50}, tx_complete = True, tx_acked = {}\<rparr>)]"
    by (auto simp: sample_tx_def peek_message_def peek_start_def default_progress_def Let_def
        default_transaction_def)
  moreover have "advance (pk_progress st) = (pk_progress st, None)"
    by (simp add: advance_def advance_from.simps T)
  ultimately show ?thesis
    using run cdc_interleaved_change_withheld [OF run, of 50] by (simp add: default_progress_def)
qed

text \<open>
  The reading loop of a peek ends: from the first limit its nine rounds of fuel are enough, whatever
  the slot returns.
\<close>

theorem cdc_peek_loop_ends:
  "peek_loop 9 rows p mx (first_limit p mx) \<noteq> None"
proof -
  have "peek_loop (Suc 8) rows p mx (first_limit p mx) \<noteq> None"
    by (rule peek_loop_fuel) (simp_all add: first_limit_def MAX_PEEK_ROWS_def)
  then show ?thesis by simp
qed

end
