(* ===== verification/Auth.thy ===== *)
theory Auth
  imports Errors
begin

text \<open>
  The configuration half of \<open>src/auth/mod.rs\<close>: the four token-auth schemes, their shape checks and
  the projection of their errors.  The providers themselves are in the theory
  \<open>Rotation\<close>.
\<close>

section \<open>Definitions\<close>

datatype auth_error =
    NotImplemented str
  | InvalidConfig msg
  | FetchError msg

datatype auth_config =
    RdsIam (rds_region: str) (rds_username: str) (rds_profile: "str option")
  | AzureAd (azure_scope: str) (azure_tenant: "str option")
  | GcpIam (gcp_username: str)
  | AuroraFailover (aurora_endpoints: "str list")

text \<open>\<open>render\<close> is the text of a message, as in \<open>to_backend_error\<close>.\<close>

definition from_auth_error :: "(msg \<Rightarrow> str) \<Rightarrow> auth_error \<Rightarrow> sql_error" where
  "from_auth_error render e =
     (case e of
        InvalidConfig m \<Rightarrow> invalid ''auth config: '' [render m]
      | NotImplemented scheme \<Rightarrow> invalid ''auth scheme is scaffolded but not yet supported'' [scheme]
      | FetchError m \<Rightarrow> Connect (OtherSqlx (''auth fetch: '' @ render m)))"

definition auth_scheme :: "auth_config \<Rightarrow> str" where
  "auth_scheme cfg =
     (case cfg of
        RdsIam _ _ _ \<Rightarrow> ''rds_iam''
      | AzureAd _ _ \<Rightarrow> ''azure_ad''
      | GcpIam _ \<Rightarrow> ''gcp_iam''
      | AuroraFailover _ \<Rightarrow> ''aurora_failover'')"

definition auth_config_validate :: "auth_config \<Rightarrow> auth_error + unit" where
  "auth_config_validate cfg =
     (case cfg of
        RdsIam region username _ \<Rightarrow>
          and_then (reject_if (is_blank region) (InvalidConfig (Msg ''rds_iam.region is required'' [])))
            (\<lambda>_. reject_if (is_blank username)
                   (InvalidConfig (Msg ''rds_iam.username is required'' [])))
      | AzureAd scope _ \<Rightarrow>
          reject_if (is_blank scope) (InvalidConfig (Msg ''azure_ad.scope must be non-empty'' []))
      | GcpIam username \<Rightarrow>
          reject_if (is_blank username) (InvalidConfig (Msg ''gcp_iam.username is required'' []))
      | AuroraFailover endpoints \<Rightarrow>
          reject_if (endpoints = [])
            (InvalidConfig (Msg ''aurora_failover.endpoints must list at least one host'' [])))"

section \<open>Lemmas\<close>

text \<open>Only a failed token fetch becomes a connection error; the others refuse the configuration.\<close>

lemma from_auth_error_cases:
  "(\<exists>m. from_auth_error render e = InvalidSpec m) \<longleftrightarrow> (\<forall>m. e \<noteq> FetchError m)"
  by (cases e) (simp_all add: from_auth_error_def)

lemma auth_config_validate_ok:
  "auth_config_validate cfg = Inr () \<longleftrightarrow>
     (case cfg of
        RdsIam region username _ \<Rightarrow> \<not> is_blank region \<and> \<not> is_blank username
      | AzureAd scope _ \<Rightarrow> \<not> is_blank scope
      | GcpIam username \<Rightarrow> \<not> is_blank username
      | AuroraFailover endpoints \<Rightarrow> endpoints \<noteq> [])"
  by (simp add: auth_config_validate_def split: auth_config.splits)

end
