(* ===== verification/Breaker.thy ===== *)
theory Breaker
  imports Errors
begin

text \<open>
  \<open>src/breaker.rs\<close>: the per-binding circuit breaker.  The record has the fields of
  \<open>CircuitBreaker\<close>; instants are nanoseconds of the monotonic clock.  Two semantics are given: one in
  which \<open>try_admit\<close> and \<open>record\<close> run without interference (\<open>cb_step\<close>, over the breaker and the guards
  alive), whose reachable states satisfy \<open>cb_inv\<close>, and one at the granularity of the atomic
  accesses inside \<open>try_admit\<close> (\<open>admit_step\<close>), which admits two probes.
\<close>

section \<open>Configuration\<close>

record breaker_config =
  failure_threshold :: u32
  cooldown_ms :: u64

definition default_breaker_config :: breaker_config where
  "default_breaker_config = \<lparr>failure_threshold = 5, cooldown_ms = 30000\<rparr>"

definition breaker_config_validate :: "breaker_config \<Rightarrow> unit sql_result" where
  "breaker_config_validate c =
     (if failure_threshold c = 0 then
        Inl (invalid ''circuit_breaker.failure_threshold must be > 0'' [])
      else if cooldown_ms c = 0 then
        Inl (invalid ''circuit_breaker.cooldown_ms must be > 0'' [])
      else Inr ())"

section \<open>State\<close>

datatype circuit_state = Closed | Open | HalfOpen

definition circuit_load :: "u8 \<Rightarrow> circuit_state" where
  "circuit_load v =
     (if v = 0 then Closed else if v = 1 then Open else if v = 2 then HalfOpen else Closed)"

definition circuit_store :: "circuit_state \<Rightarrow> u8" where
  "circuit_store s = (case s of Closed \<Rightarrow> 0 | Open \<Rightarrow> 1 | HalfOpen \<Rightarrow> 2)"

record breaker =
  cb_config :: breaker_config
  consecutive_failures :: u32
  opened_at :: "nat option"
  probe_in_flight :: bool
  total_trips :: u64
  cb_state :: u8

definition breaker_new :: "breaker_config \<Rightarrow> breaker" where
  "breaker_new config =
     \<lparr>cb_config = config, consecutive_failures = 0, opened_at = None, probe_in_flight = False,
      total_trips = 0, cb_state = circuit_store Closed\<rparr>"

abbreviation state_of :: "breaker \<Rightarrow> circuit_state" where
  "state_of b \<equiv> circuit_load (cb_state b)"

definition breaker_snapshot :: "breaker \<Rightarrow> circuit_state \<times> u32 \<times> u64" where
  "breaker_snapshot b = (state_of b, consecutive_failures b, total_trips b)"

section \<open>Operations\<close>

definition cooldown_elapsed :: "nat \<Rightarrow> breaker \<Rightarrow> bool" where
  "cooldown_elapsed now b =
     (case opened_at b of
        Some t \<Rightarrow> now - t \<ge> unat (cooldown_ms (cb_config b)) * 1000000
      | None \<Rightarrow> True)"

definition fast_fail_error :: sql_error where
  "fast_fail_error = Driver PoolClosed"

text \<open>The result is the guard's \<open>probe\<close> flag.\<close>

definition try_admit :: "nat \<Rightarrow> breaker \<Rightarrow> breaker \<times> bool sql_result" where
  "try_admit now b =
     (case state_of b of
        Closed \<Rightarrow> (b, Inr False)
      | Open \<Rightarrow>
          if cooldown_elapsed now b then
            (b\<lparr>cb_state := circuit_store HalfOpen, probe_in_flight := True\<rparr>, Inr True)
          else (b, Inl fast_fail_error)
      | HalfOpen \<Rightarrow>
          if \<not> probe_in_flight b then (b\<lparr>probe_in_flight := True\<rparr>, Inr True)
          else (b, Inl fast_fail_error))"

definition record_success :: "bool \<Rightarrow> breaker \<Rightarrow> breaker" where
  "record_success was_probe b =
     (let b = b\<lparr>consecutive_failures := 0\<rparr>
      in if was_probe then
           b\<lparr>probe_in_flight := False, cb_state := circuit_store Closed, opened_at := None\<rparr>
         else b)"

definition record_failure :: "nat \<Rightarrow> bool \<Rightarrow> breaker \<Rightarrow> breaker" where
  "record_failure now was_probe b =
     (if was_probe then
        b\<lparr>probe_in_flight := False, cb_state := circuit_store Open, opened_at := Some now\<rparr>
      else
        (let n = consecutive_failures b + 1; b = b\<lparr>consecutive_failures := n\<rparr>
         in if failure_threshold (cb_config b) \<le> n \<and> cb_state b = circuit_store Closed then
              b\<lparr>cb_state := circuit_store Open, opened_at := Some now,
                total_trips := total_trips b + 1\<rparr>
            else b))"

text \<open>\<open>AdmitGuard::record\<close>, and \<open>Drop\<close> of a guard never recorded.\<close>

definition guard_record :: "nat \<Rightarrow> bool \<Rightarrow> bool \<Rightarrow> breaker \<Rightarrow> breaker" where
  "guard_record now probe success b =
     (if success then record_success probe b else record_failure now probe b)"

definition guard_drop :: "bool \<Rightarrow> breaker \<Rightarrow> breaker" where
  "guard_drop probe b = record_success probe b"

section \<open>Runs of whole operations\<close>

text \<open>The breaker and the probe flags of the guards that are alive.\<close>

type_synonym cb_sys = "breaker \<times> bool list"

inductive cb_step :: "cb_sys \<Rightarrow> cb_sys \<Rightarrow> bool" where
  admit: "try_admit now b = (b', Inr probe) \<Longrightarrow> cb_step (b, gs) (b', probe # gs)"
| refuse: "try_admit now b = (b', Inl e) \<Longrightarrow> cb_step (b, gs) (b', gs)"
| outcome: "gs = gs1 @ probe # gs2 \<Longrightarrow>
     cb_step (b, gs) (guard_record now probe success b, gs1 @ gs2)"
| dropped: "gs = gs1 @ probe # gs2 \<Longrightarrow> cb_step (b, gs) (guard_drop probe b, gs1 @ gs2)"

inductive_cases cb_stepE: "cb_step (b, gs) (b', gs')"

definition cb_init :: "cb_sys \<Rightarrow> bool" where
  "cb_init s \<longleftrightarrow>
     (\<exists>config. breaker_config_validate config = Inr () \<and> s = (breaker_new config, []))"

text \<open>The three values \<open>AtomicCircuitState\<close> stores.\<close>

definition valid_tag :: "u8 \<Rightarrow> bool" where
  "valid_tag v \<longleftrightarrow> v \<in> {0, 1, 2}"

definition cb_inv :: "cb_sys \<Rightarrow> bool" where
  "cb_inv s = (case s of (b, gs) \<Rightarrow>
     valid_tag (cb_state b) \<and>
     failure_threshold (cb_config b) \<noteq> 0 \<and>
     (probe_in_flight b \<longleftrightarrow> state_of b = HalfOpen) \<and>
     length (filter id gs) = (if state_of b = HalfOpen then 1 else 0) \<and>
     (state_of b = Closed \<longrightarrow> consecutive_failures b < failure_threshold (cb_config b)) \<and>
     (state_of b = Open \<longrightarrow> opened_at b \<noteq> None))"

section \<open>Interleaving inside \<open>try_admit\<close>\<close>

text \<open>
  A caller of \<open>try_admit\<close> at its atomic accesses: the load of the state, the cooldown check, the two
  stores of the \<open>Open\<close> arm, the compare-exchange of the \<open>HalfOpen\<close> arm.
\<close>

datatype admit_pc =
    AtStart
  | SawOpen
  | CooldownOk
  | StoredHalfOpen
  | SawHalfOpen
  | Admitted bool
  | Refused

fun admit_micro :: "nat \<Rightarrow> admit_pc \<Rightarrow> breaker \<Rightarrow> admit_pc \<times> breaker" where
  "admit_micro now AtStart b =
     ((case state_of b of Closed \<Rightarrow> Admitted False | Open \<Rightarrow> SawOpen | HalfOpen \<Rightarrow> SawHalfOpen), b)"
| "admit_micro now SawOpen b = ((if cooldown_elapsed now b then CooldownOk else Refused), b)"
| "admit_micro now CooldownOk b = (StoredHalfOpen, b\<lparr>cb_state := circuit_store HalfOpen\<rparr>)"
| "admit_micro now StoredHalfOpen b = (Admitted True, b\<lparr>probe_in_flight := True\<rparr>)"
| "admit_micro now SawHalfOpen b =
     (if \<not> probe_in_flight b then (Admitted True, b\<lparr>probe_in_flight := True\<rparr>) else (Refused, b))"
| "admit_micro now (Admitted p) b = (Admitted p, b)"
| "admit_micro now Refused b = (Refused, b)"

text \<open>One caller of a group takes one access.\<close>

inductive admit_step :: "nat \<Rightarrow> (nat \<Rightarrow> admit_pc) \<times> breaker \<Rightarrow> (nat \<Rightarrow> admit_pc) \<times> breaker \<Rightarrow> bool"
  for now where
  "admit_micro now (pcs i) b = (pc, b') \<Longrightarrow> admit_step now (pcs, b) (pcs(i := pc), b')"

text \<open>One caller alone: the accesses one after the other.\<close>

fun admit_run :: "nat \<Rightarrow> nat \<Rightarrow> admit_pc \<Rightarrow> breaker \<Rightarrow> admit_pc \<times> breaker" where
  "admit_run 0 now pc b = (pc, b)"
| "admit_run (Suc k) now pc b = (case admit_micro now pc b of (pc', b') \<Rightarrow> admit_run k now pc' b')"

section \<open>Lemmas\<close>

lemma circuit_load_store [simp]: "circuit_load (circuit_store s) = s"
  by (cases s) (simp_all add: circuit_load_def circuit_store_def)

lemma valid_tag_store [simp]: "valid_tag (circuit_store s)"
  by (cases s) (simp_all add: circuit_store_def valid_tag_def)

lemma circuit_load_Closed: "valid_tag v \<Longrightarrow> v = circuit_store Closed \<longleftrightarrow> circuit_load v = Closed"
  by (auto simp: circuit_load_def circuit_store_def valid_tag_def)

lemma cb_inv_init: "cb_init s \<Longrightarrow> cb_inv s"
  by (auto simp: cb_init_def cb_inv_def breaker_new_def breaker_config_validate_def
      word_gt_0 split: if_splits)

lemma cb_inv_admit:
  "cb_inv (b, gs) \<Longrightarrow> try_admit now b = (b', r) \<Longrightarrow>
     cb_inv (b', case r of Inr probe \<Rightarrow> probe # gs | Inl _ \<Rightarrow> gs)"
  by (auto simp: cb_inv_def try_admit_def split: circuit_state.splits if_splits)

lemma cb_inv_success:
  "cb_inv (b, gs1 @ probe # gs2) \<Longrightarrow> cb_inv (record_success probe b, gs1 @ gs2)"
  by (cases probe)
    (auto simp: cb_inv_def record_success_def Let_def word_gt_0
      split: if_splits)

lemma cb_inv_failure:
  "cb_inv (b, gs1 @ probe # gs2) \<Longrightarrow> cb_inv (record_failure now probe b, gs1 @ gs2)"
  by (cases probe)
    (auto simp: cb_inv_def record_failure_def Let_def circuit_load_Closed
      not_le split: if_splits)

lemma cb_inv_step: "cb_inv s \<Longrightarrow> cb_step s t \<Longrightarrow> cb_inv t"
  by (erule cb_step.cases)
    (auto simp: guard_record_def guard_drop_def dest: cb_inv_admit cb_inv_success cb_inv_failure)

interpretation cb: transition_invariant cb_init cb_step cb_inv
  by unfold_locales (fact cb_inv_init, fact cb_inv_step)

text \<open>The steps of a lone caller amount to \<open>try_admit\<close>.\<close>

lemma admit_run_alone:
  "admit_run 4 now AtStart b =
     (case try_admit now b of
        (b', Inr probe) \<Rightarrow> (Admitted probe, b')
      | (b', Inl _) \<Rightarrow> (Refused, b'))"
  by (simp add: try_admit_def numeral_eq_Suc split: circuit_state.splits)

text \<open>A run of failing calls, each admitted and recorded before the next.\<close>

fun failing_calls :: "nat list \<Rightarrow> breaker \<Rightarrow> breaker" where
  "failing_calls [] b = b"
| "failing_calls (now # nows) b =
     (case try_admit now b of
        (b', Inr probe) \<Rightarrow> failing_calls nows (guard_record now probe False b')
      | (b', Inl _) \<Rightarrow> failing_calls nows b')"

lemma failing_calls_closed:
  assumes "state_of b = Closed" and "valid_tag (cb_state b)"
    and "unat (consecutive_failures b) + length nows < unat (failure_threshold (cb_config b))"
  shows "failing_calls nows b =
           b\<lparr>consecutive_failures := consecutive_failures b + of_nat (length nows)\<rparr>"
  using assms
proof (induction nows arbitrary: b)
  case Nil
  then show ?case by simp
next
  case (Cons now nows)
  let ?b = "b\<lparr>consecutive_failures := consecutive_failures b + 1\<rparr>"
  have lt: "unat (consecutive_failures b) + 1 < unat (failure_threshold (cb_config b))"
    using Cons.prems(3) by simp
  then have un: "unat (consecutive_failures b + 1) = unat (consecutive_failures b) + 1"
    using unsigned_less [where 'a = nat, of "failure_threshold (cb_config b)"]
    by (simp add: unat_word_ariths)
  with lt have "\<not> failure_threshold (cb_config b) \<le> consecutive_failures b + 1"
    by (simp add: word_le_nat_alt)
  then have "failing_calls (now # nows) b = failing_calls nows ?b"
    using Cons.prems(1)
    by (simp add: try_admit_def guard_record_def record_failure_def Let_def)
  also have "\<dots> = ?b\<lparr>consecutive_failures := consecutive_failures ?b + of_nat (length nows)\<rparr>"
    using Cons.prems un by (intro Cons.IH) auto
  finally show ?case by (simp add: add.assoc)
qed

lemma failing_calls_append:
  "failing_calls (xs @ ys) b = failing_calls ys (failing_calls xs b)"
  by (induction xs arbitrary: b) (auto split: prod.splits sum.splits)

text \<open>A breaker with the default configuration, opened by five failures.\<close>

definition tripped_example :: breaker where
  "tripped_example =
     \<lparr>cb_config = default_breaker_config, consecutive_failures = 5, opened_at = Some 5,
      probe_in_flight = False, total_trips = 1, cb_state = circuit_store Open\<rparr>"

lemma tripped_example_run:
  "failing_calls [1, 2, 3, 4, 5] (breaker_new default_breaker_config) = tripped_example"
proof -
  let ?b = "breaker_new default_breaker_config"
  have cfg: "failure_threshold default_breaker_config = 5"
    by (simp add: default_breaker_config_def)
  have "failing_calls [1, 2, 3, 4] ?b = ?b\<lparr>consecutive_failures := 4\<rparr>"
    using failing_calls_closed [of ?b "[1, 2, 3, 4]"] cfg by (simp add: breaker_new_def)
  then have "failing_calls ([1, 2, 3, 4] @ [5]) ?b = tripped_example"
    unfolding failing_calls_append
    by (simp add: breaker_new_def try_admit_def guard_record_def record_failure_def cfg
        tripped_example_def)
  then show ?thesis by simp
qed

lemma tripped_example_facts:
  "state_of tripped_example = Open" "opened_at tripped_example = Some 5"
  "cb_config tripped_example = default_breaker_config"
  "cooldown_elapsed 40000000000 tripped_example"
  by (simp_all add: tripped_example_def cooldown_elapsed_def default_breaker_config_def)

section \<open>Properties\<close>

text \<open>
  C8. In every state reachable by whole calls of \<open>try_admit\<close>, \<open>record\<close> and guard drops from a new
  breaker with a validated configuration: the probe flag is set exactly in \<open>HalfOpen\<close>, in which
  exactly one live guard is the probe, and no probe guard is alive otherwise; a \<open>Closed\<close> breaker
  is below its threshold; an \<open>Open\<close> one knows when it opened.
\<close>

theorem breaker_reachable_inv:
  assumes "cb_init s" and "cb_step\<^sup>*\<^sup>* s t"
  shows "cb_inv t"
  using assms by (rule cb.reachable_inv)

theorem breaker_reachable_inv_witness:
  "cb_inv (breaker_new default_breaker_config, [False])"
proof -
  have i: "cb_init (breaker_new default_breaker_config, [])"
    unfolding cb_init_def
    by (intro exI [of _ default_breaker_config])
      (simp add: default_breaker_config_def breaker_config_validate_def)
  have "try_admit 0 (breaker_new default_breaker_config) =
      (breaker_new default_breaker_config, Inr False)"
    by (simp add: try_admit_def breaker_new_def)
  then have "cb_step (breaker_new default_breaker_config, [])
      (breaker_new default_breaker_config, [False])"
    by (rule cb_step.admit)
  then show ?thesis using breaker_reachable_inv [OF i] by blast
qed

text \<open>
  From a new breaker, failing calls leave it \<open>Closed\<close> while there are fewer than
  \<open>failure_threshold\<close> of them; the call that reaches the threshold opens it at its own time and
  counts one trip.
\<close>

theorem breaker_trips_at_threshold:
  assumes "Suc (length nows) = unat (failure_threshold config)"
  shows "state_of (failing_calls nows (breaker_new config)) = Closed \<and>
         state_of (failing_calls (nows @ [now]) (breaker_new config)) = Open \<and>
         opened_at (failing_calls (nows @ [now]) (breaker_new config)) = Some now \<and>
         total_trips (failing_calls (nows @ [now]) (breaker_new config)) = 1"
proof -
  let ?b = "breaker_new config"
  have b: "state_of ?b = Closed" "consecutive_failures ?b = 0" "cb_config ?b = config"
    "total_trips ?b = 0" "cb_state ?b = circuit_store Closed"
    by (simp_all add: breaker_new_def)
  have eq: "failing_calls nows ?b = ?b\<lparr>consecutive_failures := of_nat (length nows)\<rparr>"
    using failing_calls_closed [of ?b nows] b assms by simp
  have "of_nat (Suc (length nows)) = failure_threshold config"
    unfolding assms by simp
  then have "of_nat (length nows) + 1 = failure_threshold config" by (simp add: add.commute)
  then show ?thesis
    unfolding failing_calls_append eq
    by (simp add: try_admit_def guard_record_def record_failure_def Let_def b)
qed

theorem breaker_trips_at_threshold_witness:
  "state_of (failing_calls [1, 2, 3, 4, 5] (breaker_new default_breaker_config)) = Open"
  using breaker_trips_at_threshold [of "[1, 2, 3, 4]" default_breaker_config 5]
  by (simp add: default_breaker_config_def)

text \<open>
  An open breaker refuses every call until its cooldown has passed since it opened, leaving
  its state as it is; the first call after that is admitted as the probe, a second one is refused
  while the probe runs, a successful probe closes the breaker with a clean count, and a failed one
  opens it for another full cooldown from the time of the failure.
\<close>

theorem breaker_open_cycle:
  assumes "state_of b = Open" and "opened_at b = Some t"
    and "try_admit now b = (b', r)"
  shows "if now - t < unat (cooldown_ms (cb_config b)) * 1000000
         then b' = b \<and> r = Inl fast_fail_error
         else r = Inr True \<and> state_of b' = HalfOpen \<and>
              try_admit later b' = (b', Inl fast_fail_error) \<and>
              (let c = guard_record fin True True b' in
                 state_of c = Closed \<and> consecutive_failures c = 0 \<and> opened_at c = None \<and>
                 \<not> probe_in_flight c) \<and>
              (let c = guard_record fin True False b' in
                 state_of c = Open \<and> opened_at c = Some fin \<and> \<not> probe_in_flight c)"
  using assms
  by (auto simp: try_admit_def cooldown_elapsed_def guard_record_def record_success_def
      record_failure_def Let_def)

theorem breaker_open_cycle_witness:
  "\<exists>b r. try_admit 40000000000 (failing_calls [1, 2, 3, 4, 5] (breaker_new default_breaker_config)) =
     (b, r) \<and> r = Inr True \<and> state_of b = HalfOpen"
proof -
  obtain b' r where eq: "try_admit 40000000000 tripped_example = (b', r)" by fastforce
  then show ?thesis
    using breaker_open_cycle [OF tripped_example_facts(1,2) eq, of 0 0] tripped_example_facts(3)
    unfolding tripped_example_run by (simp add: default_breaker_config_def)
qed

text \<open>
  At the granularity of its atomic accesses, \<open>try_admit\<close> lets two callers in as probes: both
  load \<open>Open\<close> and find the cooldown over before either stores \<open>HalfOpen\<close>, and the \<open>Open\<close> arm sets
  the probe flag without testing it.  The module's \<open>one probe in flight at a time\<close> does not hold
  between concurrent callers.
\<close>

theorem breaker_two_probes_race:
  assumes "state_of b = Open" and "cooldown_elapsed now b"
  shows "\<exists>pcs b'. (admit_step now)\<^sup>*\<^sup>* ((\<lambda>_. AtStart), b) (pcs, b') \<and>
           pcs 0 = Admitted True \<and> pcs 1 = Admitted True"
proof -
  let ?s = "admit_step now"
  let ?h = "b\<lparr>cb_state := circuit_store HalfOpen\<rparr>"
  let ?p = "?h\<lparr>probe_in_flight := True\<rparr>"
  define p0 :: "nat \<Rightarrow> admit_pc" where "p0 = (\<lambda>_. AtStart)"
  have 1: "?s (p0, b) (p0(0 := SawOpen), b)"
    using assms by (intro admit_step.intros) (simp add: p0_def)
  have 2: "?s (p0(0 := SawOpen), b) (p0(0 := SawOpen, 1 := SawOpen), b)"
    using assms by (intro admit_step.intros) (simp add: p0_def)
  have 3: "?s (p0(0 := SawOpen, 1 := SawOpen), b)
      ((p0(0 := SawOpen, 1 := SawOpen))(0 := CooldownOk), b)"
    using assms by (intro admit_step.intros) simp
  have 4: "?s ((p0(0 := SawOpen, 1 := SawOpen))(0 := CooldownOk), b)
      ((p0(0 := SawOpen, 1 := SawOpen))(0 := CooldownOk, 1 := CooldownOk), b)"
    using assms by (intro admit_step.intros) simp
  define p1 where "p1 = (p0(0 := SawOpen, 1 := SawOpen))(0 := CooldownOk, 1 := CooldownOk)"
  have 5: "?s (p1, b) (p1(0 := StoredHalfOpen), ?h)"
    by (intro admit_step.intros) (simp add: p1_def)
  have 6: "?s (p1(0 := StoredHalfOpen), ?h) (p1(0 := StoredHalfOpen, 0 := Admitted True), ?p)"
    by (intro admit_step.intros) simp
  define p2 where "p2 = p1(0 := StoredHalfOpen, 0 := Admitted True)"
  have 7: "?s (p2, ?p) (p2(1 := StoredHalfOpen), ?p)"
    by (intro admit_step.intros) (simp add: p2_def p1_def)
  have 8: "?s (p2(1 := StoredHalfOpen), ?p) (p2(1 := StoredHalfOpen, 1 := Admitted True), ?p)"
    by (intro admit_step.intros) simp
  have "?s\<^sup>*\<^sup>* (p0, b) (p2(1 := StoredHalfOpen, 1 := Admitted True), ?p)"
    using 1 2 3 4 5 6 7 8 unfolding p2_def [symmetric] p1_def [symmetric]
    by (meson converse_rtranclp_into_rtranclp rtranclp.rtrancl_refl)
  then show ?thesis
    unfolding p0_def
    by (intro exI [of _ "p2(1 := StoredHalfOpen, 1 := Admitted True)"] exI [of _ ?p])
      (simp add: p2_def)
qed

theorem breaker_two_probes_race_witness:
  "\<exists>pcs b'. (admit_step 40000000000)\<^sup>*\<^sup>*
       ((\<lambda>_. AtStart), failing_calls [1, 2, 3, 4, 5] (breaker_new default_breaker_config)) (pcs, b') \<and>
     pcs 0 = Admitted True \<and> pcs 1 = Admitted True"
  unfolding tripped_example_run
  by (rule breaker_two_probes_race [OF tripped_example_facts(1,4)])

end
