(* ===== verification/Params.thy ===== *)
theory Params
  imports Errors
begin

text \<open>
  \<open>src/params.rs\<close>: rewriting of \<open>:name\<close> placeholders to the driver's positional form, \<open>CALL\<close>
  statements, and collection of the bound parameters.  The byte loop of \<open>rewrite_placeholders\<close> is a
  recursion on the rest of the SQL that carries the two quote flags and the number of names found.
  The theorems compare it with a token-level reading of SQL, show that its output is a fixed point,
  and say exactly which SQL text it leaves as it is.
\<close>

section \<open>Data\<close>

datatype driver_kind = Postgres | Mysql | Mariadb | Sqlite

definition driver_as_str :: "driver_kind \<Rightarrow> str" where
  "driver_as_str d =
     (case d of Postgres \<Rightarrow> ''postgres'' | Mysql \<Rightarrow> ''mysql'' | Mariadb \<Rightarrow> ''mariadb''
      | Sqlite \<Rightarrow> ''sqlite'')"

record bound_param =
  bp_name :: str
  bp_value :: json

record prepared_stmt =
  ps_sql :: str
  ps_param_order :: "str list"
  ps_driver :: driver_kind

abbreviation squote :: char where "squote \<equiv> CHR 0x27"
abbreviation dquote :: char where "dquote \<equiv> CHR 0x22"
abbreviation colon :: char where "colon \<equiv> CHR 0x3A"

section \<open>Operations\<close>

text \<open>The driver's form of the \<open>i\<close>-th placeholder.\<close>

definition native_placeholder :: "driver_kind \<Rightarrow> nat \<Rightarrow> str" where
  "native_placeholder d i = (case d of Postgres \<Rightarrow> ''$'' @ show_nat i | _ \<Rightarrow> ''?'')"

function rewrite_from :: "driver_kind \<Rightarrow> bool \<Rightarrow> bool \<Rightarrow> nat \<Rightarrow> str \<Rightarrow> str \<times> str list" where
  "rewrite_from d in_single in_double n [] = ([], [])"
| "rewrite_from d in_single in_double n (c # cs) =
     (if c = squote \<and> \<not> in_double then
        apfst (append (push_byte_as_char c)) (rewrite_from d (\<not> in_single) in_double n cs)
      else if c = dquote \<and> \<not> in_single then
        apfst (append (push_byte_as_char c)) (rewrite_from d in_single (\<not> in_double) n cs)
      else if c = colon \<and> \<not> in_single \<and> \<not> in_double then
        if cs \<noteq> [] \<and> hd cs = colon then
          apfst (append [colon, colon]) (rewrite_from d in_single in_double n (tl cs))
        else if takeWhile is_ident_byte cs = [] then
          apfst (append [colon]) (rewrite_from d in_single in_double n cs)
        else
          map_prod (append (native_placeholder d (Suc n))) (Cons (takeWhile is_ident_byte cs))
            (rewrite_from d in_single in_double (Suc n) (dropWhile is_ident_byte cs))
      else
        apfst (append (push_byte_as_char c)) (rewrite_from d in_single in_double n cs))"
  by pat_completeness auto
termination
  by (relation "measure (\<lambda>(d, sq, dq, n, s). length s)")
    (auto simp: less_Suc_eq_le length_dropWhile_le)

definition rewrite_placeholders :: "str \<Rightarrow> driver_kind \<Rightarrow> str \<times> str list" where
  "rewrite_placeholders sql d = rewrite_from d False False 0 sql"

definition call_statement :: "str \<Rightarrow> nat \<Rightarrow> driver_kind \<Rightarrow> str" where
  "call_statement procedure arity d =
     ''CALL '' @ procedure @ ''('' @ join '', '' (map (native_placeholder d) [1..<Suc arity]) @ '')''"

fun collect_from :: "json omap \<Rightarrow> str list \<Rightarrow> bound_param list sql_result" where
  "collect_from obj [] = Inr []"
| "collect_from obj (name # names) =
     (case omap_get obj name of
        None \<Rightarrow> Inl (invalid ''missing required parameter'' [name])
      | Some value \<Rightarrow>
          and_then (collect_from obj names)
            (\<lambda>rest. Inr (\<lparr>bp_name = name, bp_value = value\<rparr> # rest)))"

definition collect_bound_params :: "json \<Rightarrow> str list \<Rightarrow> bound_param list sql_result" where
  "collect_bound_params args param_order =
     (case args of
        JObj obj \<Rightarrow> collect_from obj param_order
      | JNull \<Rightarrow>
          (case param_order of
             [] \<Rightarrow> Inr []
           | name # _ \<Rightarrow>
               Inl (invalid ''tool arguments must be an object when parameters are declared'' [name]))
      | _ \<Rightarrow> Inl (invalid ''tool arguments must be a JSON object'' []))"

section \<open>Tokens: the reference reading of a statement\<close>

text \<open>
  A statement is a sequence of bytes copied as they are, \<open>::\<close> casts, and placeholders.
  \<open>well_lexed\<close> says when a token sequence is the reading of its own text: casts and placeholders
  stand outside quotes, a placeholder's name is the longest run of identifier bytes, and a colon
  outside quotes is copied only when neither follows.
\<close>

datatype tok = Raw char | Cast | Ph str

fun tok_text :: "tok \<Rightarrow> str" where
  "tok_text (Raw c) = [c]"
| "tok_text Cast = [colon, colon]"
| "tok_text (Ph name) = colon # name"

definition text_of :: "tok list \<Rightarrow> str" where
  "text_of ts = concat (map tok_text ts)"

fun names_of :: "tok list \<Rightarrow> str list" where
  "names_of [] = []"
| "names_of (Ph name # ts) = name # names_of ts"
| "names_of (_ # ts) = names_of ts"

fun render :: "driver_kind \<Rightarrow> nat \<Rightarrow> tok list \<Rightarrow> str" where
  "render d n [] = []"
| "render d n (Raw c # ts) = push_byte_as_char c @ render d n ts"
| "render d n (Cast # ts) = [colon, colon] @ render d n ts"
| "render d n (Ph name # ts) = native_placeholder d (Suc n) @ render d (Suc n) ts"

definition starts_with :: "(char \<Rightarrow> bool) \<Rightarrow> str \<Rightarrow> bool" where
  "starts_with P s \<longleftrightarrow> s \<noteq> [] \<and> P (hd s)"

fun well_lexed :: "bool \<Rightarrow> bool \<Rightarrow> tok list \<Rightarrow> bool" where
  "well_lexed sq dq [] = True"
| "well_lexed sq dq (Raw c # ts) =
     ((c = colon \<and> \<not> sq \<and> \<not> dq \<longrightarrow>
         \<not> starts_with (\<lambda>b. b = colon \<or> is_ident_byte b) (text_of ts)) \<and>
      well_lexed (if c = squote \<and> \<not> dq then \<not> sq else sq)
                 (if c = dquote \<and> \<not> sq then \<not> dq else dq) ts)"
| "well_lexed sq dq (Cast # ts) = (\<not> sq \<and> \<not> dq \<and> well_lexed sq dq ts)"
| "well_lexed sq dq (Ph name # ts) =
     (\<not> sq \<and> \<not> dq \<and> name \<noteq> [] \<and> (\<forall>b \<in> set name. is_ident_byte b) \<and>
      \<not> starts_with is_ident_byte (text_of ts) \<and> well_lexed sq dq ts)"

section \<open>Lemmas\<close>

lemma text_of_simps [simp]:
  "text_of [] = []"
  "text_of (t # ts) = tok_text t @ text_of ts"
  by (simp_all add: text_of_def)

lemma starts_with_simps [simp]:
  "starts_with P [] = False"
  "starts_with P (c # s) = P c"
  by (simp_all add: starts_with_def)

lemma is_ident_byte_ascii: "is_ident_byte c \<Longrightarrow> is_ascii c"
  by (auto simp: bytes_simps)

lemma not_ident_punct [simp]:
  "\<not> is_ident_byte colon" "\<not> is_ident_byte squote" "\<not> is_ident_byte dquote"
  "\<not> is_ident_byte (CHR ''$'')" "\<not> is_ident_byte (CHR ''?'')"
  by (simp_all add: bytes_simps)

lemma native_placeholder_nonempty [simp]: "native_placeholder d i \<noteq> []"
  by (simp add: native_placeholder_def split: driver_kind.splits)

lemma takeWhile_eq_Nil_starts: "takeWhile P s = [] \<longleftrightarrow> \<not> starts_with P s"
  by (cases s) auto

text \<open>One equation per arm of the \<open>match\<close> in the loop.\<close>

lemma rewrite_from_squote:
  assumes "c = squote \<and> \<not> dq"
  shows "rewrite_from d sq dq n (c # cs) =
           apfst (append (push_byte_as_char c)) (rewrite_from d (\<not> sq) dq n cs)"
  using assms by (simp only: rewrite_from.simps if_True simp_thms)

lemma rewrite_from_dquote:
  assumes "\<not> (c = squote \<and> \<not> dq)" and "c = dquote \<and> \<not> sq"
  shows "rewrite_from d sq dq n (c # cs) =
           apfst (append (push_byte_as_char c)) (rewrite_from d sq (\<not> dq) n cs)"
  unfolding rewrite_from.simps if_not_P [OF assms(1)] if_P [OF assms(2)] ..

lemma rewrite_from_cast:
  assumes "\<not> sq" and "\<not> dq"
  shows "rewrite_from d sq dq n (colon # colon # cs) =
           apfst (append [colon, colon]) (rewrite_from d sq dq n cs)"
  using assms by simp

lemma rewrite_from_lone:
  assumes "\<not> sq" and "\<not> dq" and "\<not> starts_with (\<lambda>b. b = colon \<or> is_ident_byte b) cs"
  shows "rewrite_from d sq dq n (colon # cs) = apfst (append [colon]) (rewrite_from d sq dq n cs)"
  using assms by (cases cs) auto

lemma rewrite_from_name:
  assumes "\<not> sq" and "\<not> dq" and "starts_with is_ident_byte cs"
  shows "rewrite_from d sq dq n (colon # cs) =
           map_prod (append (native_placeholder d (Suc n))) (Cons (takeWhile is_ident_byte cs))
             (rewrite_from d sq dq (Suc n) (dropWhile is_ident_byte cs))"
  using assms by (cases cs) auto

lemma rewrite_from_raw:
  assumes "\<not> (c = squote \<and> \<not> dq)" and "\<not> (c = dquote \<and> \<not> sq)"
    and "\<not> (c = colon \<and> \<not> sq \<and> \<not> dq)"
  shows "rewrite_from d sq dq n (c # cs) =
           apfst (append (push_byte_as_char c)) (rewrite_from d sq dq n cs)"
  unfolding rewrite_from.simps if_not_P [OF assms(1)] if_not_P [OF assms(2)]
    if_not_P [OF assms(3)] ..

lemmas rewrite_from_arms = rewrite_from_squote rewrite_from_dquote rewrite_from_cast
  rewrite_from_lone rewrite_from_name rewrite_from_raw

lemma rewrite_cases:
  obtains (q1) "c = squote \<and> \<not> dq" | (q2) "\<not> (c = squote \<and> \<not> dq)" "c = dquote \<and> \<not> sq"
    | (cast) "c = colon" "\<not> sq" "\<not> dq" "cs \<noteq> [] \<and> hd cs = colon"
    | (lone) "c = colon" "\<not> sq" "\<not> dq" "\<not> (cs \<noteq> [] \<and> hd cs = colon)" "takeWhile is_ident_byte cs = []"
    | (ph) "c = colon" "\<not> sq" "\<not> dq" "\<not> (cs \<noteq> [] \<and> hd cs = colon)" "takeWhile is_ident_byte cs \<noteq> []"
    | (raw) "\<not> (c = squote \<and> \<not> dq)" "\<not> (c = dquote \<and> \<not> sq)" "\<not> (c = colon \<and> \<not> sq \<and> \<not> dq)"
  by fastforce

text \<open>A lexing of a text that explains its rewriting.\<close>

definition lexes :: "driver_kind \<Rightarrow> bool \<Rightarrow> bool \<Rightarrow> nat \<Rightarrow> str \<Rightarrow> tok list \<Rightarrow> bool" where
  "lexes d sq dq n s ts \<longleftrightarrow>
     well_lexed sq dq ts \<and> text_of ts = s \<and> rewrite_from d sq dq n s = (render d n ts, names_of ts)"

lemma rewrite_lexes:
  "\<exists>ts. lexes d sq dq n s ts"
proof (induction d sq dq n s rule: rewrite_from.induct)
  case (1 d sq dq n)
  show ?case by (rule exI [of _ "[]"]) (simp add: lexes_def)
next
  case (2 d sq dq n c cs)
  show ?case
  proof (cases rule: rewrite_cases [where c = c and dq = dq and sq = sq and cs = cs])
    case q1
    with "2.IH"(1) obtain ts where "lexes d (\<not> sq) dq n cs ts" by blast
    with q1 show ?thesis by (intro exI [of _ "Raw c # ts"]) (auto simp: lexes_def)
  next
    case q2
    with "2.IH"(2) obtain ts where "lexes d sq (\<not> dq) n cs ts" by blast
    with q2 show ?thesis by (intro exI [of _ "Raw c # ts"]) (auto simp: lexes_def)
  next
    case cast
    with "2.IH"(3) obtain ts where "lexes d sq dq n (tl cs) ts" by auto
    with cast show ?thesis by (intro exI [of _ "Cast # ts"]) (auto simp: lexes_def neq_Nil_conv)
  next
    case lone
    with "2.IH"(4) obtain ts where "lexes d sq dq n cs ts" by auto
    with lone show ?thesis
      by (intro exI [of _ "Raw c # ts"])
        (auto simp: lexes_def takeWhile_eq_Nil_starts starts_with_def push_byte_as_char_def)
  next
    case ph
    with "2.IH"(5) obtain ts where ts: "lexes d sq dq (Suc n) (dropWhile is_ident_byte cs) ts" by auto
    have "\<not> starts_with is_ident_byte (dropWhile is_ident_byte cs)"
      by (induction cs) auto
    with ph ts show ?thesis
      by (intro exI [of _ "Ph (takeWhile is_ident_byte cs) # ts"]) (auto simp: lexes_def dest: set_takeWhileD)
  next
    case raw
    with "2.IH"(6) obtain ts where "lexes d sq dq n cs ts" by auto
    with raw show ?thesis by (intro exI [of _ "Raw c # ts"]) (auto simp: lexes_def)
  qed
qed

lemmas rewrite_from_lexes = rewrite_lexes [unfolded lexes_def]

lemma collect_from_closed:
  "collect_from obj names =
     (case find (\<lambda>name. omap_get obj name = None) names of
        Some name \<Rightarrow> Inl (invalid ''missing required parameter'' [name])
      | None \<Rightarrow> Inr (map (\<lambda>name. \<lparr>bp_name = name, bp_value = the (omap_get obj name)\<rparr>) names))"
  by (induction names) (auto split: option.splits)

lemma rewrite_from_plain:
  "colon \<notin> set s \<Longrightarrow>
     rewrite_from d sq dq n s = (concat (map push_byte_as_char s), [])"
proof (induction s arbitrary: sq dq)
  case Nil
  then show ?case by simp
next
  case (Cons c s)
  then have "c \<noteq> colon" and "colon \<notin> set s" by auto
  with Cons.IH show ?case by simp
qed

lemma push_bytes_ascii: "(\<forall>c \<in> set s. is_ascii c) \<Longrightarrow> concat (map push_byte_as_char s) = s"
  by (induction s) auto

lemma push_bytes_length:
  "length (concat (map push_byte_as_char s)) = length s + length (filter (\<lambda>c. \<not> is_ascii c) s)"
  by (induction s) (auto simp: length_push_byte_as_char)

lemma rewrite_plain_ascii:
  assumes "\<forall>c \<in> set s. is_ascii c" and "colon \<notin> set s"
  shows "rewrite_placeholders s d = (s, [])"
  using rewrite_from_plain [OF assms(2)] push_bytes_ascii [OF assms(1)]
  by (simp add: rewrite_placeholders_def)

text \<open>
  Outside quotes, bytes that are neither a colon nor a quote are copied, whatever follows.
\<close>

lemma rewrite_from_skip:
  assumes "\<forall>c \<in> set p. is_ascii c \<and> c \<noteq> colon \<and> c \<noteq> squote \<and> c \<noteq> dquote"
  shows "rewrite_from d sq dq n (p @ s) = apfst (append p) (rewrite_from d sq dq n s)"
  using assms
proof (induction p)
  case Nil
  then show ?case by (simp add: apfst_def map_prod_def split: prod.splits)
next
  case (Cons c p)
  then show ?case
    by (cases "rewrite_from d sq dq n s") simp
qed

lemma native_placeholder_bytes:
  "c \<in> set (native_placeholder d i) \<Longrightarrow>
     is_ascii c \<and> c \<noteq> colon \<and> c \<noteq> squote \<and> c \<noteq> dquote"
  by (auto simp: native_placeholder_def bytes_simps split: driver_kind.splits
      dest!: show_nat_digits)

text \<open>The output of a rewrite has nothing left to rewrite.\<close>

lemma starts_with_rewrite_from:
  assumes "\<not> starts_with (\<lambda>b. b = colon \<or> is_ident_byte b) s" and "\<forall>c \<in> set s. is_ascii c"
  shows "\<not> starts_with (\<lambda>b. b = colon \<or> is_ident_byte b) (fst (rewrite_from d sq dq n s))"
  using assms by (cases s) auto

declare rewrite_from.simps(2) [simp del]

lemma rewrite_from_fixed:
  assumes "\<forall>c \<in> set s. is_ascii c"
  shows "rewrite_from d sq dq m (fst (rewrite_from d sq dq n s)) =
           (fst (rewrite_from d sq dq n s), [])"
  using assms
proof (induction d sq dq n s rule: rewrite_from.induct)
  case (1 d sq dq n)
  show ?case by simp
next
  case (2 d sq dq n c cs)
  have asc: "\<forall>c \<in> set cs. is_ascii c" and push: "push_byte_as_char c = [c]"
    using "2.prems" by auto
  show ?case
  proof (cases rule: rewrite_cases [where c = c and dq = dq and sq = sq and cs = cs])
    case q1
    then show ?thesis using "2.IH"(1) asc push by (simp add: rewrite_from_squote)
  next
    case q2
    then show ?thesis using "2.IH"(2) asc push by (auto simp: rewrite_from_dquote)
  next
    case cast
    then obtain cs' where cs: "cs = colon # cs'" by (cases cs) auto
    with cast asc "2.IH"(3) show ?thesis by (simp add: rewrite_from_cast)
  next
    case lone
    then have "\<not> starts_with (\<lambda>b. b = colon \<or> is_ident_byte b) cs"
      by (auto simp: takeWhile_eq_Nil_starts starts_with_def)
    then have "\<not> starts_with (\<lambda>b. b = colon \<or> is_ident_byte b) (fst (rewrite_from d sq dq n cs))"
      by (rule starts_with_rewrite_from) (rule asc)
    with lone \<open>\<not> starts_with _ cs\<close> show ?thesis using "2.IH"(4) asc
      by (simp add: rewrite_from_lone)
  next
    case ph
    let ?rest = "dropWhile is_ident_byte cs"
    have "\<forall>c \<in> set ?rest. is_ascii c" using asc by (auto dest: set_dropWhileD)
    moreover have "starts_with is_ident_byte cs" using ph by (simp add: takeWhile_eq_Nil_starts)
    ultimately show ?thesis
      using "2.IH"(5) ph rewrite_from_skip [of "native_placeholder d (Suc n)" d sq dq m]
      by (simp add: rewrite_from_name native_placeholder_bytes)
  next
    case raw
    with "2.IH"(6) asc push show ?thesis by (simp add: rewrite_from_raw [OF raw])
  qed
qed

section \<open>Properties\<close>

text \<open>
  C15. What \<open>rewrite_placeholders\<close> computes: every statement has a token reading whose text it is,
  in which casts and placeholders stand outside quoted literals and names are maximal runs of
  identifier bytes; the result is that reading with the \<open>i\<close>-th placeholder replaced by the driver's
  \<open>i\<close>-th marker and every other byte pushed as a character, and the parameter order is the names
  from left to right.
\<close>

theorem rewrite_placeholders_tokens:
  "\<exists>ts. well_lexed False False ts \<and> text_of ts = sql \<and>
     rewrite_placeholders sql d = (render d 0 ts, names_of ts)"
  unfolding rewrite_placeholders_def by (rule rewrite_from_lexes)

text \<open>
  Rewriting an ASCII statement a second time changes nothing and finds no name: no \<open>:name\<close>
  outside quotes survives the first pass, so a statement whose positional form passes through
  \<open>prepare_stmt\<close> again keeps its text and its declared parameter order.
\<close>

theorem rewrite_placeholders_idempotent:
  assumes "\<forall>c \<in> set sql. is_ascii c"
  shows "rewrite_placeholders (fst (rewrite_placeholders sql d)) d =
           (fst (rewrite_placeholders sql d), [])"
  unfolding rewrite_placeholders_def by (rule rewrite_from_fixed) (rule assms)

theorem rewrite_placeholders_idempotent_witness:
  "rewrite_placeholders (fst (rewrite_placeholders ''SELECT :a::int, b WHERE c = :c_1'' Postgres))
     Postgres =
   (''SELECT $1::int, b WHERE c = $2'', [])"
proof -
  have asc: "\<forall>c \<in> set ''SELECT :a::int, b WHERE c = :c_1''. is_ascii c"
    by (simp add: is_ascii_def)
  have "fst (rewrite_placeholders ''SELECT :a::int, b WHERE c = :c_1'' Postgres) =
      ''SELECT $1::int, b WHERE c = $2''"
    by code_simp
  then show ?thesis
    using rewrite_placeholders_idempotent [OF asc, of Postgres] by simp
qed

text \<open>
  A statement without a colon is left byte for byte as it is exactly when it is ASCII: every
  byte from 128 on is pushed as a character of its own and becomes two bytes, so a UTF-8 literal in
  the SQL does not survive registration.
\<close>

theorem rewrite_placeholders_keeps_iff_ascii:
  assumes "colon \<notin> set sql"
  shows "fst (rewrite_placeholders sql d) = sql \<longleftrightarrow> (\<forall>c \<in> set sql. is_ascii c)"
proof
  assume eq: "fst (rewrite_placeholders sql d) = sql"
  have "length (fst (rewrite_placeholders sql d)) =
      length sql + length (filter (\<lambda>c. \<not> is_ascii c) sql)"
    using rewrite_from_plain [OF assms] push_bytes_length
    by (simp add: rewrite_placeholders_def)
  with eq have "filter (\<lambda>c. \<not> is_ascii c) sql = []" by simp
  then show "\<forall>c \<in> set sql. is_ascii c" by (auto simp: filter_empty_conv)
next
  assume "\<forall>c \<in> set sql. is_ascii c"
  then show "fst (rewrite_placeholders sql d) = sql"
    using rewrite_plain_ascii [OF _ assms] by simp
qed

theorem rewrite_placeholders_keeps_iff_ascii_witness:
  "fst (rewrite_placeholders [CHR ''a'', CHR 0xC3, CHR 0xA9] Sqlite) \<noteq>
     [CHR ''a'', CHR 0xC3, CHR 0xA9]"
  using rewrite_placeholders_keeps_iff_ascii [of "[CHR ''a'', CHR 0xC3, CHR 0xA9]" Sqlite]
  by (simp add: is_ascii_def)

text \<open>
  \<open>collect_bound_params\<close> on every argument shape: an object gives one bound parameter per name,
  in statement order and with the caller's value, or the error that names the first missing one;
  \<open>null\<close> is accepted only when nothing is to be bound; any other value is refused.
\<close>

theorem collect_bound_params_closed:
  "collect_bound_params args names =
     (case args of
        JObj obj \<Rightarrow>
          (case find (\<lambda>name. omap_get obj name = None) names of
             Some name \<Rightarrow> Inl (invalid ''missing required parameter'' [name])
           | None \<Rightarrow>
               Inr (map (\<lambda>name. \<lparr>bp_name = name, bp_value = the (omap_get obj name)\<rparr>) names))
      | JNull \<Rightarrow>
          if names = [] then Inr []
          else Inl (invalid ''tool arguments must be an object when parameters are declared''
                      [hd names])
      | _ \<Rightarrow> Inl (invalid ''tool arguments must be a JSON object'' []))"
  by (simp add: collect_bound_params_def collect_from_closed split: json.splits list.splits)

end
