(* ===== verification/Guards.thy ===== *)
theory Guards
  imports Params
begin

text \<open>
  The textual SQL defences of \<open>src/config.rs\<close> (lines 1215 to 1371): \<open>reject_multi_statement\<close>,
  \<open>is_safe_sql_identifier\<close>, \<open>strip_leading_whitespace_and_comments\<close> and \<open>reject_privileged_ddl\<close>.
  The theorems compare the semicolon scan with a split of the text into statements, show that
  comments and whitespace cannot hide a privileged keyword, and that a procedure name that passes
  the identifier check yields a single statement with nothing to rewrite.
\<close>

abbreviation semicolon :: char where "semicolon \<equiv> CHR 0x3B"
abbreviation newline :: char where "newline \<equiv> CHR 0x0A"

section \<open>Definitions\<close>

text \<open>The scan: the byte index, the quote flags and the index of the last unquoted \<open>;\<close>.\<close>

fun scan_semicolons :: "nat \<Rightarrow> bool \<Rightarrow> bool \<Rightarrow> nat option \<Rightarrow> str \<Rightarrow> nat option sql_result" where
  "scan_semicolons i in_single in_double last_semi [] = Inr last_semi"
| "scan_semicolons i in_single in_double last_semi (c # cs) =
     (if c = squote \<and> \<not> in_double then
        scan_semicolons (Suc i) (\<not> in_single) in_double last_semi cs
      else if c = dquote \<and> \<not> in_single then
        scan_semicolons (Suc i) in_single (\<not> in_double) last_semi cs
      else if c = semicolon \<and> \<not> in_single \<and> \<not> in_double then
        (if last_semi \<noteq> None then
           Inl (invalid ''query.sql contains multiple statements'' [show_nat i])
         else scan_semicolons (Suc i) in_single in_double (Some i) cs)
      else scan_semicolons (Suc i) in_single in_double last_semi cs)"

definition reject_multi_statement :: "str \<Rightarrow> unit sql_result" where
  "reject_multi_statement sql =
     and_then (scan_semicolons 0 False False None sql)
       (\<lambda>last_semi. case last_semi of
            None \<Rightarrow> Inr ()
          | Some prev \<Rightarrow>
              if is_blank (drop (prev + 1) sql) then Inr ()
              else Inl (invalid ''query.sql contains content after trailing'' [show_nat prev]))"

definition is_safe_sql_identifier :: "str \<Rightarrow> bool" where
  "is_safe_sql_identifier s \<longleftrightarrow>
     s \<noteq> [] \<and>
     (\<forall>c \<in> set s. is_ascii_alphanumeric c \<or> c = CHR ''_'' \<or> c = CHR ''.'') \<and>
     (is_ascii_alphabetic (hd s) \<or> hd s = CHR ''_'')"

text \<open>What follows the first \<open>*/\<close>.\<close>

fun after_block_close :: "str \<Rightarrow> str option" where
  "after_block_close (a # b # s) =
     (if a = CHR ''*'' \<and> b = CHR ''/'' then Some s else after_block_close (b # s))"
| "after_block_close _ = None"

lemma after_block_close_shorter: "after_block_close s = Some r \<Longrightarrow> length r < length s"
  by (induction s rule: after_block_close.induct) (auto split: if_splits)

lemma split_once_shorter: "split_once c s = Some (a, b) \<Longrightarrow> length b < length s"
  by (simp add: split_once_Some)

function strip_leading_whitespace_and_comments :: "str \<Rightarrow> str" where
  "strip_leading_whitespace_and_comments s =
     (case strip_prefix ''--'' (trim_start s) of
        Some after_line \<Rightarrow>
          (case split_once newline after_line of
             Some (_, rest) \<Rightarrow> strip_leading_whitespace_and_comments rest
           | None \<Rightarrow> [])
      | None \<Rightarrow>
          (case strip_prefix ''/*'' (trim_start s) of
             Some after_open \<Rightarrow>
               (case after_block_close after_open of
                  Some rest \<Rightarrow> strip_leading_whitespace_and_comments rest
                | None \<Rightarrow> [])
           | None \<Rightarrow> trim_start s))"
  by pat_completeness auto
termination
proof (relation "measure length")
  fix s x p a b
  assume "strip_prefix ''--'' (trim_start s) = Some x" and "split_once newline x = Some p"
    and "(a, b) = p"
  then show "(b, s) \<in> measure length"
    using trim_start_length [of s] split_once_shorter [of newline x a b]
    by (auto simp: strip_prefix_Some)
next
  fix s x r
  assume "strip_prefix ''/*'' (trim_start s) = Some x" and "after_block_close x = Some r"
  then show "(r, s) \<in> measure length"
    using trim_start_length [of s] after_block_close_shorter [of x r]
    by (auto simp: strip_prefix_Some)
qed simp

declare strip_leading_whitespace_and_comments.simps [simp del]

definition is_word_byte :: "char \<Rightarrow> bool" where
  "is_word_byte c \<longleftrightarrow> is_ascii_alphabetic c \<or> c = CHR ''_''"

text \<open>The leading word, in upper case.\<close>

definition leading_token :: "str \<Rightarrow> str" where
  "leading_token s = map to_ascii_upper (takeWhile is_word_byte s)"

definition reject_privileged_ddl :: "str \<Rightarrow> unit sql_result" where
  "reject_privileged_ddl sql =
     (let trimmed = strip_leading_whitespace_and_comments sql;
          first_token = leading_token trimmed
      in if first_token = [] then Inr ()
         else if first_token \<in> {''GRANT'', ''REVOKE''} then
           Inl (invalid ''query.sql leads with privileged DDL keyword'' [first_token])
         else if first_token \<in> {''CREATE'', ''ALTER'', ''DROP''} then
           (let second_token = leading_token
                  (strip_leading_whitespace_and_comments (drop (length first_token) trimmed))
            in if second_token \<in> {''USER'', ''ROLE'', ''DATABASE'', ''GROUP''} then
                 Inl (invalid ''query.sql starts with privileged DDL'' [first_token, second_token])
               else Inr ())
         else Inr ())"

section \<open>Statements\<close>

text \<open>The text between unquoted semicolons.\<close>

fun split_statements :: "bool \<Rightarrow> bool \<Rightarrow> str \<Rightarrow> str list" where
  "split_statements sq dq [] = [[]]"
| "split_statements sq dq (c # cs) =
     (if c = semicolon \<and> \<not> sq \<and> \<not> dq then [] # split_statements sq dq cs
      else case split_statements (if c = squote \<and> \<not> dq then \<not> sq else sq)
                  (if c = dquote \<and> \<not> sq then \<not> dq else dq) cs of
             w # ws \<Rightarrow> (c # w) # ws
           | [] \<Rightarrow> [])"

text \<open>One statement, or one and an all-whitespace rest after its \<open>;\<close>.\<close>

definition single_statement :: "str \<Rightarrow> bool" where
  "single_statement sql \<longleftrightarrow>
     (case split_statements False False sql of
        [_] \<Rightarrow> True
      | [_, tail] \<Rightarrow> is_blank tail
      | _ \<Rightarrow> False)"

text \<open>A text the database skips before the first word.\<close>

inductive skippable :: "str \<Rightarrow> bool" where
  nothing: "skippable []"
| space: "skippable p \<Longrightarrow> ws1 (byte c) \<Longrightarrow> skippable (c # p)"
| line: "skippable p \<Longrightarrow> newline \<notin> set b \<Longrightarrow> skippable (''--'' @ b @ newline # p)"
| block: "skippable p \<Longrightarrow> after_block_close b = None \<Longrightarrow> skippable (''/*'' @ b @ ''*/'' @ p)"

section \<open>Lemmas\<close>

lemma split_statements_nonempty [simp]: "split_statements sq dq s \<noteq> []"
  by (induction s arbitrary: sq dq) (simp_all split: list.splits)

text \<open>After one semicolon the scan accepts exactly when there is no other.\<close>

lemma scan_after_semi:
  "scan_semicolons i sq dq (Some p) s = Inr x \<longleftrightarrow>
     x = Some p \<and> length (split_statements sq dq s) = 1"
proof (induction s arbitrary: i sq dq)
  case Nil
  then show ?case by auto
next
  case (Cons c s)
  then show ?case
    by (auto split: list.splits)
qed

lemma scan_before_semi:
  "scan_semicolons i sq dq None s = Inr x \<longleftrightarrow>
     (case split_statements sq dq s of
        [_] \<Rightarrow> x = None
      | [w, _] \<Rightarrow> x = Some (i + length w)
      | _ \<Rightarrow> False)"
proof (induction s arbitrary: i sq dq)
  case Nil
  then show ?case by auto
next
  case (Cons c s)
  show ?case
  proof (cases "c = semicolon \<and> \<not> sq \<and> \<not> dq")
    case True
    then show ?thesis
      by (auto simp: scan_after_semi length_Suc_conv split: list.splits)
  next
    case False
    let ?sq = "if c = squote \<and> \<not> dq then \<not> sq else sq"
    let ?dq = "if c = dquote \<and> \<not> sq then \<not> dq else dq"
    have "scan_semicolons i sq dq None (c # s) = scan_semicolons (Suc i) ?sq ?dq None s"
      using False by auto
    moreover have "split_statements sq dq (c # s) =
        (case split_statements ?sq ?dq s of w # ws \<Rightarrow> (c # w) # ws | [] \<Rightarrow> [])"
      using False by (simp only: split_statements.simps if_False)
    ultimately show ?thesis
      by (simp only: Cons.IH [of "Suc i" ?sq ?dq]) (auto split: list.splits)
  qed
qed

lemma split_statements_drop:
  "split_statements sq dq s = w # t # ws \<Longrightarrow>
     \<exists>rest sq' dq'. s = w @ semicolon # rest \<and> (ws = [] \<longrightarrow> t = rest)"
proof (induction s arbitrary: sq dq w)
  case Nil
  then show ?case by simp
next
  case (Cons c s)
  show ?case
  proof (cases "c = semicolon \<and> \<not> sq \<and> \<not> dq")
    case True
    with Cons.prems have w: "w = []" and sp: "split_statements sq dq s = t # ws" by auto
    have "split_statements sq dq s = [t] \<Longrightarrow> t = s" for sq dq t
    proof (induction s arbitrary: sq dq t)
      case (Cons a s)
      then show ?case by (auto split: if_splits list.splits)
    qed simp
    with sp have "ws = [] \<longrightarrow> t = s" by auto
    with w True show ?thesis by auto
  next
    case False
    let ?sq = "if c = squote \<and> \<not> dq then \<not> sq else sq"
    let ?dq = "if c = dquote \<and> \<not> sq then \<not> dq else dq"
    from False Cons.prems obtain v where v: "w = c # v" "split_statements ?sq ?dq s = v # t # ws"
      by (simp only: split_statements.simps if_False) (auto split: list.splits)
    from Cons.IH [OF v(2)] v(1) show ?thesis by auto
  qed
qed

lemma reject_multi_statement_iff:
  "reject_multi_statement sql = Inr () \<longleftrightarrow> single_statement sql"
proof -
  consider (one) w where "split_statements False False sql = [w]"
    | (two) w t where "split_statements False False sql = [w, t]"
    | (more) w t u ws where "split_statements False False sql = w # t # u # ws"
    by (metis neq_Nil_conv split_statements_nonempty)
  then show ?thesis
  proof cases
    case one
    then show ?thesis
      by (simp add: reject_multi_statement_def scan_before_semi single_statement_def)
  next
    case two
    then have "sql = w @ semicolon # t"
      using split_statements_drop [OF two] by auto
    then have "drop (Suc (length w)) sql = t" by simp
    with two show ?thesis
      by (simp add: reject_multi_statement_def scan_before_semi single_statement_def)
  next
    case more
    then show ?thesis
      by (simp add: reject_multi_statement_def scan_before_semi single_statement_def)
  qed
qed

lemma strip_skips_space:
  "ws1 (byte c) \<Longrightarrow>
     strip_leading_whitespace_and_comments (c # s) = strip_leading_whitespace_and_comments s"
  by (simp only: strip_leading_whitespace_and_comments.simps [of "c # s"]
      strip_leading_whitespace_and_comments.simps [of s] trim_start_ws1)

lemma trim_start_punct:
  "trim_start (CHR ''-'' # s) = CHR ''-'' # s"
  "trim_start (CHR ''/'' # s) = CHR ''/'' # s"
  by (simp_all add: trim_start_no_ws ws_len_not_ws ws1_def)

lemma after_block_close_append:
  "after_block_close b = None \<Longrightarrow> after_block_close (b @ CHR ''*'' # CHR ''/'' # p) = Some p"
  by (induction b rule: after_block_close.induct) (auto split: if_splits)

lemma strip_skippable:
  "skippable p \<Longrightarrow>
     strip_leading_whitespace_and_comments (p @ s) = strip_leading_whitespace_and_comments s"
proof (induction rule: skippable.induct)
  case nothing
  then show ?case by simp
next
  case (space p c)
  then show ?case by (simp add: strip_skips_space)
next
  case (line p b)
  then show ?case
    by (subst strip_leading_whitespace_and_comments.simps)
      (simp add: trim_start_punct split_once_append)
next
  case (block p b)
  then show ?case
    by (subst strip_leading_whitespace_and_comments.simps)
      (simp add: trim_start_punct after_block_close_append)
qed

lemma upper_word_byte: "is_ascii_uppercase (to_ascii_upper c) \<Longrightarrow> is_word_byte c \<and> is_ascii c"
  by (auto simp: to_ascii_upper_def is_word_byte_def bytes_simps split: if_splits)

lemma strip_word:
  assumes "is_word_byte c"
  shows "strip_leading_whitespace_and_comments (c # s) = c # s"
proof -
  have "trim_start (c # s) = c # s"
    using assms
    by (intro trim_start_no_ws ws_len_not_ws) (auto simp: is_word_byte_def bytes_simps ws1_def)
  moreover have "c \<noteq> CHR ''-''" and "c \<noteq> CHR ''/''"
    using assms by (auto simp: is_word_byte_def bytes_simps)
  ultimately show ?thesis
    by (subst strip_leading_whitespace_and_comments.simps) simp
qed

lemma strip_keyword:
  assumes "map to_ascii_upper kw = k" and "k \<noteq> []" and "\<forall>c \<in> set k. is_ascii_uppercase c"
  shows "strip_leading_whitespace_and_comments (kw @ s) = kw @ s"
proof -
  obtain c cs where kw: "kw = c # cs" using assms(1,2) by (cases kw) auto
  then have "is_word_byte c" using assms(1,3) upper_word_byte by auto
  then show ?thesis by (simp add: kw strip_word)
qed

lemma leading_keyword:
  assumes "map to_ascii_upper kw = k" and "\<forall>c \<in> set k. is_ascii_uppercase c"
    and "\<not> starts_with is_word_byte s"
  shows "leading_token (kw @ s) = k"
proof -
  have "\<forall>c \<in> set kw. is_word_byte c"
    using assms(1,2) upper_word_byte by auto
  then have "takeWhile is_word_byte (kw @ s) = kw"
    using assms(3) by (simp add: takeWhile_eq_Nil_starts)
  with assms(1) show ?thesis by (simp add: leading_token_def)
qed

lemma safe_identifier_bytes:
  "is_safe_sql_identifier s \<Longrightarrow> c \<in> set s \<Longrightarrow>
     is_ascii c \<and> c \<noteq> colon \<and> c \<noteq> squote \<and> c \<noteq> dquote \<and> c \<noteq> semicolon"
  by (auto simp: is_safe_sql_identifier_def bytes_simps)

lemma join_bytes: "c \<in> set (join sep xs) \<Longrightarrow> c \<in> set sep \<or> (\<exists>x \<in> set xs. c \<in> set x)"
  by (induction sep xs rule: join.induct) auto

lemma call_statement_bytes:
  assumes "is_safe_sql_identifier p" and "c \<in> set (call_statement p arity d)"
  shows "is_ascii c \<and> c \<noteq> colon \<and> c \<noteq> squote \<and> c \<noteq> dquote \<and> c \<noteq> semicolon"
proof -
  have "is_ascii c \<and> c \<noteq> colon \<and> c \<noteq> squote \<and> c \<noteq> dquote \<and> c \<noteq> semicolon"
    if "c \<in> set (native_placeholder d i)" for i
    using that by (auto simp: native_placeholder_def bytes_simps split: driver_kind.splits
        dest!: show_nat_digits)
  with assms show ?thesis
    by (auto simp: call_statement_def is_ascii_def dest!: join_bytes
        dest: safe_identifier_bytes)
qed

lemma no_semicolon_single: "semicolon \<notin> set s \<Longrightarrow> single_statement s"
proof -
  have "split_statements sq dq s = [s]" if "semicolon \<notin> set s" for sq dq
    using that by (induction s arbitrary: sq dq) auto
  moreover assume "semicolon \<notin> set s"
  ultimately show ?thesis by (simp add: single_statement_def)
qed


section \<open>Properties\<close>

text \<open>
  C21. \<open>reject_multi_statement\<close> accepts a statement exactly when the text has no unquoted \<open>;\<close>, or
  one with only whitespace behind it: reading quotes as the placeholder rewrite does, the body is a
  single statement.
\<close>

theorem reject_multi_statement_accepts_single:
  "reject_multi_statement sql = Inr () \<longleftrightarrow> single_statement sql"
  by (rule reject_multi_statement_iff)

text \<open>
  No whitespace and no sequence of line or block comments, in any letter case, hides
  \<open>GRANT\<close> or \<open>REVOKE\<close> from \<open>reject_privileged_ddl\<close>.
\<close>

theorem privileged_keyword_rejected:
  assumes "skippable p" and "map to_ascii_upper kw = k" and "k \<in> {''GRANT'', ''REVOKE''}"
    and "\<not> starts_with is_word_byte s"
  shows "reject_privileged_ddl (p @ kw @ s) =
           Inl (invalid ''query.sql leads with privileged DDL keyword'' [k])"
proof -
  have up: "\<forall>c \<in> set k. is_ascii_uppercase c" and ne: "k \<noteq> []"
    using assms(3) by (auto simp: is_ascii_uppercase_def)
  show ?thesis
    using assms(3) ne
    by (simp add: reject_privileged_ddl_def strip_skippable [OF assms(1)]
        strip_keyword [OF assms(2) ne up] leading_keyword [OF assms(2) up assms(4)])
qed

theorem privileged_keyword_rejected_witness:
  "reject_privileged_ddl (''-- admin'' @ [newline] @ ''/* x */ Grant ALL ON t TO PUBLIC'') =
     Inl (invalid ''query.sql leads with privileged DDL keyword'' [''GRANT''])"
proof -
  have "skippable (''/*'' @ '' x '' @ ''*/'' @ '' '')"
    by (rule skippable.block) (auto intro!: skippable.space skippable.nothing simp: ws1_def)
  then have "skippable (''--'' @ '' admin'' @ newline # (''/*'' @ '' x '' @ ''*/'' @ '' ''))"
    by (rule skippable.line) simp
  moreover have "map to_ascii_upper ''Grant'' = ''GRANT''" by code_simp
  ultimately show ?thesis
    using privileged_keyword_rejected
      [of "''--'' @ '' admin'' @ newline # (''/*'' @ '' x '' @ ''*/'' @ '' '')" "''Grant''"
          "''GRANT''" "'' ALL ON t TO PUBLIC''"]
    by (simp add: is_word_byte_def bytes_simps)
qed

text \<open>
  \<open>CREATE\<close>, \<open>ALTER\<close> or \<open>DROP\<close> of a user, role, database or group is refused, with skippable text
  before the first and between the two words; the same verb on any other object passes.
\<close>

theorem privileged_object_rejected:
  assumes "skippable p" and "map to_ascii_upper verb = k" and "k \<in> {''CREATE'', ''ALTER'', ''DROP''}"
    and "skippable q" and "q \<noteq> []" and "map to_ascii_upper obj = j"
    and "\<forall>c \<in> set j. is_ascii_uppercase c" and "j \<noteq> []" and "\<not> starts_with is_word_byte s"
  shows "is_ok (reject_privileged_ddl (p @ verb @ q @ obj @ s)) \<longleftrightarrow>
           j \<notin> {''USER'', ''ROLE'', ''DATABASE'', ''GROUP''}"
proof -
  have up: "\<forall>c \<in> set k. is_ascii_uppercase c" and ne: "k \<noteq> []"
    and nk: "k \<notin> {''GRANT'', ''REVOKE''}"
    using assms(3) by (auto simp: is_ascii_uppercase_def)
  have q: "\<not> starts_with is_word_byte (q @ obj @ s)"
    using assms(4,5) by cases (auto simp: is_word_byte_def bytes_simps ws1_def)
  have len: "length k = length verb" using assms(2) by auto
  show ?thesis
    using assms(3) ne nk len
    by (auto simp: reject_privileged_ddl_def Let_def strip_skippable [OF assms(1)]
        strip_keyword [OF assms(2) ne up] leading_keyword [OF assms(2) up q]
        strip_skippable [OF assms(4)] strip_keyword [OF assms(6,8,7)]
        leading_keyword [OF assms(6,7,9)])
qed

theorem privileged_object_rejected_witness:
  "\<not> is_ok (reject_privileged_ddl ''alter/**/role bob'')"
proof -
  have "skippable (''/*'' @ [] @ ''*/'' @ [])"
    by (rule skippable.block) (auto intro: skippable.nothing)
  then have "skippable ''/**/''" by simp
  moreover have "map to_ascii_upper ''alter'' = ''ALTER''" by code_simp
  moreover have "map to_ascii_upper ''role'' = ''ROLE''" by code_simp
  ultimately show ?thesis
    using privileged_object_rejected [OF skippable.nothing, of "''alter''" "''ALTER''" "''/**/''"
        "''role''" "''ROLE''" "'' bob''"]
    by (simp add: is_word_byte_def bytes_simps)
qed

text \<open>
  A procedure name that passes \<open>is_safe_sql_identifier\<close> cannot break out of its \<open>CALL\<close>: the
  generated statement is a single statement, and the placeholder rewrite of \<open>prepare_stmt\<close> leaves
  it as it is and finds no name, so the declared \<open>params\<close> stay the binding order.
\<close>

theorem call_statement_safe:
  assumes "is_safe_sql_identifier procedure"
  shows "reject_multi_statement (call_statement procedure arity d) = Inr () \<and>
         rewrite_placeholders (call_statement procedure arity d) d =
           (call_statement procedure arity d, [])"
proof
  have "semicolon \<notin> set (call_statement procedure arity d)"
    using call_statement_bytes [OF assms] by blast
  then show "reject_multi_statement (call_statement procedure arity d) = Inr ()"
    by (simp add: reject_multi_statement_iff no_semicolon_single)
next
  show "rewrite_placeholders (call_statement procedure arity d) d =
      (call_statement procedure arity d, [])"
    using call_statement_bytes [OF assms] by (intro rewrite_plain_ascii) blast+
qed

theorem call_statement_safe_witness:
  "rewrite_placeholders (call_statement ''orders.settle_invoice'' 2 Postgres) Postgres =
     (''CALL orders.settle_invoice($1, $2)'', [])"
proof -
  have "is_safe_sql_identifier ''orders.settle_invoice''"
    by (simp add: is_safe_sql_identifier_def bytes_simps)
  moreover have "call_statement ''orders.settle_invoice'' 2 Postgres =
      ''CALL orders.settle_invoice($1, $2)''"
    by code_simp
  ultimately show ?thesis
    using call_statement_safe [of "''orders.settle_invoice''" 2 Postgres] by simp
qed

end
