(* ===== verification/StreamCursor.thy ===== *)
theory StreamCursor
  imports Guards
begin

text \<open>
  \<open>src/stream.rs\<close> and the two functions of \<open>src/lib.rs\<close> that use it, \<open>apply_stream_cursor\<close> and
  \<open>mint_next_cursor\<close>: keyset cursors as signed tokens.  Base64, HMAC-SHA-256 and the JSON
  text of the payload come from other crates: \<open>cursor_codec\<close> holds them as functions, and each
  theorem names what it needs of them.
\<close>

section \<open>Configuration\<close>

record stream_config =
  cursor_columns :: "str list"
  stream_initial :: "json omap"
  signing_key :: "str option"

definition is_safe_column_name :: "str \<Rightarrow> bool" where
  "is_safe_column_name s \<longleftrightarrow> s \<noteq> [] \<and> (\<forall>c \<in> set s. is_ascii_alphanumeric c \<or> c = CHR ''_'')"

definition stream_config_validate :: "stream_config \<Rightarrow> unit sql_result" where
  "stream_config_validate cfg =
     (if cursor_columns cfg = [] then
        Inl (invalid ''stream.cursor_columns must not be empty when row_mode is stream'' [])
      else
        and_then
          (try_each (\<lambda>col. reject_if (\<not> is_safe_column_name col)
               (invalid ''stream.cursor_columns is not a safe column name'' [col]))
             (cursor_columns cfg))
          (\<lambda>_. try_each (\<lambda>k. reject_if (k \<notin> set (cursor_columns cfg))
               (invalid ''stream.initial is not a declared cursor column'' [k]))
             (map fst (stream_initial cfg))))"

definition after_placeholder :: "str \<Rightarrow> str" where
  "after_placeholder col = ''_after_'' @ col"

definition placeholder_names :: "stream_config \<Rightarrow> str list" where
  "placeholder_names cfg = map after_placeholder (cursor_columns cfg)"

section \<open>Tokens\<close>

record cursor_payload =
  cp_version :: u32
  cp_binding :: str
  cp_profile :: str
  cp_keyset :: "json list"

text \<open>
  Functions of other crates: \<open>URL_SAFE_NO_PAD\<close>, \<open>HMAC::mac(input, key)\<close>, and \<open>serde_json\<close> on a
  payload.
\<close>

record cursor_codec =
  b64_encode :: "str \<Rightarrow> str"
  b64_decode :: "str \<Rightarrow> str option"
  hmac :: "str \<Rightarrow> str \<Rightarrow> str"
  payload_to_vec :: "cursor_payload \<Rightarrow> str"
  payload_from_slice :: "str \<Rightarrow> cursor_payload option"

definition encode_cursor :: "cursor_codec \<Rightarrow> cursor_payload \<Rightarrow> str \<Rightarrow> str" where
  "encode_cursor x payload key =
     (let payload_b64 = b64_encode x (payload_to_vec x payload);
          mac_b64 = b64_encode x (hmac x payload_b64 key)
      in ''s.'' @ payload_b64 @ ''.'' @ mac_b64)"

definition constant_time_eq :: "str \<Rightarrow> str \<Rightarrow> bool" where
  "constant_time_eq a b =
     (if length a \<noteq> length b then False
      else fold (\<lambda>(x, y) diff. or diff (xor (of_char x) (of_char y))) (zip a b) (0::u8) = 0)"

definition decode_cursor :: "cursor_codec \<Rightarrow> str \<Rightarrow> str \<Rightarrow> cursor_payload option" where
  "decode_cursor x token key =
     Option.bind (strip_prefix ''s.'' token) (\<lambda>body.
     Option.bind (split_once (CHR ''.'') body) (\<lambda>(payload_b64, mac_b64).
     let expected = hmac x payload_b64 key in
     Option.bind (b64_decode x mac_b64) (\<lambda>actual.
     if \<not> constant_time_eq expected actual then None
     else
       Option.bind (b64_decode x payload_b64) (\<lambda>json_bytes.
       Option.bind (payload_from_slice x json_bytes) (\<lambda>payload.
       if cp_version payload \<noteq> 1 then None else Some payload)))))"

section \<open>Continuation\<close>

record stream_runtime =
  sr_cfg :: stream_config
  sr_key :: str

definition json_type :: "json \<Rightarrow> str" where
  "json_type v =
     (case v of JNull \<Rightarrow> ''null'' | JBool _ \<Rightarrow> ''boolean'' | JNum _ \<Rightarrow> ''number'' | JStr _ \<Rightarrow> ''string''
      | JArr _ \<Rightarrow> ''array'' | JObj _ \<Rightarrow> ''object'')"

text \<open>The keyset a call continues from: the verified token's, or the configured start.\<close>

definition keyset_of_cursor ::
    "cursor_codec \<Rightarrow> stream_runtime \<Rightarrow> str \<Rightarrow> json option \<Rightarrow> json list sql_result" where
  "keyset_of_cursor x rt backend_name raw_cursor =
     (let first_page = map (\<lambda>col. case omap_get (stream_initial (sr_cfg rt)) col of
                               Some v \<Rightarrow> v | None \<Rightarrow> JNull) (cursor_columns (sr_cfg rt));
          not_token = (\<lambda>other. Inl (invalid ''stream cursor: `_cursor` must be a string token''
                                      [json_type other]))
      in case raw_cursor of
           None \<Rightarrow> Inr first_page
         | Some JNull \<Rightarrow> Inr first_page
         | Some (JStr token) \<Rightarrow>
             if token = [] then not_token (JStr token)
             else
               (case decode_cursor x token (sr_key rt) of
                  None \<Rightarrow> Inl (invalid ''stream cursor: token failed verification'' [])
                | Some decoded \<Rightarrow>
                    if cp_binding decoded \<noteq> backend_name then
                      Inl (invalid ''stream cursor: token was minted for binding''
                             [cp_binding decoded, backend_name])
                    else if length (cp_keyset decoded) \<noteq> length (cursor_columns (sr_cfg rt)) then
                      Inl (invalid ''stream cursor: token carries keyset values but binding declares''
                             [show_nat (length (cp_keyset decoded)),
                              show_nat (length (cursor_columns (sr_cfg rt)))])
                    else Inr (cp_keyset decoded))
         | Some other \<Rightarrow> not_token other)"

definition apply_stream_cursor ::
    "cursor_codec \<Rightarrow> json \<Rightarrow> stream_runtime \<Rightarrow> str \<Rightarrow> json sql_result" where
  "apply_stream_cursor x args rt backend_name =
     and_then
       (case args of
          JObj m \<Rightarrow> Inr m
        | JNull \<Rightarrow> Inr []
        | _ \<Rightarrow> Inl (invalid ''stream-mode args must be a JSON object (or null)'' []))
       (\<lambda>obj.
          and_then (keyset_of_cursor x rt backend_name (omap_get obj ''_cursor''))
            (\<lambda>keyset_values.
               Inr (JObj (fold (\<lambda>(col, val). omap_insert (after_placeholder col) val)
                            (zip (cursor_columns (sr_cfg rt)) keyset_values)
                            (omap_remove ''_cursor'' obj)))))"

text \<open>One value per cursor column of a row; \<open>None\<close> when one is missing.\<close>

fun row_keyset :: "json omap \<Rightarrow> str list \<Rightarrow> json list option" where
  "row_keyset row [] = Some []"
| "row_keyset row (col # cols) =
     (case omap_get row col of
        None \<Rightarrow> None
      | Some v \<Rightarrow> map_option (Cons v) (row_keyset row cols))"

definition mint_next_cursor :: "cursor_codec \<Rightarrow> json \<Rightarrow> stream_runtime \<Rightarrow> str \<Rightarrow> json" where
  "mint_next_cursor x payload rt backend_name =
     (case json_get payload ''rows'' of
        Some (JArr rows) \<Rightarrow>
          if rows = [] then JNull
          else
            (case last rows of
               JObj row \<Rightarrow>
                 (case row_keyset row (cursor_columns (sr_cfg rt)) of
                    None \<Rightarrow> JNull
                  | Some keyset \<Rightarrow>
                      JStr (encode_cursor x
                        \<lparr>cp_version = 1, cp_binding = backend_name, cp_profile = [],
                         cp_keyset = keyset\<rparr> (sr_key rt)))
             | _ \<Rightarrow> JNull)
      | _ \<Rightarrow> JNull)"

section \<open>Lemmas\<close>

lemma or_eq_0_iff: "or (a::u8) b = 0 \<longleftrightarrow> a = 0 \<and> b = 0"
  by (auto simp: bit_eq_iff bit_or_iff)

lemma xor_eq_0_iff: "xor (a::u8) b = 0 \<longleftrightarrow> a = b"
  by (auto simp: bit_eq_iff bit_xor_iff)

lemma fold_diff_zero:
  "fold (\<lambda>(x, y) diff. or diff (xor (of_char x) (of_char y))) ps d = (0::u8) \<longleftrightarrow>
     d = 0 \<and> (\<forall>(x, y) \<in> set ps. x = y)"
  by (induction ps arbitrary: d) (auto simp: or_eq_0_iff xor_eq_0_iff of_char_u8_eq)

lemma constant_time_eq_iff: "constant_time_eq a b \<longleftrightarrow> a = b"
proof -
  have "(\<forall>(x, y) \<in> set (zip a b). x = y) \<longleftrightarrow> a = b" if "length a = length b"
    using that by (induction a b rule: list_induct2) auto
  then show ?thesis by (auto simp: constant_time_eq_def fold_diff_zero)
qed

lemma decode_cursor_Some:
  "decode_cursor x token key = Some payload \<longleftrightarrow>
     (\<exists>body mac. token = ''s.'' @ body @ ''.'' @ mac \<and> CHR ''.'' \<notin> set body \<and>
        b64_decode x mac = Some (hmac x body key) \<and>
        (\<exists>bytes. b64_decode x body = Some bytes \<and> payload_from_slice x bytes = Some payload) \<and>
        cp_version payload = 1)"
proof
  assume "decode_cursor x token key = Some payload"
  then show "\<exists>body mac. token = ''s.'' @ body @ ''.'' @ mac \<and> CHR ''.'' \<notin> set body \<and>
        b64_decode x mac = Some (hmac x body key) \<and>
        (\<exists>bytes. b64_decode x body = Some bytes \<and> payload_from_slice x bytes = Some payload) \<and>
        cp_version payload = 1"
    by (auto simp: decode_cursor_def Let_def constant_time_eq_iff bind_eq_Some_conv
        strip_prefix_Some split_once_Some split: if_splits)
next
  assume "\<exists>body mac. token = ''s.'' @ body @ ''.'' @ mac \<and> CHR ''.'' \<notin> set body \<and>
        b64_decode x mac = Some (hmac x body key) \<and>
        (\<exists>bytes. b64_decode x body = Some bytes \<and> payload_from_slice x bytes = Some payload) \<and>
        cp_version payload = 1"
  then show "decode_cursor x token key = Some payload"
    by (auto simp: decode_cursor_def Let_def constant_time_eq_iff split_once_append)
qed

lemma decode_encode:
  assumes "\<And>s. b64_decode x (b64_encode x s) = Some s" and "\<And>s. CHR ''.'' \<notin> set (b64_encode x s)"
    and "payload_from_slice x (payload_to_vec x p) = Some p" and "cp_version p = 1"
  shows "decode_cursor x (encode_cursor x p key) key = Some p"
  unfolding decode_cursor_Some
  using assms by (auto simp: encode_cursor_def Let_def)

lemma after_placeholder_inj [simp]: "after_placeholder a = after_placeholder b \<longleftrightarrow> a = b"
  by (simp add: after_placeholder_def)

lemma after_placeholder_not_cursor [simp]:
  "after_placeholder a \<noteq> ''_cursor''" "''_cursor'' \<noteq> after_placeholder a"
  by (simp_all add: after_placeholder_def)

lemma fold_insert_after:
  "omap_get (fold (\<lambda>(col, val). omap_insert (after_placeholder col) val) kvs m) k =
     (case map_of (rev (map (\<lambda>(col, val). (after_placeholder col, val)) kvs)) k of
        None \<Rightarrow> omap_get m k | Some v \<Rightarrow> Some v)"
  by (induction kvs arbitrary: m) (auto simp: map_add_def split: option.splits)

lemma map_of_after_zip:
  assumes "length vs = length cols" and "distinct cols" and "i < length cols"
  shows "map_of (rev (map (\<lambda>(col, val). (after_placeholder col, val)) (zip cols vs)))
           (after_placeholder (cols ! i)) = Some (vs ! i)"
proof -
  let ?l = "rev (map (\<lambda>(col, val). (after_placeholder col, val)) (zip cols vs))"
  have "map fst ?l = rev (map after_placeholder cols)"
    using assms(1)
    by (induction vs cols rule: list_induct2) simp_all
  then have d: "distinct (map fst ?l)"
    using assms(2) by (simp add: distinct_map inj_on_def)
  have "(cols ! i, vs ! i) \<in> set (zip cols vs)"
    using assms by (auto simp: set_zip)
  then have "(after_placeholder (cols ! i), vs ! i) \<in> set ?l" by force
  with d show ?thesis by (simp add: map_of_eq_Some_iff)
qed

lemma map_of_after_zip_other:
  assumes "\<And>col. k \<noteq> after_placeholder col"
  shows "map_of (rev (map (\<lambda>(col, val). (after_placeholder col, val)) kvs)) k = None"
proof -
  have "k \<notin> fst ` set (rev (map (\<lambda>(col, val). (after_placeholder col, val)) kvs))"
    using assms by fastforce
  then show ?thesis by (simp add: map_of_eq_None_iff)
qed

lemma row_keyset_length: "row_keyset row cols = Some vs \<Longrightarrow> length vs = length cols"
  by (induction cols arbitrary: vs) (auto split: option.splits)

lemma row_keyset_nth:
  "row_keyset row cols = Some vs \<Longrightarrow> i < length cols \<Longrightarrow> omap_get row (cols ! i) = Some (vs ! i)"
proof (induction cols arbitrary: vs i)
  case (Cons c cols)
  then show ?case by (cases i) (auto split: option.splits)
qed simp

text \<open>What \<open>apply_stream_cursor\<close> leaves in the arguments, given the keyset it chose.\<close>

lemma apply_stream_cursor_gets:
  assumes "apply_stream_cursor x args rt name = Inr (JObj out)"
    and "distinct (cursor_columns (sr_cfg rt))"
    and "keyset_of_cursor x rt name (json_get args ''_cursor'') = Inr ks"
    and "length ks = length (cursor_columns (sr_cfg rt))"
  shows "\<forall>i < length ks. omap_get out (after_placeholder (cursor_columns (sr_cfg rt) ! i)) = Some (ks ! i)"
    and "omap_get out ''_cursor'' = None"
    and "(\<And>col. k \<noteq> after_placeholder col) \<Longrightarrow> k \<noteq> ''_cursor'' \<Longrightarrow> omap_get out k = json_get args k"
proof -
  obtain obj where obj: "args = JObj obj \<or> args = JNull \<and> obj = []"
    and out: "out = fold (\<lambda>(col, val). omap_insert (after_placeholder col) val)
        (zip (cursor_columns (sr_cfg rt)) ks) (omap_remove ''_cursor'' obj)"
    using assms(1,3) by (auto simp: apply_stream_cursor_def json_get_def split: json.splits)
  show "\<forall>i < length ks. omap_get out (after_placeholder (cursor_columns (sr_cfg rt) ! i)) = Some (ks ! i)"
    using map_of_after_zip [OF assms(4,2)] assms(4) by (simp add: out fold_insert_after)
  show "omap_get out ''_cursor'' = None"
    by (simp add: out fold_insert_after map_of_after_zip_other)
  show "omap_get out k = json_get args k"
    if "\<And>col. k \<noteq> after_placeholder col" and "k \<noteq> ''_cursor''"
    using that obj by (auto simp: out fold_insert_after map_of_after_zip_other)
qed

text \<open>A codec for the witnesses: two letters per byte, and a fixed payload.\<close>

definition letters_encode :: "str \<Rightarrow> str" where
  "letters_encode s =
     concat (map (\<lambda>c. [char_of (97 + byte c div 16), char_of (97 + byte c mod 16)]) s)"

fun letters_decode :: "str \<Rightarrow> str option" where
  "letters_decode [] = Some []"
| "letters_decode (a # b # s) =
     map_option (Cons (char_of ((byte a - 97) * 16 + (byte b - 97)))) (letters_decode s)"
| "letters_decode [a] = None"

definition letters_codec :: "cursor_payload \<Rightarrow> cursor_codec" where
  "letters_codec p =
     \<lparr>b64_encode = letters_encode, b64_decode = letters_decode,
      hmac = (\<lambda>text key. key @ take 4 text), payload_to_vec = (\<lambda>_. ''p''),
      payload_from_slice = (\<lambda>_. Some p)\<rparr>"

definition witness_rt :: stream_runtime where
  "witness_rt = \<lparr>sr_cfg = \<lparr>cursor_columns = [''id''], stream_initial = [], signing_key = None\<rparr>,
                 sr_key = ''key''\<rparr>"

definition witness_codec :: cursor_codec where
  "witness_codec =
     letters_codec \<lparr>cp_version = 1, cp_binding = ''b'', cp_profile = [], cp_keyset = [JStr ''k'']\<rparr>"

definition witness_page :: json where
  "witness_page = JObj [(''rows'', JArr [JObj [(''id'', JStr ''k'')]])]"

lemma letters_roundtrip: "letters_decode (letters_encode s) = Some s"
proof (induction s)
  case Nil
  then show ?case by (simp add: letters_encode_def)
next
  case (Cons c s)
  have "byte c div 16 < 16" using nat_of_char_less_256 [of c] by linarith
  then show ?case
    using Cons by (simp add: letters_encode_def)
qed

lemma letters_no_dot: "CHR ''.'' \<notin> set (letters_encode s)"
proof (induction s)
  case Nil
  then show ?case by (simp add: letters_encode_def)
next
  case (Cons c s)
  have nd: "CHR ''.'' \<noteq> char_of (97 + n)" if "n < 16" for n :: nat
  proof
    assume "CHR ''.'' = char_of (97 + n)"
    then have "byte (CHR ''.'') = byte (char_of (97 + n))" by simp
    with that show False by simp
  qed
  have "byte c div 16 < 16" "byte c mod 16 < 16" using nat_of_char_less_256 [of c] by linarith+
  then show ?case
    using Cons nd [of "byte c div 16"] nd [of "byte c mod 16"] by (simp add: letters_encode_def)
qed

section \<open>Properties\<close>

text \<open>
  A token decodes exactly when it is \<open>s.<body>.<mac>\<close> with the MAC of its body under the same
  key, a body that parses, and version 1: nothing a holder of no key assembles is accepted unless it
  carries that MAC, and the byte-wise comparison decides equality.
\<close>

theorem decode_cursor_authentic:
  "decode_cursor x token key = Some payload \<longleftrightarrow>
     (\<exists>body mac. token = ''s.'' @ body @ ''.'' @ mac \<and> CHR ''.'' \<notin> set body \<and>
        b64_decode x mac = Some (hmac x body key) \<and>
        (\<exists>bytes. b64_decode x body = Some bytes \<and> payload_from_slice x bytes = Some payload) \<and>
        cp_version payload = 1)"
  by (rule decode_cursor_Some)

text \<open>
  C2. From one page to the next: the token minted on a page whose last row has every cursor
  column, passed back as \<open>_cursor\<close> to the same binding, binds each \<open>_after_<col>\<close> to that row's value
  whatever the caller sent for it, removes \<open>_cursor\<close>, and leaves every other argument alone.  The
  hypotheses on the codec are the round trips of Base64 and of the payload's JSON, and that the
  Base64 alphabet has no dot.
\<close>

theorem stream_page_continues:
  assumes b64: "\<And>s. b64_decode x (b64_encode x s) = Some s" "\<And>s. CHR ''.'' \<notin> set (b64_encode x s)"
    and page: "json_get payload ''rows'' = Some (JArr (rows @ [JObj row]))"
    and cols: "distinct (cursor_columns (sr_cfg rt))"
      "row_keyset row (cursor_columns (sr_cfg rt)) = Some ks"
    and json: "payload_from_slice x (payload_to_vec x
        \<lparr>cp_version = 1, cp_binding = name, cp_profile = [], cp_keyset = ks\<rparr>) =
        Some \<lparr>cp_version = 1, cp_binding = name, cp_profile = [], cp_keyset = ks\<rparr>"
    and cont: "json_get (JObj args) ''_cursor'' = Some (mint_next_cursor x payload rt name)"
  shows "\<exists>out. apply_stream_cursor x (JObj args) rt name = Inr (JObj out) \<and>
           (\<forall>col \<in> set (cursor_columns (sr_cfg rt)).
              omap_get out (after_placeholder col) = omap_get row col) \<and>
           omap_get out ''_cursor'' = None \<and>
           (\<forall>k. (\<forall>col. k \<noteq> after_placeholder col) \<and> k \<noteq> ''_cursor'' \<longrightarrow>
              omap_get out k = omap_get args k)"
proof -
  let ?cols = "cursor_columns (sr_cfg rt)"
  let ?p = "\<lparr>cp_version = 1, cp_binding = name, cp_profile = [], cp_keyset = ks\<rparr>"
  let ?token = "encode_cursor x ?p (sr_key rt)"
  have token: "mint_next_cursor x payload rt name = JStr ?token"
    using page cols(2) by (simp add: mint_next_cursor_def)
  have dec: "decode_cursor x ?token (sr_key rt) = Some ?p"
    by (rule decode_encode) (simp_all add: b64 json)
  have "?token \<noteq> []" by (simp add: encode_cursor_def Let_def)
  then have keyset: "keyset_of_cursor x rt name (json_get (JObj args) ''_cursor'') = Inr ks"
    using dec row_keyset_length [OF cols(2)]
    unfolding cont token by (simp add: keyset_of_cursor_def Let_def)
  then obtain out where out: "apply_stream_cursor x (JObj args) rt name = Inr (JObj out)"
    by (simp add: apply_stream_cursor_def)
  note gets = apply_stream_cursor_gets [OF out cols(1) keyset row_keyset_length [OF cols(2)]]
  have "omap_get out (after_placeholder col) = omap_get row col" if "col \<in> set ?cols" for col
    using that gets(1) row_keyset_nth [OF cols(2)] row_keyset_length [OF cols(2)]
    by (auto simp: in_set_conv_nth)
  with out gets(2,3) show ?thesis by fastforce
qed

theorem stream_page_continues_witness:
  "\<exists>out. apply_stream_cursor witness_codec
        (JObj [(''_after_id'', JStr ''forged''),
               (''_cursor'', mint_next_cursor witness_codec witness_page witness_rt ''b'')])
        witness_rt ''b'' = Inr (JObj out) \<and>
     omap_get out ''_after_id'' = Some (JStr ''k'')"
proof -
  have a: "after_placeholder ''id'' = ''_after_id''" by (simp add: after_placeholder_def)
  have "\<exists>out. apply_stream_cursor witness_codec
        (JObj [(''_after_id'', JStr ''forged''),
               (''_cursor'', mint_next_cursor witness_codec witness_page witness_rt ''b'')])
        witness_rt ''b'' = Inr (JObj out) \<and>
      (\<forall>col \<in> set (cursor_columns (sr_cfg witness_rt)).
         omap_get out (after_placeholder col) = omap_get [(''id'', JStr ''k'')] col) \<and>
      omap_get out ''_cursor'' = None \<and>
      (\<forall>k. (\<forall>col. k \<noteq> after_placeholder col) \<and> k \<noteq> ''_cursor'' \<longrightarrow>
         omap_get out k = omap_get [(''_after_id'', JStr ''forged''),
           (''_cursor'', mint_next_cursor witness_codec witness_page witness_rt ''b'')] k)"
    by (rule stream_page_continues [where rows = "[]" and ks = "[JStr ''k'']"])
      (simp_all add: witness_codec_def letters_codec_def letters_roundtrip letters_no_dot
        witness_page_def witness_rt_def omap_get_def)
  then show ?thesis by (auto simp: witness_rt_def a omap_get_def)
qed

text \<open>
  C23. A token is bound to its binding and its key layout: whatever it carries, submitting it to a
  binding it was not minted for, or to one that declares another number of cursor columns, is
  refused before any value reaches a placeholder, and so is every \<open>_cursor\<close> that is neither a token
  nor null.
\<close>

theorem stream_cursor_rejects_foreign:
  assumes "json_get args ''_cursor'' = Some c" and "c \<noteq> JNull"
    and "\<And>t p. c = JStr t \<Longrightarrow> decode_cursor x t (sr_key rt) = Some p \<Longrightarrow>
           cp_binding p \<noteq> name \<or> length (cp_keyset p) \<noteq> length (cursor_columns (sr_cfg rt))"
  shows "\<not> is_ok (apply_stream_cursor x args rt name)"
proof -
  obtain m where m: "args = JObj m" "omap_get m ''_cursor'' = Some c"
    using assms(1) by (auto simp: json_get_def split: json.splits)
  have "\<exists>e. keyset_of_cursor x rt name (Some c) = Inl e"
    using assms(2,3)
    by (auto simp: keyset_of_cursor_def Let_def split: json.splits option.splits)
  with m show ?thesis by (auto simp: apply_stream_cursor_def)
qed

theorem stream_cursor_rejects_foreign_witness:
  "\<not> is_ok (apply_stream_cursor witness_codec
      (JObj [(''_cursor'', mint_next_cursor witness_codec witness_page witness_rt ''b'')])
      witness_rt ''other'')"
proof (rule stream_cursor_rejects_foreign)
  show "json_get (JObj [(''_cursor'', mint_next_cursor witness_codec witness_page witness_rt ''b'')])
      ''_cursor'' = Some (mint_next_cursor witness_codec witness_page witness_rt ''b'')"
    by (simp add: omap_get_def)
  show "mint_next_cursor witness_codec witness_page witness_rt ''b'' \<noteq> JNull"
    by (simp add: mint_next_cursor_def witness_page_def witness_rt_def omap_get_def)
  show "cp_binding p \<noteq> ''other'' \<or> length (cp_keyset p) \<noteq> length (cursor_columns (sr_cfg witness_rt))"
    if "decode_cursor witness_codec t (sr_key witness_rt) = Some p" for t p
    using that by (auto simp: decode_cursor_Some witness_codec_def letters_codec_def)
qed

end
