(* ===== verification/Config.thy ===== *)
theory Config
  imports Auth Breaker StreamCursor Decimal
begin

text \<open>
  \<open>src/config.rs\<close>: the binding configuration and its validator, one definition per check in the
  order the validator runs them.  The URL parser, the scan for credential tokens and the CEL
  compiler belong to other crates: \<open>config_env\<close> holds them as functions.  Of a decimal amount only
  whether it is finite and whether it is below zero matters here; both are decided on its exact value
  (theory \<open>Decimal\<close>).
\<close>

section \<open>Decimal amounts\<close>

text \<open>\<open>parse_decimal_amount\<close> of \<open>src/cost.rs\<close>.\<close>

definition parse_decimal_amount :: "str \<Rightarrow> str \<Rightarrow> f64_lit sql_result" where
  "parse_decimal_amount s field =
     (let trimmed = trim s
      in if trimmed = [] then Inl (invalid (field @ '' must not be empty'') [])
         else
           (case parse_f64_lit trimmed of
              None \<Rightarrow> Inl (invalid (field @ '' is not a valid decimal'') [trimmed])
            | Some v \<Rightarrow>
                if \<not> lit_is_finite v then Inl (invalid (field @ '' is not a finite number'') [trimmed])
                else if lit_below_zero v then
                  Inl (invalid (field @ '' must be non-negative'') [trimmed])
                else Inr v))"

section \<open>Configuration data\<close>

datatype isolation_level = ReadCommitted | RepeatableRead | Serializable

definition sql_fragment :: "isolation_level \<Rightarrow> str" where
  "sql_fragment level =
     (case level of
        ReadCommitted \<Rightarrow> ''SET TRANSACTION ISOLATION LEVEL READ COMMITTED''
      | RepeatableRead \<Rightarrow> ''SET TRANSACTION ISOLATION LEVEL REPEATABLE READ''
      | Serializable \<Rightarrow> ''SET TRANSACTION ISOLATION LEVEL SERIALIZABLE'')"

datatype cost_unit = PerCall | PerRow | PerByte | PerQuery

definition cost_unit_as_str :: "cost_unit \<Rightarrow> str" where
  "cost_unit_as_str u =
     (case u of PerCall \<Rightarrow> ''per_call'' | PerRow \<Rightarrow> ''per_row'' | PerByte \<Rightarrow> ''per_byte''
      | PerQuery \<Rightarrow> ''per_query'')"

record cost_spec =
  cost_unit_of :: cost_unit
  cost_amount :: "str option"
  cost_expression :: "str option"
  cost_currency :: str
  cost_max_per_call :: "str option"

text \<open>\<open>CacheInvalidateOn\<close> has the one variant \<open>Watch\<close>.\<close>

record invalidate_watch =
  inv_sql :: str
  inv_interval_ms :: u64

record cache_spec =
  cache_enabled :: bool
  cache_ttl_seconds :: u64
  cache_invalidate_on :: "invalidate_watch option"

record await_step =
  step_sql :: str
  step_params :: "str list"

record await_config =
  await_trigger :: "await_step option"
  await_check :: await_step
  await_predicate :: str
  await_poll_interval_ms :: u64
  await_timeout_ms :: u64

datatype list_query_mode = Keyset | Offset

record list_query_config =
  list_sql :: str
  list_mode :: list_query_mode
  list_cursor_column :: "str option"
  list_page_size :: u64

record pool_config =
  max_connections :: u32
  min_idle :: u32
  acquire_timeout_ms :: u64
  idle_timeout_ms :: u64
  max_lifetime_ms :: u64
  test_before_acquire :: bool
  require_cancel_privilege :: bool

definition default_pool_config :: pool_config where
  "default_pool_config =
     \<lparr>max_connections = 10, min_idle = 0, acquire_timeout_ms = 5000, idle_timeout_ms = 300000,
      max_lifetime_ms = 1800000, test_before_acquire = True, require_cancel_privilege = True\<rparr>"

datatype query_body = BodySql str | BodyProcedure str | BodySqlFile str

datatype row_mode =
  Single | Many | Scalar | AffectedRows | ResourceContents | StreamMode | ResultSets

record query_shape =
  query_body_of :: query_body
  query_params :: "str list"
  query_param_exprs :: "str omap"
  query_row_mode :: row_mode
  query_max_rows :: u64
  query_timeout_ms :: "u64 option"
  query_read_only :: bool
  query_progress_heartbeat_ms :: "u64 option"
  query_stream :: "stream_config option"

datatype schema_derive = DeriveOff | DeriveInput | DeriveOutput | DeriveBoth

definition includes_input :: "schema_derive \<Rightarrow> bool" where
  "includes_input d \<longleftrightarrow> d = DeriveInput \<or> d = DeriveBoth"

definition includes_output :: "schema_derive \<Rightarrow> bool" where
  "includes_output d \<longleftrightarrow> d = DeriveOutput \<or> d = DeriveBoth"

record sql_backend_config =
  cfg_driver :: driver_kind
  cfg_url :: str
  cfg_pool :: pool_config
  cfg_allow_private_backends :: bool
  cfg_query :: query_shape
  cfg_session_vars :: "str omap"
  cfg_schema_derive :: schema_derive
  cfg_circuit_breaker :: "breaker_config option"
  cfg_list_query :: "list_query_config option"
  cfg_await :: "await_config option"
  cfg_isolation_level :: "isolation_level option"
  cfg_cache :: "cache_spec option"
  cfg_cost :: "cost_spec option"
  cfg_auth :: "auth_config option"

text \<open>What the validator asks of other crates, and the texts of their errors.\<close>

record url_parts =
  url_scheme :: str
  url_password :: "str option"

record config_env =
  url_parse :: "str \<Rightarrow> str + url_parts"
  cred_tokens :: "str \<Rightarrow> str list"
  cel_compile :: "str \<Rightarrow> str + unit"
  msg_text :: "msg \<Rightarrow> str"

section \<open>Validators of the parts\<close>

text \<open>A control character: below U+0020, U+007F to U+009F (the latter as the bytes C2 80 to C2 9F).\<close>

fun has_control :: "str \<Rightarrow> bool" where
  "has_control [] = False"
| "has_control (c # cs) =
     (byte c < 32 \<or> byte c = 127 \<or>
      (byte c = 194 \<and> cs \<noteq> [] \<and> 128 \<le> byte (hd cs) \<and> byte (hd cs) \<le> 159) \<or> has_control cs)"

definition cost_spec_validate :: "config_env \<Rightarrow> cost_spec \<Rightarrow> unit sql_result" where
  "cost_spec_validate env spec =
     and_then
       (case (cost_amount spec, cost_expression spec) of
          (Some _, Some _) \<Rightarrow>
            Inl (invalid ''cost spec must set exactly one of `amount` or `expression`, not both'' [])
        | (None, None) \<Rightarrow>
            Inl (invalid ''cost spec must set exactly one of `amount` or `expression`'' [])
        | (Some amt, None) \<Rightarrow>
            and_then (parse_decimal_amount amt ''cost.amount'') (\<lambda>_. Inr ())
        | (None, Some expr) \<Rightarrow>
            if is_blank expr then Inl (invalid ''cost.expression must not be empty'' [])
            else map_err (\<lambda>e. invalid ''cost.expression does not compile as CEL'' [e])
                   (cel_compile env expr))
       (\<lambda>_. and_then
          (reject_if (is_blank (cost_currency spec)) (invalid ''cost.currency must not be empty'' []))
          (\<lambda>_. and_then
             (reject_if (has_control (cost_currency spec))
                (invalid ''cost.currency contains control characters'' [cost_currency spec]))
             (\<lambda>_. case cost_max_per_call spec of
                 None \<Rightarrow> Inr ()
               | Some cap \<Rightarrow>
                   and_then (parse_decimal_amount cap ''cost.max_per_call'') (\<lambda>_. Inr ()))))"

text \<open>The gates every embedded statement passes: not blank, one statement, no privileged DDL.\<close>

definition statement_gates :: "str \<Rightarrow> str \<Rightarrow> unit sql_result" where
  "statement_gates blank_error sql =
     and_then (reject_if (is_blank sql) (invalid blank_error []))
       (\<lambda>_. and_then (reject_multi_statement sql) (\<lambda>_. reject_privileged_ddl sql))"

definition invalidate_watch_validate :: "invalidate_watch \<Rightarrow> unit sql_result" where
  "invalidate_watch_validate w =
     and_then (statement_gates ''cache.invalidate_on.sql must not be empty'' (inv_sql w))
       (\<lambda>_. reject_if (inv_interval_ms w < 100)
              (invalid ''cache.invalidate_on.interval_ms is below the 100 ms floor''
                 [show_nat (unat (inv_interval_ms w))]))"

definition await_config_validate :: "await_config \<Rightarrow> unit sql_result" where
  "await_config_validate aw =
     and_then (statement_gates ''await.check.sql must not be empty'' (step_sql (await_check aw)))
       (\<lambda>_. and_then
          (case await_trigger aw of
             None \<Rightarrow> Inr ()
           | Some trig \<Rightarrow>
               statement_gates ''await.trigger.sql must not be empty when trigger is declared''
                 (step_sql trig))
          (\<lambda>_. and_then
             (reject_if (is_blank (await_predicate aw))
                (invalid ''await.predicate must be a non-empty CEL expression'' []))
             (\<lambda>_. and_then
                (reject_if (await_poll_interval_ms aw < 100)
                   (invalid ''await.poll_interval_ms must be >= 100''
                      [show_nat (unat (await_poll_interval_ms aw))]))
                (\<lambda>_. and_then
                   (reject_if (await_timeout_ms aw = 0) (invalid ''await.timeout_ms must be > 0'' []))
                   (\<lambda>_. reject_if (await_timeout_ms aw < await_poll_interval_ms aw)
                          (invalid ''await.timeout_ms must be >= poll_interval_ms''
                             [show_nat (unat (await_timeout_ms aw)),
                              show_nat (unat (await_poll_interval_ms aw))]))))))"

definition list_query_validate :: "list_query_config \<Rightarrow> unit sql_result" where
  "list_query_validate lq =
     and_then (statement_gates ''list_query.sql must not be empty'' (list_sql lq))
       (\<lambda>_. and_then
          (reject_if (list_page_size lq = 0 \<or> list_page_size lq > 1000)
             (invalid ''list_query.page_size must be in 1..=1000''
                [show_nat (unat (list_page_size lq))]))
          (\<lambda>_. if list_mode lq = Keyset then
                 (let col = trim (case list_cursor_column lq of None \<Rightarrow> [] | Some c \<Rightarrow> c)
                  in and_then
                       (reject_if (col = [])
                          (invalid ''list_query.cursor_column is required for mode: keyset'' []))
                       (\<lambda>_. reject_if (\<not> is_safe_sql_identifier col)
                              (invalid ''list_query.cursor_column is not a safe SQL identifier'' [col])))
               else Inr ()))"

section \<open>The validator\<close>

definition validate_scheme :: "driver_kind \<Rightarrow> str \<Rightarrow> unit sql_result" where
  "validate_scheme d scheme =
     (case d of
        Postgres \<Rightarrow>
          reject_if (scheme \<noteq> ''postgres'' \<and> scheme \<noteq> ''postgresql'')
            (invalid ''driver=postgres expects url scheme postgres or postgresql'' [scheme])
      | Sqlite \<Rightarrow>
          reject_if (scheme \<noteq> ''sqlite'')
            (invalid ''driver=sqlite expects url scheme sqlite'' [scheme])
      | _ \<Rightarrow>
          reject_if (scheme \<noteq> ''mysql'' \<and> scheme \<noteq> ''mariadb'')
            (invalid ''driver=mysql expects url scheme mysql or mariadb'' [scheme]))"

definition validate_auth :: "config_env \<Rightarrow> sql_backend_config \<Rightarrow> url_parts \<Rightarrow> unit sql_result" where
  "validate_auth env cfg parsed =
     (case cfg_auth cfg of
        None \<Rightarrow> Inr ()
      | Some auth \<Rightarrow>
          and_then (map_err (from_auth_error (msg_text env)) (auth_config_validate auth))
            (\<lambda>_. and_then
               (reject_if (cfg_driver cfg \<noteq> Postgres)
                  (invalid ''auth requires driver: postgres in this build'' [auth_scheme auth]))
               (\<lambda>_. and_then
                  (reject_if ((case url_password parsed of None \<Rightarrow> [] | Some p \<Rightarrow> p) \<noteq> [])
                     (invalid ''auth block is mutually exclusive with a password embedded in `url`'' []))
                  (\<lambda>_. reject_if (cred_tokens env (cfg_url cfg) \<noteq> [])
                     (invalid ''auth block is mutually exclusive with credential tokens in `url`'' [])))))"

definition validate_pool :: "pool_config \<Rightarrow> unit sql_result" where
  "validate_pool p =
     and_then (reject_if (max_connections p = 0) (invalid ''pool.max_connections must be > 0'' []))
       (\<lambda>_. reject_if (min_idle p > max_connections p)
              (invalid ''pool.min_idle must be <= pool.max_connections'' []))"

definition validate_stream :: "query_shape \<Rightarrow> unit sql_result" where
  "validate_stream q =
     (if query_row_mode q = StreamMode then
        and_then
          (ok_or (query_stream q)
             (invalid ''row_mode: stream requires a `stream:` block declaring cursor_columns'' []))
          (\<lambda>stream_cfg. and_then (stream_config_validate stream_cfg)
             (\<lambda>_. case query_body_of q of
                 BodySql sql \<Rightarrow>
                   try_each (\<lambda>ph. reject_if (\<not> sublist (colon # ph) sql)
                       (invalid ''row_mode: stream: query.sql must reference placeholder'' [ph]))
                     (placeholder_names stream_cfg)
               | _ \<Rightarrow> Inr ()))
      else
        reject_if (query_stream q \<noteq> None)
          (invalid ''query.stream is only valid when row_mode is `stream`'' []))"

definition validate_result_sets :: "driver_kind \<Rightarrow> query_shape \<Rightarrow> unit sql_result" where
  "validate_result_sets d q =
     (if query_row_mode q = ResultSets then
        (case query_body_of q of
           BodyProcedure _ \<Rightarrow>
             (case d of
                Mysql \<Rightarrow> Inr ()
              | Mariadb \<Rightarrow> Inr ()
              | Postgres \<Rightarrow> Inl (invalid ''row_mode: result_sets is not supported on Postgres'' [])
              | Sqlite \<Rightarrow> Inl (invalid ''row_mode: result_sets is not supported on SQLite'' []))
         | _ \<Rightarrow> Inl (invalid ''row_mode: result_sets requires `query.procedure`'' []))
      else Inr ())"

definition validate_heartbeat :: "query_shape \<Rightarrow> unit sql_result" where
  "validate_heartbeat q =
     (case query_progress_heartbeat_ms q of
        None \<Rightarrow> Inr ()
      | Some ms \<Rightarrow>
          reject_if (ms < 50)
            (invalid ''query.progress_heartbeat_ms is below the 50 ms floor'' [show_nat (unat ms)]))"

definition validate_cache :: "query_shape \<Rightarrow> cache_spec option \<Rightarrow> unit sql_result" where
  "validate_cache q cache_opt =
     (case cache_opt of
        None \<Rightarrow> Inr ()
      | Some cache \<Rightarrow>
          if \<not> cache_enabled cache then Inr ()
          else
            and_then
              (case query_row_mode q of
                 AffectedRows \<Rightarrow>
                   Inl (invalid ''cache.enabled is invalid for row_mode: affected_rows'' [])
               | StreamMode \<Rightarrow> Inl (invalid ''cache.enabled is invalid for row_mode: stream'' [])
               | ResultSets \<Rightarrow> Inl (invalid ''cache.enabled is invalid for row_mode: result_sets'' [])
               | _ \<Rightarrow> Inr ())
              (\<lambda>_. and_then
                 (case query_body_of q of
                    BodyProcedure _ \<Rightarrow>
                      Inl (invalid ''cache.enabled is invalid when query.body is a procedure'' [])
                  | _ \<Rightarrow> Inr ())
                 (\<lambda>_. case cache_invalidate_on cache of
                     None \<Rightarrow> Inr ()
                   | Some watch \<Rightarrow> invalidate_watch_validate watch)))"

definition validate_session_vars :: "driver_kind \<Rightarrow> str omap \<Rightarrow> unit sql_result" where
  "validate_session_vars d vars =
     and_then
       (try_each (\<lambda>key. reject_if (\<not> is_safe_sql_identifier key)
            (invalid ''session_vars: not a safe SQL identifier'' [key])) (map fst vars))
       (\<lambda>_. if vars = [] then Inr ()
            else
              (case d of
                 Postgres \<Rightarrow> Inr ()
               | Sqlite \<Rightarrow>
                   Inl (invalid ''session_vars: SQLite has no transaction-scoped session-variable concept'' [])
               | _ \<Rightarrow>
                   try_each (\<lambda>key. reject_if (CHR ''.'' \<in> set key)
                       (invalid ''session_vars: dots are not valid in a MySQL user-variable name''
                          [key, map (\<lambda>c. if c = CHR ''.'' then CHR ''_'' else c) key]))
                     (map fst vars)))"

definition validate_body :: "query_body \<Rightarrow> unit sql_result" where
  "validate_body body =
     (case body of
        BodyProcedure procedure \<Rightarrow>
          reject_if (\<not> is_safe_sql_identifier procedure)
            (invalid ''query.procedure is not a safe SQL identifier'' [procedure])
      | BodySql sql \<Rightarrow> and_then (reject_multi_statement sql) (\<lambda>_. reject_privileged_ddl sql)
      | BodySqlFile _ \<Rightarrow> Inr ())"

definition validate_isolation :: "driver_kind \<Rightarrow> isolation_level option \<Rightarrow> unit sql_result" where
  "validate_isolation d level_opt =
     (case level_opt of
        None \<Rightarrow> Inr ()
      | Some level \<Rightarrow>
          reject_if (d = Sqlite \<and> level \<noteq> Serializable)
            (invalid ''isolation_level: SQLite is always serializable''
               [case level of ReadCommitted \<Rightarrow> ''ReadCommitted'' | RepeatableRead \<Rightarrow> ''RepeatableRead''
                | Serializable \<Rightarrow> ''Serializable'']))"

definition validate_opt :: "('a \<Rightarrow> unit sql_result) \<Rightarrow> 'a option \<Rightarrow> unit sql_result" where
  "validate_opt f x = (case x of None \<Rightarrow> Inr () | Some y \<Rightarrow> f y)"

definition sql_backend_config_validate :: "config_env \<Rightarrow> sql_backend_config \<Rightarrow> unit sql_result" where
  "sql_backend_config_validate env cfg =
     and_then
       (map_err (\<lambda>e. invalid ''url parse failed'' [e]) (url_parse env (cfg_url cfg)))
       (\<lambda>parsed.
          try_each (\<lambda>check. check ())
            [\<lambda>_. validate_scheme (cfg_driver cfg) (url_scheme parsed),
             \<lambda>_. validate_auth env cfg parsed,
             \<lambda>_. validate_pool (cfg_pool cfg),
             \<lambda>_. validate_stream (cfg_query cfg),
             \<lambda>_. validate_result_sets (cfg_driver cfg) (cfg_query cfg),
             \<lambda>_. validate_heartbeat (cfg_query cfg),
             \<lambda>_. validate_opt breaker_config_validate (cfg_circuit_breaker cfg),
             \<lambda>_. validate_opt list_query_validate (cfg_list_query cfg),
             \<lambda>_. validate_opt await_config_validate (cfg_await cfg),
             \<lambda>_. validate_cache (cfg_query cfg) (cfg_cache cfg),
             \<lambda>_. validate_opt (cost_spec_validate env) (cfg_cost cfg),
             \<lambda>_. validate_session_vars (cfg_driver cfg) (cfg_session_vars cfg),
             \<lambda>_. validate_body (query_body_of (cfg_query cfg)),
             \<lambda>_. validate_isolation (cfg_driver cfg) (cfg_isolation_level cfg)])"

section \<open>Well-formed configurations\<close>

text \<open>
  What a binding may rely on, stated per concern and not in the order of the checks.
\<close>

definition schemes_of :: "driver_kind \<Rightarrow> str set" where
  "schemes_of d =
     (case d of
        Postgres \<Rightarrow> {''postgres'', ''postgresql''}
      | Sqlite \<Rightarrow> {''sqlite''}
      | _ \<Rightarrow> {''mysql'', ''mariadb''})"

definition safe_statement :: "str \<Rightarrow> bool" where
  "safe_statement sql \<longleftrightarrow> single_statement sql \<and> is_ok (reject_privileged_ddl sql)"

text \<open>Every SQL text the configuration carries, outside \<open>sql_file\<close> bodies.\<close>

definition cache_on :: "sql_backend_config \<Rightarrow> bool" where
  "cache_on cfg \<longleftrightarrow> (\<exists>c. cfg_cache cfg = Some c \<and> cache_enabled c)"

definition side_statements :: "sql_backend_config \<Rightarrow> str list" where
  "side_statements cfg =
     (case cfg_list_query cfg of None \<Rightarrow> [] | Some lq \<Rightarrow> [list_sql lq]) @
     (case cfg_await cfg of
        None \<Rightarrow> []
      | Some aw \<Rightarrow>
          step_sql (await_check aw) #
          (case await_trigger aw of None \<Rightarrow> [] | Some trig \<Rightarrow> [step_sql trig])) @
     (case cfg_cache cfg of
        None \<Rightarrow> []
      | Some c \<Rightarrow>
          if cache_enabled c then
            (case cache_invalidate_on c of None \<Rightarrow> [] | Some w \<Rightarrow> [inv_sql w])
          else [])"

definition body_statements :: "sql_backend_config \<Rightarrow> str list" where
  "body_statements cfg = (case query_body_of (cfg_query cfg) of BodySql sql \<Rightarrow> [sql] | _ \<Rightarrow> [])"

definition amount_ok :: "str \<Rightarrow> bool" where
  "amount_ok s \<longleftrightarrow>
     (\<exists>v. parse_f64_lit (trim s) = Some v \<and> lit_is_finite v \<and> \<not> lit_below_zero v)"

definition auth_wf :: "config_env \<Rightarrow> sql_backend_config \<Rightarrow> url_parts \<Rightarrow> bool" where
  "auth_wf env cfg u \<longleftrightarrow>
     (\<forall>a. cfg_auth cfg = Some a \<longrightarrow>
        is_ok (auth_config_validate a) \<and> cfg_driver cfg = Postgres \<and>
        url_password u \<in> {None, Some []} \<and> cred_tokens env (cfg_url cfg) = [])"

definition stream_wf :: "query_shape \<Rightarrow> bool" where
  "stream_wf q \<longleftrightarrow>
     (query_row_mode q = StreamMode \<longleftrightarrow> query_stream q \<noteq> None) \<and>
     (\<forall>s. query_stream q = Some s \<longrightarrow>
        cursor_columns s \<noteq> [] \<and> (\<forall>c \<in> set (cursor_columns s). is_safe_column_name c) \<and>
        fst ` set (stream_initial s) \<subseteq> set (cursor_columns s) \<and>
        (\<forall>sql. query_body_of q = BodySql sql \<longrightarrow>
           (\<forall>c \<in> set (cursor_columns s). sublist ('':_after_'' @ c) sql)))"

definition cache_wf :: "sql_backend_config \<Rightarrow> bool" where
  "cache_wf cfg \<longleftrightarrow>
     (cache_on cfg \<longrightarrow>
        query_row_mode (cfg_query cfg) \<in> {Single, Many, Scalar, ResourceContents} \<and>
        (\<forall>p. query_body_of (cfg_query cfg) \<noteq> BodyProcedure p) \<and>
        (\<forall>c w. cfg_cache cfg = Some c \<and> cache_invalidate_on c = Some w \<longrightarrow> 100 \<le> inv_interval_ms w))"

definition session_vars_wf :: "sql_backend_config \<Rightarrow> bool" where
  "session_vars_wf cfg \<longleftrightarrow>
     (\<forall>k \<in> fst ` set (cfg_session_vars cfg).
        is_safe_sql_identifier k \<and> cfg_driver cfg \<noteq> Sqlite \<and>
        (cfg_driver cfg \<in> {Mysql, Mariadb} \<longrightarrow> CHR ''.'' \<notin> set k))"

definition cost_wf :: "config_env \<Rightarrow> cost_spec \<Rightarrow> bool" where
  "cost_wf env c \<longleftrightarrow>
     (cost_amount c = None \<longleftrightarrow> cost_expression c \<noteq> None) \<and>
     (\<forall>a. cost_amount c = Some a \<longrightarrow> amount_ok a) \<and>
     (\<forall>e. cost_expression c = Some e \<longrightarrow> \<not> is_blank e \<and> is_ok (cel_compile env e)) \<and>
     \<not> is_blank (cost_currency c) \<and> \<not> has_control (cost_currency c) \<and>
     (\<forall>a. cost_max_per_call c = Some a \<longrightarrow> amount_ok a)"

definition limits_wf :: "sql_backend_config \<Rightarrow> bool" where
  "limits_wf cfg \<longleftrightarrow>
     0 < max_connections (cfg_pool cfg) \<and> min_idle (cfg_pool cfg) \<le> max_connections (cfg_pool cfg) \<and>
     (\<forall>ms. query_progress_heartbeat_ms (cfg_query cfg) = Some ms \<longrightarrow> 50 \<le> ms) \<and>
     (\<forall>cb. cfg_circuit_breaker cfg = Some cb \<longrightarrow> 0 < failure_threshold cb \<and> 0 < cooldown_ms cb) \<and>
     (\<forall>lq. cfg_list_query cfg = Some lq \<longrightarrow>
        0 < list_page_size lq \<and> list_page_size lq \<le> 1000 \<and>
        (list_mode lq = Keyset \<longrightarrow>
           (\<exists>c. list_cursor_column lq = Some c \<and> is_safe_sql_identifier (trim c)))) \<and>
     (\<forall>aw. cfg_await cfg = Some aw \<longrightarrow>
        \<not> is_blank (await_predicate aw) \<and> 100 \<le> await_poll_interval_ms aw \<and>
        await_poll_interval_ms aw \<le> await_timeout_ms aw)"

definition config_wf :: "config_env \<Rightarrow> sql_backend_config \<Rightarrow> bool" where
  "config_wf env cfg \<longleftrightarrow>
     (\<exists>u. url_parse env (cfg_url cfg) = Inr u \<and> url_scheme u \<in> schemes_of (cfg_driver cfg) \<and>
          auth_wf env cfg u) \<and>
     limits_wf cfg \<and> stream_wf (cfg_query cfg) \<and> cache_wf cfg \<and> session_vars_wf cfg \<and>
     (\<forall>c. cfg_cost cfg = Some c \<longrightarrow> cost_wf env c) \<and>
     (query_row_mode (cfg_query cfg) = ResultSets \<longrightarrow>
        (\<exists>p. query_body_of (cfg_query cfg) = BodyProcedure p) \<and> cfg_driver cfg \<in> {Mysql, Mariadb}) \<and>
     (\<forall>p. query_body_of (cfg_query cfg) = BodyProcedure p \<longrightarrow> is_safe_sql_identifier p) \<and>
     (\<forall>sql \<in> set (body_statements cfg). safe_statement sql) \<and>
     (\<forall>sql \<in> set (side_statements cfg). \<not> is_blank sql \<and> safe_statement sql) \<and>
     (cfg_driver cfg = Sqlite \<longrightarrow> cfg_isolation_level cfg \<in> {None, Some Serializable})"

section \<open>Lemmas\<close>

lemma is_ok_iff: "is_ok r \<longleftrightarrow> r = Inr ()"
  by (cases r) auto

lemma statement_gates_ok:
  "statement_gates e sql = Inr () \<longleftrightarrow> \<not> is_blank sql \<and> safe_statement sql"
  by (auto simp: statement_gates_def safe_statement_def reject_multi_statement_iff is_ok_iff)

lemma validate_scheme_ok: "validate_scheme d s = Inr () \<longleftrightarrow> s \<in> schemes_of d"
  by (auto simp: validate_scheme_def schemes_of_def split: driver_kind.splits)

lemma validate_auth_ok: "validate_auth env cfg u = Inr () \<longleftrightarrow> auth_wf env cfg u"
  by (auto simp: validate_auth_def auth_wf_def is_ok_iff split: option.splits)

lemma validate_pool_ok:
  "validate_pool p = Inr () \<longleftrightarrow> 0 < max_connections p \<and> min_idle p \<le> max_connections p"
  by (auto simp: validate_pool_def word_gt_0)

lemma validate_stream_ok: "validate_stream q = Inr () \<longleftrightarrow> stream_wf q"
  by (cases "query_stream q"; cases "query_body_of q")
    (auto simp: validate_stream_def stream_wf_def stream_config_validate_def placeholder_names_def
      after_placeholder_def)

lemma validate_result_sets_ok:
  "validate_result_sets d q = Inr () \<longleftrightarrow>
     (query_row_mode q = ResultSets \<longrightarrow>
        (\<exists>p. query_body_of q = BodyProcedure p) \<and> d \<in> {Mysql, Mariadb})"
  by (auto simp: validate_result_sets_def split: query_body.splits driver_kind.splits)

lemma validate_heartbeat_ok:
  "validate_heartbeat q = Inr () \<longleftrightarrow> (\<forall>ms. query_progress_heartbeat_ms q = Some ms \<longrightarrow> 50 \<le> ms)"
  by (auto simp: validate_heartbeat_def split: option.splits)

lemma validate_opt_ok: "validate_opt f x = Inr () \<longleftrightarrow> (\<forall>y. x = Some y \<longrightarrow> f y = Inr ())"
  by (cases x) (simp_all add: validate_opt_def)

lemma breaker_config_ok:
  "breaker_config_validate cb = Inr () \<longleftrightarrow> 0 < failure_threshold cb \<and> 0 < cooldown_ms cb"
  by (auto simp: breaker_config_validate_def word_gt_0)

lemma list_query_ok:
  "list_query_validate lq = Inr () \<longleftrightarrow>
     \<not> is_blank (list_sql lq) \<and> safe_statement (list_sql lq) \<and>
     0 < list_page_size lq \<and> list_page_size lq \<le> 1000 \<and>
     (list_mode lq = Keyset \<longrightarrow>
        (\<exists>c. list_cursor_column lq = Some c \<and> is_safe_sql_identifier (trim c)))"
proof -
  have "trim [] = []" by (simp add: trim_def) (subst trim_end_rev.simps, simp)
  moreover have "is_safe_sql_identifier s \<Longrightarrow> s \<noteq> []" for s
    by (simp add: is_safe_sql_identifier_def)
  ultimately show ?thesis
    by (auto simp: list_query_validate_def statement_gates_ok word_gt_0 Let_def not_less
        split: option.splits)
qed

lemma await_config_ok:
  "await_config_validate aw = Inr () \<longleftrightarrow>
     \<not> is_blank (step_sql (await_check aw)) \<and> safe_statement (step_sql (await_check aw)) \<and>
     (\<forall>t. await_trigger aw = Some t \<longrightarrow> \<not> is_blank (step_sql t) \<and> safe_statement (step_sql t)) \<and>
     \<not> is_blank (await_predicate aw) \<and> 100 \<le> await_poll_interval_ms aw \<and>
     await_poll_interval_ms aw \<le> await_timeout_ms aw"
proof -
  have "await_timeout_ms aw \<noteq> 0"
    if "100 \<le> await_poll_interval_ms aw" "await_poll_interval_ms aw \<le> await_timeout_ms aw"
    using that by (auto simp: word_le_nat_alt)
  then show ?thesis
    by (auto simp: await_config_validate_def statement_gates_ok not_less split: option.splits)
qed

lemma parse_decimal_amount_ok:
  "(\<exists>v. parse_decimal_amount s field = Inr v) \<longleftrightarrow> amount_ok s"
proof -
  have "parse_f64_lit [] = None"
    by (simp add: parse_f64_lit_def strip_sign_def lit_number_def Let_def)
  then show ?thesis
    by (auto simp: parse_decimal_amount_def amount_ok_def Let_def split: option.splits)
qed

lemma cost_spec_ok: "cost_spec_validate env c = Inr () \<longleftrightarrow> cost_wf env c"
  using parse_decimal_amount_ok
  by (auto simp: cost_spec_validate_def cost_wf_def is_ok_iff split: option.splits)

lemma validate_session_vars_ok:
  "validate_session_vars (cfg_driver cfg) (cfg_session_vars cfg) = Inr () \<longleftrightarrow> session_vars_wf cfg"
  by (cases "cfg_driver cfg"; cases "cfg_session_vars cfg")
    (auto simp: validate_session_vars_def session_vars_wf_def)

lemma validate_cache_ok:
  "validate_cache (cfg_query cfg) (cfg_cache cfg) = Inr () \<longleftrightarrow>
     cache_wf cfg \<and>
     (\<forall>c w. cfg_cache cfg = Some c \<and> cache_enabled c \<and> cache_invalidate_on c = Some w \<longrightarrow>
        \<not> is_blank (inv_sql w) \<and> safe_statement (inv_sql w))"
  by (cases "cfg_cache cfg"; cases "query_body_of (cfg_query cfg)";
      cases "query_row_mode (cfg_query cfg)")
    (auto simp: validate_cache_def cache_wf_def cache_on_def invalidate_watch_validate_def
      statement_gates_ok not_less split: option.splits)

lemma validate_body_ok:
  "validate_body (query_body_of (cfg_query cfg)) = Inr () \<longleftrightarrow>
     (\<forall>p. query_body_of (cfg_query cfg) = BodyProcedure p \<longrightarrow> is_safe_sql_identifier p) \<and>
     (\<forall>sql \<in> set (body_statements cfg). safe_statement sql)"
  by (auto simp: validate_body_def body_statements_def safe_statement_def is_ok_iff
      reject_multi_statement_iff split: query_body.splits)

lemma validate_isolation_ok:
  "validate_isolation d l = Inr () \<longleftrightarrow> (d = Sqlite \<longrightarrow> l \<in> {None, Some Serializable})"
  by (auto simp: validate_isolation_def split: option.splits)

lemmas validate_parts_ok =
  validate_scheme_ok validate_auth_ok validate_pool_ok validate_stream_ok validate_result_sets_ok
  validate_heartbeat_ok validate_opt_ok breaker_config_ok list_query_ok await_config_ok cost_spec_ok
  validate_session_vars_ok validate_cache_ok validate_body_ok validate_isolation_ok

lemma side_statements_ball:
  "(\<forall>sql \<in> set (side_statements cfg). P sql) \<longleftrightarrow>
     (\<forall>lq. cfg_list_query cfg = Some lq \<longrightarrow> P (list_sql lq)) \<and>
     (\<forall>aw. cfg_await cfg = Some aw \<longrightarrow> P (step_sql (await_check aw)) \<and>
        (\<forall>t. await_trigger aw = Some t \<longrightarrow> P (step_sql t))) \<and>
     (\<forall>c w. cfg_cache cfg = Some c \<and> cache_enabled c \<and> cache_invalidate_on c = Some w \<longrightarrow>
        P (inv_sql w))"
proof -
  have "(\<forall>sql \<in> set (case cfg_await cfg of None \<Rightarrow> []
      | Some aw \<Rightarrow> step_sql (await_check aw) #
          (case await_trigger aw of None \<Rightarrow> [] | Some trig \<Rightarrow> [step_sql trig])). P sql) \<longleftrightarrow>
    (\<forall>aw. cfg_await cfg = Some aw \<longrightarrow> P (step_sql (await_check aw)) \<and>
       (\<forall>t. await_trigger aw = Some t \<longrightarrow> P (step_sql t)))"
    by (cases "cfg_await cfg"; cases "await_trigger (the (cfg_await cfg))") simp_all
  moreover have "(\<forall>sql \<in> set (case cfg_cache cfg of None \<Rightarrow> []
      | Some c \<Rightarrow> if cache_enabled c then
          (case cache_invalidate_on c of None \<Rightarrow> [] | Some w \<Rightarrow> [inv_sql w]) else []). P sql) \<longleftrightarrow>
    (\<forall>c w. cfg_cache cfg = Some c \<and> cache_enabled c \<and> cache_invalidate_on c = Some w \<longrightarrow>
       P (inv_sql w))"
    by (cases "cfg_cache cfg"; cases "cache_invalidate_on (the (cfg_cache cfg))";
        cases "cache_enabled (the (cfg_cache cfg))") auto
  moreover have "(\<forall>sql \<in> set (case cfg_list_query cfg of None \<Rightarrow> [] | Some lq \<Rightarrow> [list_sql lq]). P sql) \<longleftrightarrow>
    (\<forall>lq. cfg_list_query cfg = Some lq \<longrightarrow> P (list_sql lq))"
    by (cases "cfg_list_query cfg") simp_all
  ultimately show ?thesis
    by (simp only: side_statements_def set_append ball_Un)
qed

lemma validate_iff:
  "sql_backend_config_validate env cfg = Inr () \<longleftrightarrow> config_wf env cfg"
proof (cases "url_parse env (cfg_url cfg)")
  case (Inl e)
  then show ?thesis by (simp add: sql_backend_config_validate_def config_wf_def)
next
  case (Inr u)
  then have "sql_backend_config_validate env cfg = Inr () \<longleftrightarrow>
      url_scheme u \<in> schemes_of (cfg_driver cfg) \<and> auth_wf env cfg u \<and> limits_wf cfg \<and>
      stream_wf (cfg_query cfg) \<and> cache_wf cfg \<and> session_vars_wf cfg \<and>
      (\<forall>c. cfg_cost cfg = Some c \<longrightarrow> cost_wf env c) \<and>
      validate_result_sets (cfg_driver cfg) (cfg_query cfg) = Inr () \<and>
      validate_body (query_body_of (cfg_query cfg)) = Inr () \<and>
      (\<forall>sql \<in> set (side_statements cfg). \<not> is_blank sql \<and> safe_statement sql) \<and>
      validate_isolation (cfg_driver cfg) (cfg_isolation_level cfg) = Inr ()"
    unfolding side_statements_ball limits_wf_def
    by (simp only: sql_backend_config_validate_def validate_parts_ok map_err_simps and_then_simps
        try_each_ok list.set ball_simps simp_thms all_conj_distrib imp_conjR)
      (rule iffI; elim conjE; intro conjI; assumption)
  with Inr show ?thesis
    by (simp add: config_wf_def validate_body_ok validate_result_sets_ok validate_isolation_ok
        conj_assoc)
qed

section \<open>Properties\<close>


text \<open>
  Without an \<open>auth\<close> block no credential surface is counted: a password in the URL and \<open>cred://\<close> tokens in it
  are accepted together.
\<close>

theorem password_and_tokens_accepted:
  assumes "cfg_auth cfg = None" and "sql_backend_config_validate env cfg = Inr ()" and "url_parse env (cfg_url cfg) = Inr u"
  shows "sql_backend_config_validate
    (env\<lparr>url_parse := (\<lambda>_. Inr (u\<lparr>url_password := Some password\<rparr>)), cred_tokens := (\<lambda>_. tokens)\<rparr>) cfg = Inr ()"
  using assms unfolding validate_iff by (auto simp: config_wf_def auth_wf_def cost_wf_def)

end
