(* ===== verification/Registration.thy ===== *)
theory Registration
  imports Config
begin

text \<open>
  Registration in \<open>src/lib.rs\<close>: \<open>prepare_stmt\<close>, \<open>validate_named_params_match_config\<close> and
  \<open>register_profile\<close>, from the decoded spec to the stored runtime.  Files, the CEL compiler, pools,
  health checks and schema introspection are outside: \<open>reg_env\<close> holds what they answer.  The
  profile table is a map from the binding's name.
\<close>

section \<open>Statements\<close>

definition plugin_managed :: "str \<Rightarrow> bool" where
  "plugin_managed name \<longleftrightarrow>
     prefix ''_after_'' name \<or> name = ''idempotency_key'' \<or> name = ''idempotency_scope_hash''"

definition validate_named_params_match_config :: "str list \<Rightarrow> str list \<Rightarrow> unit sql_result" where
  "validate_named_params_match_config rewritten_order declared =
     try_each
       (\<lambda>name. reject_if (\<not> plugin_managed name \<and> name \<notin> set declared)
                (invalid ''named placeholder is not listed in `params`'' [name]))
       rewritten_order"

text \<open>The SQL text before rewriting; \<open>read_file\<close> is \<open>std::fs::read_to_string\<close>.\<close>

definition raw_statement :: "(str \<Rightarrow> str + str) \<Rightarrow> sql_backend_config \<Rightarrow> str sql_result" where
  "raw_statement read_file cfg =
     (case query_body_of (cfg_query cfg) of
        BodySql sql \<Rightarrow> Inr sql
      | BodySqlFile path \<Rightarrow>
          and_then (map_err (\<lambda>e. invalid ''sql_file'' [path, e]) (read_file path))
            (\<lambda>body. and_then (reject_multi_statement body)
               (\<lambda>_. and_then (reject_privileged_ddl body) (\<lambda>_. Inr body)))
      | BodyProcedure procedure \<Rightarrow>
          Inr (call_statement procedure (length (query_params (cfg_query cfg))) (cfg_driver cfg)))"

definition prepare_stmt :: "(str \<Rightarrow> str + str) \<Rightarrow> sql_backend_config \<Rightarrow> prepared_stmt sql_result" where
  "prepare_stmt read_file cfg =
     and_then (raw_statement read_file cfg)
       (\<lambda>raw.
          let (rewritten, order) = rewrite_placeholders raw (cfg_driver cfg)
          in and_then
               (if order = [] then Inr (query_params (cfg_query cfg))
                else
                  and_then (validate_named_params_match_config order (query_params (cfg_query cfg)))
                    (\<lambda>_. Inr order))
               (\<lambda>param_order.
                  Inr \<lparr>ps_sql = rewritten, ps_param_order = param_order, ps_driver = cfg_driver cfg\<rparr>))"

definition prepare_list ::
    "driver_kind \<Rightarrow> list_query_config \<Rightarrow> (msg + prepared_stmt \<times> list_query_config)" where
  "prepare_list d list_cfg =
     (let (rewritten, order) = rewrite_placeholders (list_sql list_cfg) d
      in and_then
           (try_each
              (\<lambda>name. reject_if (name \<noteq> ''cursor'' \<and> name \<noteq> ''page_size'')
                 (Msg ''list_query references a name but only cursor and page_size are bound by the plugin''
                    [name]))
              order)
           (\<lambda>_. Inr (\<lparr>ps_sql = rewritten, ps_param_order = order, ps_driver = d\<rparr>, list_cfg)))"

definition prepare_step :: "driver_kind \<Rightarrow> await_step \<Rightarrow> prepared_stmt" where
  "prepare_step d s =
     (let (rewritten, order) = rewrite_placeholders (step_sql s) d
      in \<lparr>ps_sql = rewritten, ps_param_order = (if order = [] then step_params s else order),
          ps_driver = d\<rparr>)"

record await_runtime =
  ar_cfg :: await_config
  ar_trigger_stmt :: "prepared_stmt option"
  ar_check_stmt :: prepared_stmt

definition prepare_await ::
    "(str \<Rightarrow> str + unit) \<Rightarrow> driver_kind \<Rightarrow> await_config \<Rightarrow> (msg + await_runtime)" where
  "prepare_await compile d aw =
     and_then (map_err (\<lambda>e. Msg ''await.predicate CEL compile failed'' [e]) (compile (await_predicate aw)))
       (\<lambda>_. Inr \<lparr>ar_cfg = aw, ar_trigger_stmt = map_option (prepare_step d) (await_trigger aw),
                 ar_check_stmt = prepare_step d (await_check aw)\<rparr>)"

text \<open>The tracking statement of the cache-invalidation watcher; its names are never bound.\<close>

definition prepare_tracking :: "driver_kind \<Rightarrow> cache_spec option \<Rightarrow> (prepared_stmt \<times> u64) option" where
  "prepare_tracking d cache =
     (case cache of
        None \<Rightarrow> None
      | Some c \<Rightarrow>
          if cache_enabled c then
            map_option
              (\<lambda>w. (\<lparr>ps_sql = fst (rewrite_placeholders (inv_sql w) d), ps_param_order = [],
                     ps_driver = d\<rparr>, inv_interval_ms w))
              (cache_invalidate_on c)
          else None)"

section \<open>Profiles\<close>

record backend_cost =
  bc_unit :: cost_unit
  bc_currency :: str
  bc_amount :: "f64_lit option"
  bc_expression :: "str option"
  bc_source :: str
  bc_max_per_call :: "f64_lit option"

definition compile_opt :: "('a \<Rightarrow> 'e + 'b) \<Rightarrow> 'a option \<Rightarrow> 'e + 'b option" where
  "compile_opt f x = (case x of None \<Rightarrow> Inr None | Some y \<Rightarrow> and_then (f y) (\<lambda>z. Inr (Some z)))"

text \<open>\<open>BackendCost::compile\<close>; a compiled CEL program is kept as its source.\<close>

definition backend_cost_compile :: "config_env \<Rightarrow> cost_spec \<Rightarrow> backend_cost sql_result" where
  "backend_cost_compile env spec =
     and_then (compile_opt (\<lambda>s. parse_decimal_amount s ''cost.amount'') (cost_amount spec)) (\<lambda>amount.
     and_then
       (compile_opt
          (\<lambda>src. and_then
             (map_err (\<lambda>e. invalid ''cost.expression does not compile as CEL'' [e])
                (cel_compile env src))
             (\<lambda>_. Inr src))
          (cost_expression spec)) (\<lambda>expression.
     and_then (compile_opt (\<lambda>s. parse_decimal_amount s ''cost.max_per_call'') (cost_max_per_call spec))
       (\<lambda>max_per_call.
     Inr \<lparr>bc_unit = cost_unit_of spec, bc_currency = cost_currency spec, bc_amount = amount,
          bc_expression = expression,
          bc_source = (case cost_amount spec of
                         Some a \<Rightarrow> a
                       | None \<Rightarrow> (case cost_expression spec of Some e \<Rightarrow> e | None \<Rightarrow> [])),
          bc_max_per_call = max_per_call\<rparr>)))"

text \<open>\<open>compile_all\<close> of \<open>src/param_exprs.rs\<close>: the names and sources of the compiled expressions.\<close>

definition compile_all :: "config_env \<Rightarrow> str omap \<Rightarrow> (str \<times> str) list sql_result" where
  "compile_all env exprs =
     try_map
       (\<lambda>(name, src). and_then
          (map_err (\<lambda>e. invalid ''param_exprs does not compile as CEL'' [name, e]) (cel_compile env src))
          (\<lambda>_. Inr (name, src)))
       exprs"

record profile_runtime =
  rt_driver_kind :: driver_kind
  rt_cfg :: sql_backend_config
  rt_has_cred_refs :: bool
  rt_stmt :: prepared_stmt
  rt_row_mode :: row_mode
  rt_max_rows :: u64
  rt_timeout_ms :: u64
  rt_session_vars :: "str omap"
  rt_progress_heartbeat :: "u64 option"
  rt_input_schema :: "json option"
  rt_output_schema :: "json option"
  rt_param_exprs :: "(str \<times> str) list"
  rt_breaker :: "breaker option"
  rt_list :: "(prepared_stmt \<times> list_query_config) option"
  rt_await :: "await_runtime option"
  rt_stream :: "stream_runtime option"
  rt_isolation_level :: "isolation_level option"
  rt_cache :: "cache_spec option"
  rt_tracking :: "(prepared_stmt \<times> u64) option"
  rt_cost :: "backend_cost option"

record plugin_state =
  draining :: bool
  profiles :: "str \<rightharpoonup> profile_runtime"

text \<open>
  The answers of the world to one registration: the drivers compiled in, file contents, the pool,
  its health and privilege checks, schema introspection, the hash of a configured signing key and a
  fresh random one; and the texts of messages for the host's error type.
\<close>

record reg_env =
  re_config :: config_env
  re_drivers :: "driver_kind set"
  re_read_file :: "str \<Rightarrow> str + str"
  re_build_pool :: "sql_backend_config \<Rightarrow> unit sql_result"
  re_health_check :: "unit sql_result"
  re_cancel_privilege :: "unit sql_result"
  re_describe_parameters :: "str \<Rightarrow> str list \<Rightarrow> json option sql_result"
  re_describe_columns :: "str \<Rightarrow> row_mode \<Rightarrow> json option sql_result"
  re_key_of_bytes :: "str \<Rightarrow> str"
  re_random_key :: str
  re_backend_error :: "sql_error \<Rightarrow> backend_error"

definition config_has_cred_refs :: "(str \<Rightarrow> str list) \<Rightarrow> sql_backend_config \<Rightarrow> bool" where
  "config_has_cred_refs tokens cfg \<longleftrightarrow>
     tokens (cfg_url cfg) \<noteq> [] \<or> (\<exists>kv \<in> set (cfg_session_vars cfg). tokens (snd kv) \<noteq> [])"

definition stream_runtime_of :: "reg_env \<Rightarrow> query_shape \<Rightarrow> stream_runtime option" where
  "stream_runtime_of env q =
     (if query_row_mode q = StreamMode then
        map_option
          (\<lambda>stream_cfg. \<lparr>sr_cfg = stream_cfg,
             sr_key = (case signing_key stream_cfg of
                         Some value \<Rightarrow> if value \<noteq> [] then re_key_of_bytes env value else re_random_key env
                       | None \<Rightarrow> re_random_key env)\<rparr>)
          (query_stream q)
      else None)"

text \<open>A driver answer that only degrades: an error falls back to the operator's own schema.\<close>

definition or_none :: "'a option sql_result \<Rightarrow> 'a option" where
  "or_none r = (case r of Inl _ \<Rightarrow> None | Inr x \<Rightarrow> x)"

text \<open>The two ways an error reaches the host: through \<open>BackendError::from\<close>, or as a bare message.\<close>

definition lift :: "reg_env \<Rightarrow> 'a sql_result \<Rightarrow> 'a backend_result" where
  "lift env r = map_err (re_backend_error env) r"

definition plain :: "reg_env \<Rightarrow> msg + 'a \<Rightarrow> 'a backend_result" where
  "plain env r = map_err (\<lambda>m. BInvalidSpec (msg_text (re_config env) m)) r"

definition build_runtime :: "reg_env \<Rightarrow> sql_backend_config \<Rightarrow> profile_runtime backend_result" where
  "build_runtime env cfg =
     (let q = cfg_query cfg; d = cfg_driver cfg
      in and_then (lift env (sql_backend_config_validate (re_config env) cfg)) (\<lambda>_.
         and_then (lift env (compile_all (re_config env) (query_param_exprs q))) (\<lambda>exprs.
         and_then (reject_if (d \<notin> re_drivers env)
           (BInvalidSpec (msg_text (re_config env)
              (Msg ''driver is not compiled into this build'' [driver_as_str d])))) (\<lambda>_.
         and_then (lift env (prepare_stmt (re_read_file env) cfg)) (\<lambda>stmt.
         and_then (lift env (re_build_pool env cfg)) (\<lambda>_.
         and_then (lift env (re_health_check env)) (\<lambda>_.
         and_then (if require_cancel_privilege (cfg_pool cfg) then lift env (re_cancel_privilege env)
                   else Inr ()) (\<lambda>_.
         and_then (plain env (compile_opt (prepare_list d) (cfg_list_query cfg))) (\<lambda>list.
         and_then (plain env (compile_opt (prepare_await (cel_compile (re_config env)) d) (cfg_await cfg)))
           (\<lambda>await_rt.
         and_then (lift env
                     (compile_opt (backend_cost_compile (re_config env)) (cfg_cost cfg))) (\<lambda>cost.
         Inr \<lparr>rt_driver_kind = d, rt_cfg = cfg,
              rt_has_cred_refs = config_has_cred_refs (cred_tokens (re_config env)) cfg,
              rt_stmt = stmt, rt_row_mode = query_row_mode q, rt_max_rows = query_max_rows q,
              rt_timeout_ms = (case query_timeout_ms q of Some ms \<Rightarrow> ms | None \<Rightarrow> 5000),
              rt_session_vars = cfg_session_vars cfg,
              rt_progress_heartbeat = query_progress_heartbeat_ms q,
              rt_input_schema =
                (if includes_input (cfg_schema_derive cfg)
                 then or_none (re_describe_parameters env (ps_sql stmt) (ps_param_order stmt)) else None),
              rt_output_schema =
                (if includes_output (cfg_schema_derive cfg)
                 then or_none (re_describe_columns env (ps_sql stmt) (query_row_mode q)) else None),
              rt_param_exprs = exprs,
              rt_breaker = map_option breaker_new (cfg_circuit_breaker cfg),
              rt_list = list, rt_await = await_rt, rt_stream = stream_runtime_of env q,
              rt_isolation_level = cfg_isolation_level cfg, rt_cache = cfg_cache cfg,
              rt_tracking = prepare_tracking d (cfg_cache cfg), rt_cost = cost\<rparr>)))))))))))"

text \<open>\<open>spec\<close> is the spec as \<open>serde\<close> decodes it: its error text, or the configuration.\<close>

definition register_profile ::
    "reg_env \<Rightarrow> str \<Rightarrow> str + sql_backend_config \<Rightarrow> plugin_state \<Rightarrow> plugin_state \<times> unit backend_result" where
  "register_profile env backend_name spec st =
     (if draining st then
        (st, Inl (BTransport ''sql binding plugin is draining; refusing register_profile for'' backend_name))
      else
        (case and_then (map_err (\<lambda>e. BInvalidSpec (''SQL binding spec: '' @ e)) spec) (build_runtime env) of
           Inl e \<Rightarrow> (st, Inl e)
         | Inr rt \<Rightarrow> (st\<lparr>profiles := (profiles st)(backend_name \<mapsto> rt)\<rparr>, Inr ())))"

section \<open>Safe statements\<close>

text \<open>Everything a profile can send to its database as a statement of its own.\<close>

definition rt_statements :: "profile_runtime \<Rightarrow> prepared_stmt list" where
  "rt_statements rt =
     [rt_stmt rt] @ (case rt_list rt of None \<Rightarrow> [] | Some (st, _) \<Rightarrow> [st]) @
     (case rt_await rt of
        None \<Rightarrow> []
      | Some aw \<Rightarrow> ar_check_stmt aw # (case ar_trigger_stmt aw of None \<Rightarrow> [] | Some st \<Rightarrow> [st])) @
     (case rt_tracking rt of None \<Rightarrow> [] | Some (st, _) \<Rightarrow> [st])"

definition stmt_safe :: "prepared_stmt \<Rightarrow> bool" where
  "stmt_safe st \<longleftrightarrow>
     (\<exists>raw. safe_statement raw \<and> ps_sql st = fst (rewrite_placeholders raw (ps_driver st)))"

definition profile_safe :: "profile_runtime \<Rightarrow> bool" where
  "profile_safe rt \<longleftrightarrow> (\<forall>st \<in> set (rt_statements rt). stmt_safe st)"

definition plugin_init :: "plugin_state \<Rightarrow> bool" where
  "plugin_init st \<longleftrightarrow> profiles st = Map.empty"

definition plugin_safe :: "plugin_state \<Rightarrow> bool" where
  "plugin_safe st \<longleftrightarrow> (\<forall>name rt. profiles st name = Some rt \<longrightarrow> profile_safe rt)"

text \<open>A registration, in whatever environment, or the start of the drain.\<close>

inductive plugin_step :: "plugin_state \<Rightarrow> plugin_state \<Rightarrow> bool" where
  register: "plugin_step st (fst (register_profile env name spec st))"
| drain: "plugin_step st (st\<lparr>draining := True\<rparr>)"

inductive_cases plugin_stepE: "plugin_step st st'"

text \<open>A binding and an environment for the witnesses.\<close>

definition sample_cfg :: sql_backend_config where
  "sample_cfg =
     \<lparr>cfg_driver = Postgres, cfg_url = ''postgres://db/orders'', cfg_pool = default_pool_config,
      cfg_allow_private_backends = False,
      cfg_query =
        \<lparr>query_body_of = BodySql ''SELECT * FROM t WHERE id = :id AND k > :_after_k;'',
         query_params = [''id''], query_param_exprs = [], query_row_mode = StreamMode,
         query_max_rows = 10, query_timeout_ms = None, query_read_only = True,
         query_progress_heartbeat_ms = None,
         query_stream = Some \<lparr>cursor_columns = [''k''], stream_initial = [], signing_key = None\<rparr>\<rparr>,
      cfg_session_vars = [(''app.user'', ''u'')], cfg_schema_derive = DeriveOff,
      cfg_circuit_breaker = Some default_breaker_config, cfg_list_query = None, cfg_await = None,
      cfg_isolation_level = None, cfg_cache = None,
      cfg_cost = None, cfg_auth = None\<rparr>"

definition sample_cost :: cost_spec where
  "sample_cost = \<lparr>cost_unit_of = PerRow, cost_amount = Some ''0.10'', cost_expression = None,
                  cost_currency = ''USD'', cost_max_per_call = Some ''5''\<rparr>"

definition sample_env :: reg_env where
  "sample_env =
     \<lparr>re_config = \<lparr>url_parse = (\<lambda>_. Inr \<lparr>url_scheme = ''postgres'', url_password = None\<rparr>),
                   cred_tokens = (\<lambda>_. []), cel_compile = (\<lambda>_. Inr ()), msg_text = (\<lambda>_. [])\<rparr>,
      re_drivers = {Postgres}, re_read_file = (\<lambda>_. Inl []), re_build_pool = (\<lambda>_. Inr ()),
      re_health_check = Inr (), re_cancel_privilege = Inr (),
      re_describe_parameters = (\<lambda>_ _. Inr None), re_describe_columns = (\<lambda>_ _. Inr None),
      re_key_of_bytes = (\<lambda>_. []), re_random_key = ''key'', re_backend_error = (\<lambda>_. BTimeout 0)\<rparr>"

definition sample_state :: plugin_state where
  "sample_state =
     fst (register_profile sample_env ''orders'' (Inr sample_cfg)
       \<lparr>draining = False, profiles = Map.empty\<rparr>)"

section \<open>Lemmas\<close>

text \<open>The number of pieces, one byte at a time.\<close>

lemma split_count_Cons:
  "length (split_statements sq dq (c # s)) =
     (if c = semicolon \<and> \<not> sq \<and> \<not> dq then Suc (length (split_statements sq dq s))
      else length (split_statements (if c = squote \<and> \<not> dq then \<not> sq else sq)
                     (if c = dquote \<and> \<not> sq then \<not> dq else dq) s))"
proof (cases "c = semicolon \<and> \<not> sq \<and> \<not> dq")
  case False
  let ?r = "split_statements (if c = squote \<and> \<not> dq then \<not> sq else sq)
    (if c = dquote \<and> \<not> sq then \<not> dq else dq) s"
  obtain w ws where "?r = w # ws" by (metis neq_Nil_conv split_statements_nonempty)
  with False show ?thesis by (simp only: split_statements.simps if_False) simp
qed simp

lemma split_count_plain:
  "c \<noteq> semicolon \<Longrightarrow> c \<noteq> squote \<Longrightarrow> c \<noteq> dquote \<Longrightarrow>
     length (split_statements sq dq (c # s)) = length (split_statements sq dq s)"
  by (simp add: split_count_Cons del: split_statements.simps)

lemma split_count_skip:
  assumes "\<forall>c \<in> set p. c \<noteq> semicolon \<and> c \<noteq> squote \<and> c \<noteq> dquote"
  shows "length (split_statements sq dq (p @ s)) = length (split_statements sq dq s)"
  using assms by (induction p) (simp_all add: split_count_plain del: split_statements.simps)

text \<open>A byte from 128 on is two such bytes, so it is never a quote or a semicolon.\<close>

lemma high_byte_plain: "\<not> is_ascii c \<Longrightarrow> b \<in> set (c # push_byte_as_char c) \<Longrightarrow>
    b \<noteq> semicolon \<and> b \<noteq> squote \<and> b \<noteq> dquote"
proof -
  assume c: "\<not> is_ascii c" and b: "b \<in> set (c # push_byte_as_char c)"
  have "byte c < 256" by (rule nat_of_char_less_256)
  then have "byte c div 64 < 4" by linarith
  then have "128 \<le> byte (char_of (192 + byte c div 64) :: char)"
    "128 \<le> byte (char_of (128 + byte c mod 64) :: char)"
    by (simp_all add: mod_less less_le_trans [OF mod_less_divisor])
  then have "128 \<le> byte b"
    using b c by (auto simp: push_byte_as_char_def is_ascii_def)
  then show ?thesis by auto
qed

lemma native_placeholder_plain:
  "\<forall>c \<in> set (native_placeholder d i). c \<noteq> semicolon \<and> c \<noteq> squote \<and> c \<noteq> dquote"
  by (auto simp: native_placeholder_def bytes_simps split: driver_kind.splits
      dest!: show_nat_digits)

lemma ident_plain: "is_ident_byte c \<Longrightarrow> c \<noteq> semicolon \<and> c \<noteq> squote \<and> c \<noteq> dquote"
  by (auto simp: bytes_simps)

lemma split_count_push:
  "length (split_statements sq dq (push_byte_as_char c @ s)) = length (split_statements sq dq (c # s))"
proof (cases "is_ascii c")
  case False
  then have "length (split_statements sq dq (push_byte_as_char c @ s)) = length (split_statements sq dq s)"
    using high_byte_plain by (intro split_count_skip) simp
  moreover have "length (split_statements sq dq (c # s)) = length (split_statements sq dq s)"
    using high_byte_plain [OF False, of c]
    by (simp add: split_count_plain del: split_statements.simps)
  ultimately show ?thesis by simp
qed simp

lemma split_count_render:
  "well_lexed sq dq ts \<Longrightarrow>
     length (split_statements sq dq (render d n ts)) = length (split_statements sq dq (text_of ts))"
proof (induction ts arbitrary: sq dq n)
  case (Cons t ts)
  show ?case
  proof (cases t)
    case (Raw c)
    let ?sq = "if c = squote \<and> \<not> dq then \<not> sq else sq"
    let ?dq = "if c = dquote \<and> \<not> sq then \<not> dq else dq"
    have wl: "well_lexed ?sq ?dq ts" using Cons.prems Raw by simp
    have "length (split_statements ?sq ?dq (render d n ts)) = length (split_statements ?sq ?dq (text_of ts))"
      by (rule Cons.IH [OF wl])
    moreover have "?sq = sq \<and> ?dq = dq" if "c = semicolon" using that by simp
    ultimately show ?thesis
      unfolding Raw render.simps text_of_simps tok_text.simps append_Cons append_Nil
        split_count_push split_count_Cons
      by (cases "c = semicolon") (simp_all only: simp_thms if_True if_False split: if_splits)
  next
    case Cast
    with Cons.prems Cons.IH [of sq dq n] show ?thesis
      by (auto simp: split_count_plain simp del: split_statements.simps)
  next
    case (Ph name)
    then have "\<forall>b \<in> set (colon # name). b \<noteq> semicolon \<and> b \<noteq> squote \<and> b \<noteq> dquote"
      using Cons.prems ident_plain by auto
    from split_count_skip [OF this, of sq dq "text_of ts"] Ph Cons.prems Cons.IH [of sq dq "Suc n"]
    show ?thesis
      by (auto simp: split_count_skip [OF native_placeholder_plain] simp del: split_statements.simps)
  qed
qed simp

lemma rewrite_keeps_count:
  "length (split_statements False False (fst (rewrite_placeholders sql d))) =
     length (split_statements False False sql)"
  using rewrite_from_lexes [of False False sql d 0] split_count_render [of False False _ d 0]
  by (auto simp: rewrite_placeholders_def)

lemma single_statement_count: "single_statement s \<Longrightarrow> length (split_statements False False s) \<le> 2"
  by (auto simp: single_statement_def split: list.splits)

text \<open>An ASCII blank text is whitespace bytes only, so a blank rest survives the rewrite.\<close>

lemma trim_start_blank_ascii:
  "trim_start s = [] \<Longrightarrow> \<forall>c \<in> set s. is_ascii c \<Longrightarrow> \<forall>c \<in> set s. ws1 (byte c)"
proof (induction s)
  case (Cons c s)
  have "ws1 (byte c)"
  proof (rule ccontr)
    assume "\<not> ws1 (byte c)"
    then have "ws_len (c # s) = 0" using Cons.prems(2) by (simp add: ws_len_not_ws is_ascii_def)
    then have "trim_start (c # s) = c # s" by (rule trim_start_no_ws)
    with Cons.prems(1) show False by simp
  qed
  with Cons show ?case by (simp add: trim_start_ws1)
qed simp

lemma safe_call_statement:
  assumes "is_safe_sql_identifier p"
  shows "safe_statement (call_statement p n d)"
proof -
  have "single_statement (call_statement p n d)"
    using call_statement_bytes [OF assms] by (intro no_semicolon_single) blast
  moreover have "reject_privileged_ddl (call_statement p n d) = Inr ()"
  proof -
    obtain r where eq: "call_statement p n d = ''CALL'' @ CHR '' '' # r"
      by (simp add: call_statement_def)
    have "strip_leading_whitespace_and_comments (''CALL'' @ CHR '' '' # r) = ''CALL'' @ CHR '' '' # r"
      by (simp add: strip_word is_word_byte_def bytes_simps)
    moreover have "leading_token (''CALL'' @ CHR '' '' # r) = ''CALL''"
      by (simp add: leading_token_def is_word_byte_def to_ascii_upper_def bytes_simps)
    ultimately show ?thesis
      unfolding eq by (simp add: reject_privileged_ddl_def Let_def)
  qed
  ultimately show ?thesis by (simp add: safe_statement_def)
qed

lemma raw_statement_safe:
  assumes "config_wf env cfg" and raw: "raw_statement read_file cfg = Inr raw"
  shows "safe_statement raw"
proof (cases "query_body_of (cfg_query cfg)")
  case (BodySql sql)
  then have "body_statements cfg = [sql]" by (simp add: body_statements_def)
  with assms(1) have "safe_statement sql" by (simp add: config_wf_def)
  with raw BodySql show ?thesis by (simp add: raw_statement_def)
next
  case (BodyProcedure p)
  with assms(1) have "is_safe_sql_identifier p" by (simp add: config_wf_def)
  with raw BodyProcedure show ?thesis by (auto simp: raw_statement_def safe_call_statement)
next
  case (BodySqlFile path)
  with raw show ?thesis
    by (auto simp: raw_statement_def safe_statement_def reject_multi_statement_iff)
qed

lemma stmt_safe_rewrite:
  "safe_statement raw \<Longrightarrow> ps_sql st = fst (rewrite_placeholders raw (ps_driver st)) \<Longrightarrow> stmt_safe st"
  by (auto simp: stmt_safe_def)

lemma prepare_stmtD:
  assumes "prepare_stmt read_file cfg = Inr st"
  obtains raw where "raw_statement read_file cfg = Inr raw"
    and "ps_sql st = fst (rewrite_placeholders raw (cfg_driver cfg))" and "ps_driver st = cfg_driver cfg"
    and "ps_param_order st =
           (let order = snd (rewrite_placeholders raw (cfg_driver cfg))
            in if order = [] then query_params (cfg_query cfg) else order)"
    and "\<forall>name \<in> set (snd (rewrite_placeholders raw (cfg_driver cfg))).
           plugin_managed name \<or> name \<in> set (query_params (cfg_query cfg))"
proof -
  from assms obtain raw where raw: "raw_statement read_file cfg = Inr raw"
    by (auto simp: prepare_stmt_def)
  obtain rewritten order where rw: "rewrite_placeholders raw (cfg_driver cfg) = (rewritten, order)"
    by fastforce
  show thesis
    using that [OF raw] assms
    by (cases "order = []")
      (auto simp: prepare_stmt_def raw rw validate_named_params_match_config_def)
qed

lemma prepare_stmt_safe:
  assumes "config_wf env cfg" and "prepare_stmt read_file cfg = Inr st"
  shows "stmt_safe st"
proof (rule prepare_stmtD [OF assms(2)])
  fix raw
  assume "raw_statement read_file cfg = Inr raw"
    and "ps_sql st = fst (rewrite_placeholders raw (cfg_driver cfg))" "ps_driver st = cfg_driver cfg"
  then show "stmt_safe st"
    using raw_statement_safe [OF assms(1)] by (intro stmt_safe_rewrite [of raw]) simp_all
qed

lemma prepare_step_safe: "safe_statement (step_sql s) \<Longrightarrow> stmt_safe (prepare_step d s)"
  by (rule stmt_safe_rewrite [of "step_sql s"]) (simp_all add: prepare_step_def split: prod.splits)

lemma prepare_list_safe:
  assumes "prepare_list d lq = Inr (st, c)" and "safe_statement (list_sql lq)"
  shows "stmt_safe st"
proof -
  obtain rw order where eq: "rewrite_placeholders (list_sql lq) d = (rw, order)" by fastforce
  with assms(1) have "ps_sql st = rw \<and> ps_driver st = d"
    by (clarsimp simp: prepare_list_def simp del: try_each_ok)
  then show ?thesis by (intro stmt_safe_rewrite [OF assms(2)]) (simp add: eq)
qed

lemma prepare_tracking_safe:
  assumes "prepare_tracking d cache = Some (st, ms)"
    and "\<And>c w. cache = Some c \<Longrightarrow> cache_enabled c \<Longrightarrow> cache_invalidate_on c = Some w \<Longrightarrow>
           safe_statement (inv_sql w)"
  shows "stmt_safe st"
proof -
  from assms(1) obtain c w where cw: "cache = Some c" "cache_enabled c" "cache_invalidate_on c = Some w"
    and st: "ps_sql st = fst (rewrite_placeholders (inv_sql w) d)" "ps_driver st = d"
    by (auto simp: prepare_tracking_def split: option.splits if_splits)
  show ?thesis by (rule stmt_safe_rewrite [OF assms(2) [OF cw]]) (simp add: st)
qed

lemma build_runtime_safe:
  assumes "build_runtime env cfg = Inr rt"
  shows "profile_safe rt"
proof -
  have wf: "config_wf (re_config env) cfg"
    using assms by (auto simp: build_runtime_def Let_def lift_def validate_iff)
  have sides: "\<forall>sql \<in> set (side_statements cfg). safe_statement sql"
    using wf by (simp add: config_wf_def)
  note sides = sides [unfolded side_statements_ball]
  have "prepare_stmt (re_read_file env) cfg = Inr (rt_stmt rt)"
    using assms by (auto simp: build_runtime_def Let_def lift_def)
  then have 1: "stmt_safe (rt_stmt rt)" by (rule prepare_stmt_safe [OF wf])
  have "compile_opt (prepare_list (cfg_driver cfg)) (cfg_list_query cfg) = Inr (rt_list rt)"
    using assms by (auto simp: build_runtime_def Let_def plain_def)
  then have 2: "stmt_safe st" if "rt_list rt = Some (st, c)" for st c
    using that sides prepare_list_safe by (auto simp: compile_opt_def split: option.splits)
  have "compile_opt (prepare_await (cel_compile (re_config env)) (cfg_driver cfg)) (cfg_await cfg) =
      Inr (rt_await rt)"
    using assms by (auto simp: build_runtime_def Let_def plain_def)
  then have 3: "stmt_safe (ar_check_stmt aw) \<and> (\<forall>st. ar_trigger_stmt aw = Some st \<longrightarrow> stmt_safe st)"
    if "rt_await rt = Some aw" for aw
    using that sides
    by (auto simp: compile_opt_def prepare_await_def split: option.splits intro!: prepare_step_safe)
  have "prepare_tracking (cfg_driver cfg) (cfg_cache cfg) = rt_tracking rt"
    using assms by (auto simp: build_runtime_def Let_def)
  then have 4: "stmt_safe st" if "rt_tracking rt = Some (st, ms)" for st ms
    using that sides by (auto intro: prepare_tracking_safe)
  from 1 2 3 4 show ?thesis
    by (auto simp: profile_safe_def rt_statements_def split: option.splits
        dest!: sym [of "Some _"])
qed

interpretation reg: transition_invariant plugin_init plugin_step plugin_safe
proof
  show "plugin_safe st" if "plugin_init st" for st
    using that by (simp add: plugin_init_def plugin_safe_def)
  show "plugin_safe st'" if "plugin_safe st" "plugin_step st st'" for st st'
    using that(2,1)
  proof cases
    case (register env name spec)
    with that(1) show ?thesis
      by (auto simp: register_profile_def plugin_safe_def split: sum.splits
          dest!: build_runtime_safe)
  next
    case drain
    with that(1) show ?thesis by (simp add: plugin_safe_def)
  qed
qed

lemma sample_validates: "sql_backend_config_validate (re_config sample_env) sample_cfg = Inr ()"
  by code_simp

lemma sample_builds: "is_ok (build_runtime sample_env sample_cfg)"
  by code_simp

lemma sample_cost_validates: "cost_spec_validate (re_config sample_env) sample_cost = Inr ()"
proof -
  have "trim ''0.10'' = ''0.10''" "trim ''5'' = ''5''" by code_simp+
  moreover have "parse_f64_lit ''0.10'' = Some (LitDec False 10 (- 2))"
    "parse_f64_lit ''5'' = Some (LitDec False 5 0)"
    by code_simp+
  moreover have "lit_is_finite (LitDec False 10 (- 2))" "lit_is_finite (LitDec False 5 0)"
    by (simp_all add: lit_is_finite_def)
  moreover have "\<not> is_blank ''USD''" "\<not> has_control ''USD''" by code_simp+
  ultimately show ?thesis
    by (simp add: cost_spec_validate_def sample_cost_def parse_decimal_amount_def lit_below_zero_def)
qed

lemma sample_costed_validates:
  "sql_backend_config_validate (re_config sample_env) (sample_cfg\<lparr>cfg_cost := Some sample_cost\<rparr>) = Inr ()"
proof -
  let ?cfg = "sample_cfg\<lparr>cfg_cost := Some sample_cost\<rparr>"
  have "auth_wf env ?cfg u = auth_wf env sample_cfg u" "limits_wf ?cfg = limits_wf sample_cfg"
    "cache_wf ?cfg = cache_wf sample_cfg" "session_vars_wf ?cfg = session_vars_wf sample_cfg"
    "body_statements ?cfg = body_statements sample_cfg"
    "side_statements ?cfg = side_statements sample_cfg" for env u
    by (simp_all add: auth_wf_def limits_wf_def cache_wf_def cache_on_def session_vars_wf_def
        body_statements_def side_statements_def)
  then show ?thesis
    using sample_validates sample_cost_validates
    by (simp add: validate_iff cost_spec_ok config_wf_def)
qed

section \<open>Properties\<close>

text \<open>
  C1. Stacked queries cannot enter through the configuration: in every state the plugin reaches by
  registering profiles (each in any environment), every statement any profile holds (its query, its
  listing, its await check and trigger, its invalidation probe) is the rewriting of a single statement
  that leads with no privileged DDL, and the rewritten text has at most one unquoted semicolon.
\<close>

theorem registered_statements_safe:
  assumes "plugin_init st0" and "plugin_step\<^sup>*\<^sup>* st0 st" and "profiles st name = Some rt"
    and "stmt \<in> set (rt_statements rt)"
  shows "(\<exists>raw. single_statement raw \<and> is_ok (reject_privileged_ddl raw) \<and>
            ps_sql stmt = fst (rewrite_placeholders raw (ps_driver stmt))) \<and>
         length (split_statements False False (ps_sql stmt)) \<le> 2"
proof -
  have "plugin_safe st" by (rule reg.reachable_inv [OF assms(1,2)])
  then have "stmt_safe stmt"
    using assms(3,4) by (auto simp: plugin_safe_def profile_safe_def)
  then show ?thesis
    using rewrite_keeps_count single_statement_count
    by (auto simp: stmt_safe_def safe_statement_def)
qed

theorem registered_statements_safe_witness:
  "\<exists>rt. profiles sample_state ''orders'' = Some rt \<and>
     length (split_statements False False (ps_sql (rt_stmt rt))) \<le> 2"
proof -
  obtain rt where rt: "build_runtime sample_env sample_cfg = Inr rt"
    using sample_builds by (auto simp: is_ok_def split: sum.splits)
  let ?init = "\<lparr>draining = False, profiles = Map.empty\<rparr> :: plugin_state"
  have "plugin_init ?init" by (simp add: plugin_init_def)
  moreover have "plugin_step\<^sup>*\<^sup>* ?init sample_state"
    unfolding sample_state_def by (intro r_into_rtranclp plugin_step.register)
  moreover have "profiles sample_state ''orders'' = Some rt"
    by (simp add: sample_state_def register_profile_def rt)
  moreover have "rt_stmt rt \<in> set (rt_statements rt)" by (simp add: rt_statements_def)
  ultimately show ?thesis
    using registered_statements_safe [of ?init sample_state "''orders''" rt "rt_stmt rt"] by simp
qed

text \<open>
  The binding order of a prepared statement: it is the order of the names in the statement,
  or the declared parameters when the statement has none, and every name in it is declared in
  \<open>params\<close> or is one the plugin supplies itself.
\<close>

theorem prepare_stmt_binds_declared:
  assumes "prepare_stmt read_file cfg = Inr st"
  shows "\<exists>raw. raw_statement read_file cfg = Inr raw \<and>
           ps_param_order st =
             (if snd (rewrite_placeholders raw (cfg_driver cfg)) = [] then query_params (cfg_query cfg)
              else snd (rewrite_placeholders raw (cfg_driver cfg))) \<and>
           (\<forall>name \<in> set (ps_param_order st).
              name \<in> set (query_params (cfg_query cfg)) \<or> plugin_managed name)"
  using prepare_stmtD [OF assms] by (simp add: Let_def) metis

theorem prepare_stmt_binds_declared_witness:
  "\<exists>st. prepare_stmt (re_read_file sample_env) sample_cfg = Inr st \<and>
     (\<forall>name \<in> set (ps_param_order st). name \<in> {''id''} \<or> plugin_managed name)"
proof -
  have "is_ok (prepare_stmt (re_read_file sample_env) sample_cfg)" by code_simp
  then obtain st where st: "prepare_stmt (re_read_file sample_env) sample_cfg = Inr st"
    by (auto simp: is_ok_def split: sum.splits)
  from prepare_stmt_binds_declared [OF st] st show ?thesis
    by (auto simp: sample_cfg_def)
qed

text \<open>
  What registration does after validation cannot fail where the code assumes it cannot: on a
  validated configuration the stream runtime exists whenever the row mode is \<open>stream\<close> (the
  \<open>expect\<close> does not panic) and the cost block compiles.
\<close>

theorem validated_config_compiles:
  assumes "sql_backend_config_validate (re_config env) cfg = Inr ()"
  shows "(query_row_mode (cfg_query cfg) = StreamMode \<longleftrightarrow> stream_runtime_of env (cfg_query cfg) \<noteq> None) \<and>
         is_ok (compile_opt (backend_cost_compile (re_config env)) (cfg_cost cfg))"
proof -
  have wf: "config_wf (re_config env) cfg" using assms by (simp add: validate_iff)
  have "stream_wf (cfg_query cfg)" using wf by (simp add: config_wf_def)
  moreover have "\<exists>c. backend_cost_compile (re_config env) spec = Inr c" if "cfg_cost cfg = Some spec" for spec
  proof -
    have "cost_wf (re_config env) spec" using wf that by (simp add: config_wf_def)
    then show ?thesis
      using parse_decimal_amount_ok
      by (auto simp: cost_wf_def backend_cost_compile_def compile_opt_def is_ok_iff split: option.splits)
        metis+
  qed
  ultimately show ?thesis
    by (auto simp: stream_runtime_of_def stream_wf_def compile_opt_def split: option.splits)
qed

theorem validated_config_compiles_witness:
  "stream_runtime_of sample_env (cfg_query sample_cfg) \<noteq> None \<and>
   is_ok (compile_opt (backend_cost_compile (re_config sample_env)) (Some sample_cost))"
  using validated_config_compiles [OF sample_costed_validates] by (simp add: sample_cfg_def)

end
