(* ===== verification/Exprs.thy ===== *)
theory Exprs
  imports Registration
begin

text \<open>
  \<open>src/param_exprs.rs\<close>: parameters computed by CEL expressions.  The evaluator is the \<open>cel\<close> crate's,
  so running a program is an argument, \<open>run source variables\<close>; the coercions between JSON and CEL
  values, the \<open>identity\<close> variable and the injection into the argument map are modelled here.
\<close>

section \<open>CEL values\<close>

datatype cel_key = KStr str | KInt int | KUint u64 | KBool bool

text \<open>
  \<open>CFloat\<close> holds the bits of an \<open>f64\<close>; durations, timestamps and the types without a JSON form hold
  their text.
\<close>

datatype cel_value =
    CNull
  | CBool bool
  | CInt int
  | CUInt u64
  | CFloat u64
  | CString str
  | CBytes str
  | CList "cel_value list"
  | CMap "(cel_key \<times> cel_value) list"
  | CDuration str
  | CTimestamp str
  | COther str

definition cel_of_number :: "number \<Rightarrow> cel_value" where
  "cel_of_number n =
     (case n of
        PosInt u \<Rightarrow> if unat u < 2 ^ 63 then CInt (uint u) else CUInt u
      | NegInt u \<Rightarrow> CInt (sint u)
      | FloatBits b \<Rightarrow> CFloat b)"

fun json_to_cel :: "json \<Rightarrow> cel_value" where
  "json_to_cel JNull = CNull"
| "json_to_cel (JBool b) = CBool b"
| "json_to_cel (JNum n) = cel_of_number n"
| "json_to_cel (JStr s) = CString s"
| "json_to_cel (JArr vs) = CList (map json_to_cel vs)"
| "json_to_cel (JObj m) = CMap (map (\<lambda>p. (KStr (fst p), json_to_cel (snd p))) m)"

text \<open>An \<open>f64\<close> is finite unless its exponent field is all ones.\<close>

definition f64_is_finite :: "u64 \<Rightarrow> bool" where
  "f64_is_finite b \<longleftrightarrow> (unat b div 2 ^ 52) mod 2048 \<noteq> 2047"

definition show_int :: "int \<Rightarrow> str" where
  "show_int i = (if 0 \<le> i then show_nat (nat i) else CHR ''-'' # show_nat (nat (- i)))"

definition cel_key_text :: "cel_key \<Rightarrow> str" where
  "cel_key_text k =
     (case k of
        KStr s \<Rightarrow> s
      | KInt i \<Rightarrow> show_int i
      | KUint u \<Rightarrow> show_nat (unat u)
      | KBool b \<Rightarrow> (if b then ''true'' else ''false''))"

text \<open>\<open>b64\<close> is the standard base64 encoding.\<close>

fun cel_to_json :: "(str \<Rightarrow> str) \<Rightarrow> cel_value \<Rightarrow> json" where
  "cel_to_json b64 CNull = JNull"
| "cel_to_json b64 (CBool b) = JBool b"
| "cel_to_json b64 (CInt i) = json_of_int i"
| "cel_to_json b64 (CUInt u) = json_of_u64 u"
| "cel_to_json b64 (CFloat f) = (if f64_is_finite f then JNum (FloatBits f) else JNull)"
| "cel_to_json b64 (CString s) = JStr s"
| "cel_to_json b64 (CBytes bs) = JStr (b64 bs)"
| "cel_to_json b64 (CList vs) = JArr (map (cel_to_json b64) vs)"
| "cel_to_json b64 (CMap m) = json_obj (map (\<lambda>p. (cel_key_text (fst p), cel_to_json b64 (snd p))) m)"
| "cel_to_json b64 (CDuration t) = JStr t"
| "cel_to_json b64 (CTimestamp t) = JStr t"
| "cel_to_json b64 (COther t) = JStr t"

section \<open>Evaluation\<close>

record plugin_identity =
  pi_kind :: str
  pi_trust_level :: str
  pi_subject_id :: "str option"
  pi_auth_provider :: "str option"
  pi_issuer :: "str option"
  pi_roles :: "str list"
  pi_groups :: "str list"
  pi_scopes :: "str list"
  pi_attributes :: "str omap"

record client_info =
  ci_name :: str
  ci_version :: "str option"

definition reserved_prefix :: str where "reserved_prefix = ''__mcpg_''"

definition identity_json :: "plugin_identity option \<Rightarrow> json" where
  "identity_json ident =
     (let opt = (\<lambda>sel. case ident of None \<Rightarrow> JNull | Some i \<Rightarrow> json_of_opt_str (sel i));
          strs = (\<lambda>sel. JArr (case ident of None \<Rightarrow> [] | Some i \<Rightarrow> map JStr (sel i)));
          attributes = (case ident of
             None \<Rightarrow> []
           | Some i \<Rightarrow> map (\<lambda>(k, v). (k, JStr v)) (filter (\<lambda>(k, _). \<not> prefix reserved_prefix k) (pi_attributes i)))
      in json_obj
           [(''kind'', JStr (case ident of None \<Rightarrow> ''anonymous'' | Some i \<Rightarrow> pi_kind i)),
            (''trust_level'', JStr (case ident of None \<Rightarrow> ''unauthenticated'' | Some i \<Rightarrow> pi_trust_level i)),
            (''subject_id'', opt pi_subject_id), (''auth_provider'', opt pi_auth_provider),
            (''issuer'', opt pi_issuer), (''roles'', strs pi_roles), (''groups'', strs pi_groups),
            (''scopes'', strs pi_scopes), (''attributes'', json_obj attributes)])"

definition client_json :: "client_info option \<Rightarrow> json" where
  "client_json client =
     json_obj
       [(''name'', json_of_opt_str (map_option ci_name client)),
        (''version'', json_of_opt_str (Option.bind client ci_version))]"

type_synonym cel_run = "str \<Rightarrow> (str \<times> cel_value) list \<Rightarrow> str + cel_value"

definition expr_variables :: "json omap \<Rightarrow> plugin_identity option \<Rightarrow> client_info option \<Rightarrow> (str \<times> cel_value) list" where
  "expr_variables obj ident client =
     [(''arguments'', json_to_cel (JObj obj)), (''identity'', json_to_cel (identity_json ident)),
      (''client'', json_to_cel (client_json client))]"

text \<open>The loop over the expressions: each sees the results of the ones before it.\<close>

fun evaluate_exprs ::
    "cel_run \<Rightarrow> (str \<Rightarrow> str) \<Rightarrow> plugin_identity option \<Rightarrow> client_info option \<Rightarrow> (str \<times> str) list \<Rightarrow> json omap \<Rightarrow>
     json omap sql_result" where
  "evaluate_exprs run b64 ident client [] obj = Inr obj"
| "evaluate_exprs run b64 ident client ((name, source) # exprs) obj =
     (case run source (expr_variables obj ident client) of
        Inl e \<Rightarrow> Inl (invalid ''param_exprs failed'' [name, e, source])
      | Inr out \<Rightarrow> evaluate_exprs run b64 ident client exprs (omap_insert name (cel_to_json b64 out) obj))"

definition evaluate_with_client ::
    "cel_run \<Rightarrow> (str \<Rightarrow> str) \<Rightarrow> json \<Rightarrow> (str \<times> str) list \<Rightarrow> plugin_identity option \<Rightarrow> client_info option \<Rightarrow>
     json sql_result" where
  "evaluate_with_client run b64 args exprs ident client =
     (if exprs = [] then Inr args
      else
        and_then
          (case args of
             JNull \<Rightarrow> Inr []
           | JObj obj \<Rightarrow> Inr obj
           | other \<Rightarrow> Inl (invalid ''param_exprs require an object-shaped args payload'' [json_type other]))
          (\<lambda>obj. and_then (evaluate_exprs run b64 ident client exprs obj) (\<lambda>obj1. Inr (JObj obj1))))"

section \<open>Coercions\<close>

text \<open>A number of \<open>serde_json\<close>: a negative integer is negative and a float is finite.\<close>

definition number_ok :: "number \<Rightarrow> bool" where
  "number_ok n = (case n of PosInt _ \<Rightarrow> True | NegInt u \<Rightarrow> sint u < 0 | FloatBits b \<Rightarrow> f64_is_finite b)"

fun numbers_ok :: "json \<Rightarrow> bool" where
  "numbers_ok (JNum n) = number_ok n"
| "numbers_ok (JArr vs) = (\<forall>v \<in> set vs. numbers_ok v)"
| "numbers_ok (JObj m) = (\<forall>p \<in> set m. numbers_ok (snd p))"
| "numbers_ok _ = True"

lemma cel_to_json_number: "number_ok n \<Longrightarrow> cel_to_json b64 (cel_of_number n) = JNum n"
  by (auto simp: number_ok_def cel_of_number_def json_of_int_def json_of_u64_def split: number.splits)

lemma omap_insert_last:
  "\<forall>p \<in> set m. fst p < k \<Longrightarrow> omap_insert k v m = m @ [(k, v)]"
  by (induction k v m rule: omap_insert.induct) auto

lemma json_obj_sorted: "omap_ok m \<Longrightarrow> json_obj m = JObj m"
  unfolding json_obj_def
proof (induction m rule: rev_induct)
  case (snoc p m)
  then have "fold (\<lambda>(k, v). omap_insert k v) m [] = m" "\<forall>q \<in> set m. fst q < fst p"
    by (auto simp: omap_ok_def sorted_wrt_append)
  then show ?case by (cases p) (simp add: omap_insert_last)
qed simp

text \<open>
  Converting a JSON value to a CEL value and back gives the same value: an argument that an
  expression passes through (\<open>x: "arguments.x"\<close>) is bound unchanged, whatever its type, its size or its
  nesting, the integers above \<open>i64::MAX\<close> included.
\<close>

theorem cel_json_roundtrip:
  "json_ok v \<Longrightarrow> numbers_ok v \<Longrightarrow> cel_to_json b64 (json_to_cel v) = v"
proof (induction v rule: json_to_cel.induct)
  case (5 vs)
  then show ?case by (simp add: map_idI)
next
  case (6 m)
  then have "map ((\<lambda>p. (cel_key_text (fst p), cel_to_json b64 (snd p))) \<circ>
                  (\<lambda>p. (KStr (fst p), json_to_cel (snd p)))) m = m"
    by (intro map_idI) (auto simp: cel_key_text_def)
  then show ?case using 6(2) by (simp add: json_obj_sorted)
qed (simp_all add: cel_to_json_number)

lemma cel_json_roundtrip_witness:
  "cel_to_json (\<lambda>_. []) (json_to_cel (JObj [(''a'', JArr [JNum (NegInt (- 5)), JStr ''x'']), (''b'', JNum (PosInt (- 1)))]))
     = JObj [(''a'', JArr [JNum (NegInt (- 5)), JStr ''x'']), (''b'', JNum (PosInt (- 1)))]"
  by (rule cel_json_roundtrip) (code_simp, simp add: number_ok_def)

section \<open>Computed parameters\<close>

text \<open>An expression that does not read the arguments.\<close>

definition ignores_arguments :: "cel_run \<Rightarrow> str \<Rightarrow> bool" where
  "ignores_arguments run source \<longleftrightarrow>
     (\<forall>a b vars. run source ((''arguments'', a) # vars) = run source ((''arguments'', b) # vars))"

lemma evaluate_exprs_keeps:
  "evaluate_exprs run b64 ident client exprs obj = Inr obj1 \<Longrightarrow> name \<notin> fst ` set exprs \<Longrightarrow>
   omap_ok obj \<Longrightarrow> omap_get obj1 name = omap_get obj name"
  by (induction exprs arbitrary: obj) (auto split: sum.splits simp: omap_ok_insert)

lemma evaluate_exprs_ok:
  "evaluate_exprs run b64 ident client exprs obj = Inr obj1 \<Longrightarrow> omap_ok obj \<Longrightarrow> omap_ok obj1"
  by (induction exprs arbitrary: obj) (auto split: sum.splits simp: omap_ok_insert)

lemma evaluate_exprs_computed:
  assumes "evaluate_exprs run b64 ident client exprs obj = Inr obj1"
    and "(name, source) \<in> set exprs" and "distinct (map fst exprs)" and "omap_ok obj"
    and "ignores_arguments run source"
  shows "\<exists>out. run source (expr_variables [] ident client) = Inr out \<and> omap_get obj1 name = Some (cel_to_json b64 out)"
  using assms(1-4)
proof (induction exprs arbitrary: obj)
  case (Cons e exprs)
  obtain n s where e: "e = (n, s)" by (cases e)
  with Cons.prems(1) obtain out where out: "run s (expr_variables obj ident client) = Inr out"
    and rest: "evaluate_exprs run b64 ident client exprs (omap_insert n (cel_to_json b64 out) obj) = Inr obj1"
    by (auto split: sum.splits)
  have ok: "omap_ok (omap_insert n (cel_to_json b64 out) obj)" using Cons.prems(4) by (rule omap_ok_insert)
  show ?case
  proof (cases "(name, source) = (n, s)")
    case True
    have "run source (expr_variables obj ident client) = run source (expr_variables [] ident client)"
      using assms(5) unfolding ignores_arguments_def expr_variables_def by blast
    moreover have "omap_get obj1 name = Some (cel_to_json b64 out)"
      using evaluate_exprs_keeps [OF rest _ ok, of name] True Cons.prems(3,4) e by simp
    ultimately show ?thesis using out True by (intro exI [of _ out]) simp
  next
    case False
    then show ?thesis using Cons.IH [OF rest _ _ ok] Cons.prems(2,3) e by auto
  qed
qed simp

text \<open>
  C34. A computed parameter is not the caller's to choose: after evaluation it holds the value of its
  expression, the one it has for an empty argument map when the expression does not read the
  arguments, whatever the caller sent under that name; and a name no expression computes keeps the
  caller's value.
\<close>

theorem param_exprs_override:
  assumes "evaluate_with_client run b64 args exprs ident client = Inr args1"
    and "(name, source) \<in> set exprs" and "distinct (map fst exprs)" and "json_ok args"
    and "ignores_arguments run source"
  shows "\<exists>out. run source (expr_variables [] ident client) = Inr out
           \<and> json_get args1 name = Some (cel_to_json b64 out)
           \<and> (\<forall>other. other \<notin> fst ` set exprs \<longrightarrow> json_get args1 other = json_get args other)"
proof -
  have ne: "exprs \<noteq> []" using assms(2) by auto
  obtain obj obj1 where obj: "args = JNull \<and> obj = [] \<or> args = JObj obj"
    and ev: "evaluate_exprs run b64 ident client exprs obj = Inr obj1" and a1: "args1 = JObj obj1"
    using assms(1) ne by (auto simp: evaluate_with_client_def split: json.splits)
  have ok: "omap_ok obj" using obj assms(4) by auto
  have "json_get args other = omap_get obj other" for other using obj by auto
  then show ?thesis
    using evaluate_exprs_computed [OF ev assms(2,3) ok assms(5)] evaluate_exprs_keeps [OF ev _ ok] a1
    by auto
qed

text \<open>A program of the given source that answers the subject of the identity.\<close>

definition sample_run :: cel_run where
  "sample_run source vars =
     (case map_of vars ''identity'' of
        Some (CMap m) \<Rightarrow> (case map_of m (KStr ''subject_id'') of Some v \<Rightarrow> Inr v | None \<Rightarrow> Inl ''no such key'')
      | _ \<Rightarrow> Inl ''no such variable'')"

lemma param_exprs_override_witness:
  "\<exists>args1. evaluate_with_client sample_run (\<lambda>_. []) (JObj [(''author'', JStr ''mallory''), (''id'', JStr ''7'')])
       [(''author'', ''identity.subject_id'')] None None = Inr args1
     \<and> json_get args1 ''author'' = Some JNull \<and> json_get args1 ''id'' = Some (JStr ''7'')"
proof -
  let ?args = "JObj [(''author'', JStr ''mallory''), (''id'', JStr ''7'')]"
  have ev: "evaluate_with_client sample_run (\<lambda>_. []) ?args [(''author'', ''identity.subject_id'')] None None
              = Inr (JObj [(''author'', JNull), (''id'', JStr ''7'')])"
    by code_simp
  have "ignores_arguments sample_run ''identity.subject_id''"
    by (simp add: ignores_arguments_def sample_run_def)
  moreover have "json_ok ?args" by code_simp
  ultimately have "\<exists>out. sample_run ''identity.subject_id'' (expr_variables [] None None) = Inr out
      \<and> json_get (JObj [(''author'', JNull), (''id'', JStr ''7'')]) ''author'' = Some (cel_to_json (\<lambda>_. []) out)
      \<and> (\<forall>other. other \<notin> fst ` set [(''author'', ''identity.subject_id'')] \<longrightarrow>
            json_get (JObj [(''author'', JNull), (''id'', JStr ''7'')]) other = json_get ?args other)"
    by (intro param_exprs_override [OF ev]) simp_all
  then show ?thesis using ev by (auto simp: omap_get_def)
qed

definition visible_attributes :: "str omap \<Rightarrow> json omap" where
  "visible_attributes attrs = map (\<lambda>(k, v). (k, JStr v)) (filter (\<lambda>(k, _). \<not> prefix reserved_prefix k) attrs)"

lemma visible_attributes_get:
  "omap_get (visible_attributes attrs) k =
     (if prefix reserved_prefix k then None else map_option JStr (omap_get attrs k))"
  by (induction attrs) (auto simp: omap_get_def visible_attributes_def)

lemma visible_attributes_ok: "omap_ok attrs \<Longrightarrow> omap_ok (visible_attributes attrs)"
proof -
  have "map fst (visible_attributes attrs) = filter (\<lambda>k. \<not> prefix reserved_prefix k) (map fst attrs)"
    by (induction attrs) (auto simp: visible_attributes_def)
  then show "omap_ok attrs \<Longrightarrow> ?thesis" by (simp add: omap_ok_def sorted_wrt_filter)
qed

text \<open>
  The attributes an expression sees through \<open>identity\<close> are the caller's, minus every key in the
  reserved namespace \<open>__mcpg_\<close>, for which it sees none.
\<close>

theorem identity_reserved_hidden:
  assumes "omap_ok (pi_attributes i)"
  shows "\<exists>attributes. json_get (identity_json (Some i)) ''attributes'' = Some (JObj attributes)
           \<and> (\<forall>k. omap_get attributes k =
                 (if prefix reserved_prefix k then None else map_option JStr (omap_get (pi_attributes i) k)))"
  using visible_attributes_ok [OF assms] visible_attributes_get [of "pi_attributes i"]
  by (simp add: identity_json_def Let_def json_obj_get json_obj_sorted flip: visible_attributes_def)

definition sample_identity :: plugin_identity where
  "sample_identity =
     \<lparr>pi_kind = ''user'', pi_trust_level = ''verified'', pi_subject_id = Some ''u1'', pi_auth_provider = None,
      pi_issuer = None, pi_roles = [], pi_groups = [], pi_scopes = [],
      pi_attributes = [(''__mcpg_tag'', ''s''), (''tenant'', ''acme'')]\<rparr>"

lemma identity_reserved_hidden_witness:
  "\<exists>attributes. json_get (identity_json (Some sample_identity)) ''attributes'' = Some (JObj attributes)
     \<and> omap_get attributes ''__mcpg_tag'' = None \<and> omap_get attributes ''tenant'' = Some (JStr ''acme'')"
proof -
  have "omap_ok (pi_attributes sample_identity)" by code_simp
  from identity_reserved_hidden [OF this] obtain attributes where
    a: "json_get (identity_json (Some sample_identity)) ''attributes'' = Some (JObj attributes)"
    and g: "\<forall>k. omap_get attributes k =
      (if prefix reserved_prefix k then None else map_option JStr (omap_get (pi_attributes sample_identity) k))"
    by blast
  show ?thesis
    using a spec [OF g, of "''__mcpg_tag''"] spec [OF g, of "''tenant''"]
    by (simp add: reserved_prefix_def sample_identity_def omap_get_def)
qed

end
