(* ===== verification/Cost.thy ===== *)
theory Cost
  imports Exprs
begin

text \<open>
  \<open>src/cost.rs\<close> and the charge and refund helpers of \<open>src/lib.rs\<close>.  Amounts are the bits of an
  \<open>f64\<close>; multiplication and comparison are IEEE 754's, the product rounded exactly by \<open>f64_bits\<close>.  A
  recorded charge or refund is a \<open>cost_event\<close>.
\<close>

section \<open>Floating-point arithmetic\<close>

text \<open>The sign, and the exponent and significand fields as one number.\<close>

definition f64_sign :: "u64 \<Rightarrow> bool" where
  "f64_sign b \<longleftrightarrow> 2 ^ 63 \<le> unat b"

definition f64_mag :: "u64 \<Rightarrow> nat" where
  "f64_mag b = unat b mod 2 ^ 63"

definition f64_inf :: nat where "f64_inf = 2047 * 2 ^ 52"

definition f64_is_nan :: "u64 \<Rightarrow> bool" where
  "f64_is_nan b \<longleftrightarrow> f64_inf < f64_mag b"

text \<open>The magnitude as a multiple of the smallest subnormal, \<open>2\<^sup>-\<^sup>1\<^sup>0\<^sup>7\<^sup>4\<close>.\<close>

definition mag_units :: "nat \<Rightarrow> nat" where
  "mag_units m = (if m < 2 ^ 52 then m else (2 ^ 52 + m mod 2 ^ 52) * 2 ^ (m div 2 ^ 52 - 1))"

definition f64_value :: "u64 \<Rightarrow> int" where
  "f64_value b = (if f64_sign b then - int (mag_units (f64_mag b)) else int (mag_units (f64_mag b)))"

definition f64_of :: "bool \<Rightarrow> nat \<Rightarrow> u64" where
  "f64_of neg m = of_nat ((if neg then 2 ^ 63 else 0) + m)"

definition f64_mul :: "u64 \<Rightarrow> u64 \<Rightarrow> u64" where
  "f64_mul a b =
     (let ma = f64_mag a; mb = f64_mag b; neg = (f64_sign a \<noteq> f64_sign b)
      in if f64_inf < ma \<or> f64_inf < mb \<or> (ma = f64_inf \<and> mb = 0) \<or> (mb = f64_inf \<and> ma = 0)
         then f64_of False (4095 * 2 ^ 51)
         else if ma = f64_inf \<or> mb = f64_inf then f64_of neg f64_inf
         else f64_of neg (f64_bits (mag_units ma * mag_units mb) (2 ^ 2148)))"

definition f64_of_nat :: "nat \<Rightarrow> u64" where
  "f64_of_nat n = f64_of False (f64_bits n 1)"

definition f64_of_int :: "int \<Rightarrow> u64" where
  "f64_of_int i = f64_of (i < 0) (f64_bits (nat \<bar>i\<bar>) 1)"

text \<open>The order of the numbers is the order of the fields, with the sign.\<close>

definition f64_key :: "u64 \<Rightarrow> int" where
  "f64_key b = (if f64_sign b then - int (f64_mag b) else int (f64_mag b))"

definition f64_less :: "u64 \<Rightarrow> u64 \<Rightarrow> bool" where
  "f64_less a b \<longleftrightarrow> \<not> f64_is_nan a \<and> \<not> f64_is_nan b \<and> f64_key a < f64_key b"

section \<open>Charges\<close>

definition cel_value_to_f64 :: "cel_value \<Rightarrow> u64 option" where
  "cel_value_to_f64 v =
     (case v of
        CInt i \<Rightarrow> Some (f64_of_int i)
      | CUInt u \<Rightarrow> Some (f64_of_nat (unat u))
      | CFloat f \<Rightarrow> Some f
      | CString s \<Rightarrow> map_option lit_bits (parse_f64_lit s)
      | _ \<Rightarrow> None)"

definition cel_value_from_json :: "json \<Rightarrow> cel_value" where
  "cel_value_from_json v = json_to_cel v"

definition resolve_base :: "cel_run \<Rightarrow> backend_cost \<Rightarrow> json \<Rightarrow> u64 sql_result" where
  "resolve_base run c arguments =
     (case bc_amount c of
        Some amt \<Rightarrow> Inr (lit_bits amt)
      | None \<Rightarrow>
          (case bc_expression c of
             None \<Rightarrow> Inl (invalid ''cost spec has neither amount nor expression'' [])
           | Some program \<Rightarrow>
               (case run program [(''arguments'', cel_value_from_json arguments)] of
                  Inl e \<Rightarrow> Inl (invalid ''cost.expression evaluation failed'' [e, bc_source c])
                | Inr result \<Rightarrow>
                    ok_or (cel_value_to_f64 result)
                      (invalid ''cost.expression must evaluate to a positive number'' [bc_source c]))))"

definition compute :: "cel_run \<Rightarrow> backend_cost \<Rightarrow> json \<Rightarrow> u64 \<Rightarrow> u64 \<Rightarrow> u64 sql_result" where
  "compute run c arguments row_count payload_bytes =
     and_then (resolve_base run c arguments) (\<lambda>base.
     let amplified =
           (case bc_unit c of
              PerCall \<Rightarrow> base
            | PerQuery \<Rightarrow> base
            | PerRow \<Rightarrow> f64_mul base (f64_of_nat (unat row_count))
            | PerByte \<Rightarrow> f64_mul base (f64_of_nat (unat payload_bytes)))
     in if \<not> f64_is_finite amplified \<or> f64_less amplified 0 then
          Inl (invalid ''cost computed to non-finite or negative amount'' [])
        else
          (case bc_max_per_call c of
             None \<Rightarrow> Inr amplified
           | Some cap \<Rightarrow>
               if f64_less (lit_bits cap) amplified then
                 Inl (invalid ''cost exceeds cost.max_per_call; refusing the call'' [bc_currency c])
               else Inr amplified))"

datatype cost_event =
    Charged str u64 u64 u64
  | Refunded str str u64

text \<open>\<open>try_emit_charge\<close>: what is recorded, and the error when the charge cannot be computed.\<close>

definition try_emit_charge ::
    "cel_run \<Rightarrow> (sql_error \<Rightarrow> backend_error) \<Rightarrow> profile_runtime \<Rightarrow> str \<Rightarrow> json \<Rightarrow> u64 \<Rightarrow> u64 \<Rightarrow>
     cost_event list \<times> unit backend_result" where
  "try_emit_charge run to_be rt backend_name args row_count payload_bytes =
     (case rt_cost rt of
        None \<Rightarrow> ([], Inr ())
      | Some c \<Rightarrow>
          (case compute run c args row_count payload_bytes of
             Inl e \<Rightarrow> ([], Inl (to_be e))
           | Inr amount \<Rightarrow> ([Charged backend_name amount row_count payload_bytes], Inr ())))"

definition refund_amount :: "cel_run \<Rightarrow> backend_cost \<Rightarrow> json \<Rightarrow> u64" where
  "refund_amount run c arguments =
     (if bc_unit c = PerCall \<or> bc_unit c = PerQuery
      then (case resolve_base run c arguments of Inl _ \<Rightarrow> 0 | Inr base \<Rightarrow> base)
      else 0)"

definition try_emit_refund ::
    "cel_run \<Rightarrow> profile_runtime \<Rightarrow> str \<Rightarrow> json \<Rightarrow> str \<Rightarrow> cost_event list" where
  "try_emit_refund run rt backend_name args reason =
     (case rt_cost rt of
        None \<Rightarrow> []
      | Some c \<Rightarrow> [Refunded backend_name reason (refund_amount run c args)])"

section \<open>The bound on a charge\<close>

lemma mag_units_step: "mag_units m < mag_units (Suc m)"
proof (cases "Suc m < 2 ^ 52")
  case False
  show ?thesis
  proof (cases "m < 2 ^ 52")
    case True
    then have "m = 2 ^ 52 - 1" using False by simp
    then show ?thesis by (simp add: mag_units_def)
  next
    case ge: False
    define e r where "e = m div 4503599627370496" and "r = m mod 4503599627370496"
    have m: "m = e * 2 ^ 52 + r" "r < 2 ^ 52" "1 \<le> e"
      using ge by (simp_all add: e_def r_def div_greater_zero_iff Suc_le_eq)
    show ?thesis
    proof (cases "Suc r < 2 ^ 52")
      case True
      then have "Suc m div 2 ^ 52 = e" "Suc m mod 2 ^ 52 = Suc r"
        using m by simp_all
      then show ?thesis using ge by (simp add: mag_units_def flip: e_def r_def)
    next
      case False
      then have r: "Suc r = 2 ^ 52" using m by simp
      then have "Suc m = Suc e * 2 ^ 52" using m by simp
      then have d: "Suc m div 2 ^ 52 = Suc e" "Suc m mod 2 ^ 52 = 0" by simp_all
      have p: "(2::nat) ^ e = 2 * 2 ^ (e - 1)"
        using m(3) by (cases e) simp_all
      have "(2 ^ 52 + r) * 2 ^ (e - 1) < (2 ^ 52 + 2 ^ 52) * (2::nat) ^ (e - 1)"
        using m(2) by (intro mult_strict_right_mono) simp_all
      also have "\<dots> = 2 ^ 52 * 2 ^ e" using p by simp
      finally show ?thesis using ge d by (simp add: mag_units_def flip: e_def r_def)
    qed
  qed
qed (simp add: mag_units_def)

lemma mag_units_mono: "m \<le> n \<Longrightarrow> mag_units m \<le> mag_units n"
  by (rule lift_Suc_mono_le [of mag_units]) (simp_all add: less_imp_le mag_units_step)

lemma f64_value_mono:
  assumes "f64_key a \<le> f64_key b"
  shows "f64_value a \<le> f64_value b"
proof (cases "f64_sign a = f64_sign b")
  case True
  then show ?thesis
    using assms by (cases "f64_sign a") (simp_all add: f64_key_def f64_value_def mag_units_mono)
next
  case False
  have zero: "mag_units 0 = 0" by (simp add: mag_units_def)
  show ?thesis
  proof (cases "f64_sign a")
    case True
    then show ?thesis using False by (simp add: f64_value_def)
  next
    case pos: False
    then have "f64_mag a = 0" "f64_mag b = 0" using False assms by (simp_all add: f64_key_def)
    then show ?thesis by (simp add: f64_value_def zero)
  qed
qed

lemma f64_mag_of: "m < 2 ^ 63 \<Longrightarrow> f64_mag (f64_of neg m) = m"
proof -
  assume m: "m < 2 ^ 63"
  define n where "n = (if neg then 2 ^ 63 else 0) + m"
  have "n < 2 ^ 64" using m by (simp add: n_def)
  then have "unat (of_nat n :: u64) = n" by (simp add: unat_of_nat)
  then have "unat (f64_of neg m) = (if neg then 2 ^ 63 else 0) + m"
    by (simp only: f64_of_def n_def)
  then show ?thesis using m by (simp add: f64_mag_def)
qed

lemma f64_bits_le: "f64_bits num den \<le> f64_inf"
  by (simp add: f64_bits_def f64_inf_def Let_def)

lemma lit_bits_not_nan: "lit_is_finite l \<Longrightarrow> \<not> f64_is_nan (lit_bits l)"
proof -
  assume fin: "lit_is_finite l"
  then obtain neg m e where l: "l = LitDec neg m e"
    by (cases l) (simp_all add: lit_is_finite_def)
  define b where "b = (if 0 \<le> e then f64_bits (m * 10 ^ nat e) 1 else f64_bits m (10 ^ nat (- e)))"
  have le: "b \<le> f64_inf" using f64_bits_le by (simp add: b_def)
  then have "b < 2 ^ 63" by (simp add: f64_inf_def)
  moreover have "lit_bits l = f64_of neg b" by (simp add: l lit_bits_def f64_of_def b_def)
  ultimately show ?thesis using le by (simp add: f64_is_nan_def f64_mag_of)
qed

lemma finite_not_nan: "f64_is_finite b \<Longrightarrow> \<not> f64_is_nan b"
proof
  assume fin: "f64_is_finite b" and nan: "f64_is_nan b"
  have "unat b < 2 ^ LENGTH(64)" by (rule unsigned_less)
  then have "f64_mag b = unat b \<or> unat b = 2 ^ 63 + f64_mag b"
    by (cases "unat b < 2 ^ 63") (simp_all add: f64_mag_def le_mod_geq)
  moreover have "f64_mag b div 4503599627370496 = 2047"
  proof (rule div_nat_eqI)
    show "4503599627370496 * 2047 \<le> f64_mag b" using nan by (simp add: f64_is_nan_def f64_inf_def)
    show "f64_mag b < 4503599627370496 * Suc 2047" by (simp add: f64_mag_def)
  qed
  moreover have "(2048 * 4503599627370496 + f64_mag b) div 4503599627370496 = 2048 + f64_mag b div 4503599627370496"
    by (rule div_mult_self3) simp
  ultimately show False using fin by (auto simp: f64_is_finite_def)
qed

text \<open>
  C35. A charge that is recorded is a finite amount, not below zero and, as a number, not above the
  operator's cap per call, whatever the expression answers and however many rows or bytes it is
  multiplied by.
\<close>

theorem charge_within_cap:
  assumes "compute run c arguments row_count payload_bytes = Inr amount"
    and "pred_option lit_is_finite (bc_max_per_call c)"
  shows "f64_is_finite amount \<and> 0 \<le> f64_value amount
           \<and> (case bc_max_per_call c of None \<Rightarrow> True | Some cap \<Rightarrow> f64_value amount \<le> f64_value (lit_bits cap))"
proof -
  have fin: "f64_is_finite amount" and nonneg: "\<not> f64_less amount 0"
    and cap: "bc_max_per_call c = Some cap \<Longrightarrow> \<not> f64_less (lit_bits cap) amount" for cap
    using assms(1) by (auto simp: compute_def Let_def split: if_splits option.splits)
  have nan: "\<not> f64_is_nan amount" using fin by (rule finite_not_nan)
  have zero: "f64_value 0 = 0" "\<not> f64_is_nan 0"
    by (simp_all add: f64_value_def f64_mag_def mag_units_def f64_is_nan_def)
  have "f64_key 0 \<le> f64_key amount" using nonneg nan zero(2) by (simp add: f64_less_def)
  then have "0 \<le> f64_value amount" using f64_value_mono [of 0 amount] zero(1) by simp
  moreover have "f64_value amount \<le> f64_value (lit_bits c')" if "bc_max_per_call c = Some c'" for c'
    using cap [OF that] assms(2) that nan by (intro f64_value_mono) (simp add: f64_less_def lit_bits_not_nan)
  ultimately show ?thesis using fin by (simp split: option.splits)
qed

text \<open>One half per call, under a cap of two.\<close>

definition sample_backend_cost :: backend_cost where
  "sample_backend_cost =
     \<lparr>bc_unit = PerCall, bc_currency = ''USD'', bc_amount = Some (LitDec False 5 (- 1)), bc_expression = None,
      bc_source = ''0.5'', bc_max_per_call = Some (LitDec False 2 0)\<rparr>"

lemma sample_bits: "lit_bits (LitDec False 5 (- 1)) = 0x3FE0000000000000" "lit_bits (LitDec False 2 0) = 0x4000000000000000"
  by (simp_all add: lit_bits_def f64_bits_def floor_log2_def round_div_def bit_length.simps Let_def)

lemma charge_within_cap_witness:
  "compute sample_run sample_backend_cost JNull 3 40 = Inr 0x3FE0000000000000
     \<and> f64_value 0x3FE0000000000000 \<le> f64_value 0x4000000000000000"
proof -
  have eq: "compute sample_run sample_backend_cost JNull 3 40 = Inr 0x3FE0000000000000"
    by (simp add: compute_def sample_backend_cost_def resolve_base_def sample_bits f64_is_finite_def f64_less_def
        f64_key_def f64_sign_def f64_mag_def)
  have "pred_option lit_is_finite (bc_max_per_call sample_backend_cost)"
    by (simp add: sample_backend_cost_def lit_is_finite_def)
  from charge_within_cap [OF eq this] eq show ?thesis
    by (simp add: sample_backend_cost_def sample_bits)
qed

end
