(* ===== verification/Transaction.thy ===== *)
theory Transaction
  imports Registration
begin

text \<open>
  \<open>src/transaction.rs\<close> and the \<open>sql_tx\<close> half of \<open>src/lib.rs\<close> (\<open>begin_transaction\<close>,
  \<open>run_tx_nested_step\<close>, \<open>execute_transaction\<close>).  A handle is the \<open>Option\<close> inside its mutex and the
  trace of what was sent on the pinned connection; what the connection answers is a function of that
  trace, in \<open>tx_env\<close>.  The trait \<open>SqlTxHandle\<close> is the locale \<open>tx_handle\<close>: its laws are proved for the
  PostgreSQL, the MySQL and the SQLite handle, and the transaction group is verified once, in the
  locale.
\<close>

section \<open>Handles\<close>

datatype tx_event =
    BeginTx
  | SetIsolation str
  | SetVar str str
  | ClearVar str
  | Fetch prepared_stmt "bound_param list"
  | Exec prepared_stmt "bound_param list"
  | CommitTx
  | RollbackTx
  | DropTx

type_synonym tx_trace = "tx_event list"

text \<open>\<open>RowBatch\<close> of \<open>src/driver/mod.rs\<close>.\<close>

record row_batch =
  rb_columns :: "str list"
  rb_rows :: "json list"
  rb_rows_affected :: "u64 option"
  rb_truncated :: bool
  rb_has_more :: bool

text \<open>
  A fetched row: its columns with what \<open>try_get\<close> answers as an integer and as a string (an error, a
  null or a value), and what the driver's own row decoder makes of it.
\<close>

record raw_row =
  rr_columns :: "(str \<times> int option option \<times> str option option) list"
  rr_decoded :: "json sql_result"

record tx_env =
  te_begin :: "sqlx_error + unit"
  te_isolation :: "str \<Rightarrow> sqlx_error + unit"
  te_set :: "tx_trace \<Rightarrow> str \<Rightarrow> str \<Rightarrow> sqlx_error + unit"
  te_fetch :: "tx_trace \<Rightarrow> prepared_stmt \<Rightarrow> bound_param list \<Rightarrow> sqlx_error + raw_row list"
  te_exec :: "tx_trace \<Rightarrow> prepared_stmt \<Rightarrow> bound_param list \<Rightarrow> sqlx_error + u64"
  te_commit :: "tx_trace \<Rightarrow> sqlx_error + unit"
  te_rollback :: "tx_trace \<Rightarrow> sqlx_error + unit"

record tx_handle_state =
  tx_open :: bool
  tx_trace :: tx_trace

definition closed_error :: sql_error where
  "closed_error = invalid ''transaction already closed'' []"

definition send :: "tx_event list \<Rightarrow> tx_handle_state \<Rightarrow> tx_handle_state" where
  "send evs h = h\<lparr>tx_trace := tx_trace h @ evs\<rparr>"

definition batch_of :: "str list \<Rightarrow> json list \<Rightarrow> row_batch" where
  "batch_of columns rows =
     \<lparr>rb_columns = columns, rb_rows = rows, rb_rows_affected = None, rb_truncated = False,
      rb_has_more = False\<rparr>"

definition first_columns :: "raw_row list \<Rightarrow> str list" where
  "first_columns rows = (case rows of [] \<Rightarrow> [] | r # _ \<Rightarrow> map fst (rr_columns r))"

text \<open>Setting the session variables one after the other, up to the first error.\<close>

fun set_vars :: "tx_env \<Rightarrow> (str \<times> str) list \<Rightarrow> tx_handle_state \<Rightarrow> tx_handle_state \<times> (sqlx_error + unit)" where
  "set_vars env [] h = (h, Inr ())"
| "set_vars env ((k, v) # vars) h =
     (case te_set env (tx_trace h) k v of
        Inl e \<Rightarrow> (send [SetVar k v] h, Inl e)
      | Inr _ \<Rightarrow> set_vars env vars (send [SetVar k v] h))"

text \<open>
  After a successful fetch: a row that does not decode returns at once, and the transaction taken out
  of the mutex is dropped; otherwise it is put back.
\<close>

definition finish_rows ::
    "raw_row list \<Rightarrow> tx_handle_state \<Rightarrow> tx_handle_state \<times> row_batch sql_result" where
  "finish_rows rows h =
     (case try_map rr_decoded rows of
        Inl e \<Rightarrow> (send [DropTx] (h\<lparr>tx_open := False\<rparr>), Inl e)
      | Inr out \<Rightarrow> (h, Inr (batch_of (first_columns rows) out)))"

subsection \<open>PostgreSQL\<close>

definition pg_execute ::
    "tx_env \<Rightarrow> prepared_stmt \<Rightarrow> bound_param list \<Rightarrow> (str \<times> str) list \<Rightarrow> tx_handle_state \<Rightarrow>
     tx_handle_state \<times> row_batch sql_result" where
  "pg_execute env stmt args session h =
     (if \<not> tx_open h then (h, Inl closed_error)
      else
        (case set_vars env session h of
           (h1, Inl e) \<Rightarrow> (h1, Inl (from_execute e))
         | (h1, Inr _) \<Rightarrow>
             (case te_fetch env (tx_trace h1) stmt args of
                Inl e \<Rightarrow> (send [Fetch stmt args] h1, Inl (from_execute e))
              | Inr rows \<Rightarrow> finish_rows rows (send [Fetch stmt args] h1))))"

definition pg_execute_affected ::
    "tx_env \<Rightarrow> prepared_stmt \<Rightarrow> bound_param list \<Rightarrow> (str \<times> str) list \<Rightarrow> tx_handle_state \<Rightarrow>
     tx_handle_state \<times> u64 sql_result" where
  "pg_execute_affected env stmt args session h =
     (if \<not> tx_open h then (h, Inl closed_error)
      else
        (case set_vars env session h of
           (h1, Inl e) \<Rightarrow> (h1, Inl (from_execute e))
         | (h1, Inr _) \<Rightarrow>
             (send [Exec stmt args] h1, map_err from_execute (te_exec env (tx_trace h1) stmt args))))"

subsection \<open>MySQL\<close>

text \<open>The teardown sends one statement per variable; its errors are only logged.\<close>

definition clear_session_vars :: "(str \<times> str) list \<Rightarrow> tx_handle_state \<Rightarrow> tx_handle_state" where
  "clear_session_vars session h = send (map (\<lambda>(k, _). ClearVar k) session) h"

definition mysql_execute ::
    "tx_env \<Rightarrow> prepared_stmt \<Rightarrow> bound_param list \<Rightarrow> (str \<times> str) list \<Rightarrow> tx_handle_state \<Rightarrow>
     tx_handle_state \<times> row_batch sql_result" where
  "mysql_execute env stmt args session h =
     (if \<not> tx_open h then (h, Inl closed_error)
      else
        (case set_vars env session h of
           (h1, Inl e) \<Rightarrow> (h1, Inl (from_execute e))
         | (h1, Inr _) \<Rightarrow>
             (let h2 = clear_session_vars session (send [Fetch stmt args] h1)
              in case te_fetch env (tx_trace h1) stmt args of
                   Inl e \<Rightarrow> (h2, Inl (from_execute e))
                 | Inr rows \<Rightarrow> finish_rows rows h2)))"

definition mysql_execute_affected ::
    "tx_env \<Rightarrow> prepared_stmt \<Rightarrow> bound_param list \<Rightarrow> (str \<times> str) list \<Rightarrow> tx_handle_state \<Rightarrow>
     tx_handle_state \<times> u64 sql_result" where
  "mysql_execute_affected env stmt args session h =
     (if \<not> tx_open h then (h, Inl closed_error)
      else
        (case set_vars env session h of
           (h1, Inl e) \<Rightarrow> (h1, Inl (from_execute e))
         | (h1, Inr _) \<Rightarrow>
             (clear_session_vars session (send [Exec stmt args] h1),
              map_err from_execute (te_exec env (tx_trace h1) stmt args))))"

subsection \<open>SQLite\<close>

definition sqlite_value :: "int option option \<Rightarrow> str option option \<Rightarrow> json" where
  "sqlite_value as_int as_text =
     (case as_int of
        Some v \<Rightarrow> (case v of Some n \<Rightarrow> json_of_int n | None \<Rightarrow> JNull)
      | None \<Rightarrow> (case as_text of Some (Some t) \<Rightarrow> JStr t | _ \<Rightarrow> JNull))"

definition sqlite_row :: "raw_row \<Rightarrow> json" where
  "sqlite_row r = json_obj (map (\<lambda>(name, i, t). (name, sqlite_value i t)) (rr_columns r))"

definition sqlite_execute ::
    "tx_env \<Rightarrow> prepared_stmt \<Rightarrow> bound_param list \<Rightarrow> (str \<times> str) list \<Rightarrow> tx_handle_state \<Rightarrow>
     tx_handle_state \<times> row_batch sql_result" where
  "sqlite_execute env stmt args session h =
     (if \<not> tx_open h then (h, Inl closed_error)
      else
        (send [Fetch stmt args] h,
         (case te_fetch env (tx_trace h) stmt args of
            Inl e \<Rightarrow> Inl (from_execute e)
          | Inr rows \<Rightarrow> Inr (batch_of [] (map sqlite_row rows)))))"

definition sqlite_execute_affected ::
    "tx_env \<Rightarrow> prepared_stmt \<Rightarrow> bound_param list \<Rightarrow> (str \<times> str) list \<Rightarrow> tx_handle_state \<Rightarrow>
     tx_handle_state \<times> u64 sql_result" where
  "sqlite_execute_affected env stmt args session h =
     (if \<not> tx_open h then (h, Inl closed_error)
      else
        (send [Exec stmt args] h, map_err from_execute (te_exec env (tx_trace h) stmt args)))"

subsection \<open>Termination, the same for every engine\<close>

definition tx_commit :: "tx_env \<Rightarrow> tx_handle_state \<Rightarrow> tx_handle_state \<times> unit sql_result" where
  "tx_commit env h =
     (if \<not> tx_open h then (h, Inl closed_error)
      else (send [CommitTx] (h\<lparr>tx_open := False\<rparr>), map_err from_execute (te_commit env (tx_trace h))))"

definition tx_rollback :: "tx_env \<Rightarrow> tx_handle_state \<Rightarrow> tx_handle_state \<times> unit sql_result" where
  "tx_rollback env h =
     (if \<not> tx_open h then (h, Inl closed_error)
      else (send [RollbackTx] (h\<lparr>tx_open := False\<rparr>), map_err from_execute (te_rollback env (tx_trace h))))"

definition tx_is_closed :: "tx_handle_state \<Rightarrow> bool" where
  "tx_is_closed h \<longleftrightarrow> \<not> tx_open h"

section \<open>Groups\<close>

record tx_step =
  ts_id :: str
  ts_sql :: str
  ts_params :: "str list"
  ts_row_mode :: str

record tx_group =
  tg_steps :: "tx_step list"
  tg_step_input :: json

definition tx_first_scalar :: "row_batch \<Rightarrow> json" where
  "tx_first_scalar batch =
     (case rb_rows batch of
        [] \<Rightarrow> JNull
      | row # _ \<Rightarrow> (case row of JObj m \<Rightarrow> (case omap_first m of Some v \<Rightarrow> v | None \<Rightarrow> JNull) | other \<Rightarrow> other))"

type_synonym exec_op =
  "prepared_stmt \<Rightarrow> bound_param list \<Rightarrow> (str \<times> str) list \<Rightarrow> tx_handle_state \<Rightarrow> tx_handle_state \<times> row_batch sql_result"
type_synonym affected_op =
  "prepared_stmt \<Rightarrow> bound_param list \<Rightarrow> (str \<times> str) list \<Rightarrow> tx_handle_state \<Rightarrow> tx_handle_state \<times> u64 sql_result"

text \<open>The error of a step: a fixed text and the error under it, if there is one.\<close>

datatype step_error = StepError str "sql_error option"

definition run_tx_nested_step ::
    "exec_op \<Rightarrow> affected_op \<Rightarrow> driver_kind \<Rightarrow> tx_step \<Rightarrow> json \<Rightarrow> (str \<times> str) list \<Rightarrow> tx_handle_state \<Rightarrow>
     tx_handle_state \<times> (step_error + json)" where
  "run_tx_nested_step execute affected d step step_input session h =
     (let (rewritten, order) = rewrite_placeholders (ts_sql step) d;
          param_order = (if order = [] then ts_params step else order)
      in case collect_bound_params step_input param_order of
           Inl e \<Rightarrow> (h, Inl (StepError ''parameter bind for'' (Some e)))
         | Inr args \<Rightarrow>
             (let stmt = \<lparr>ps_sql = rewritten, ps_param_order = param_order, ps_driver = d\<rparr>;
                  rows = (\<lambda>shape. apsnd
                     (\<lambda>r. map_err (\<lambda>e. StepError ''execute'' (Some e)) (and_then r (\<lambda>b. Inr (shape b))))
                     (execute stmt args session h))
              in if ts_row_mode step = ''affected_rows'' then
                   apsnd (\<lambda>r. map_err (\<lambda>e. StepError ''execute_affected'' (Some e))
                              (and_then r (\<lambda>n. Inr (json_obj [(''rows_affected'', json_of_u64 n)]))))
                     (affected stmt args session h)
                 else if ts_row_mode step = ''many'' then rows (\<lambda>b. JArr (rb_rows b))
                 else if ts_row_mode step = ''single'' then
                   rows (\<lambda>b. case rb_rows b of [] \<Rightarrow> JNull | row # _ \<Rightarrow> row)
                 else if ts_row_mode step = ''scalar'' then rows tx_first_scalar
                 else (h, Inl (StepError ''unsupported row_mode'' None))))"

text \<open>The loop over the steps: the results so far, or the step that failed.\<close>

fun run_steps ::
    "exec_op \<Rightarrow> affected_op \<Rightarrow> driver_kind \<Rightarrow> json \<Rightarrow> tx_step list \<Rightarrow> json omap \<Rightarrow> tx_handle_state \<Rightarrow>
     tx_handle_state \<times> (str \<times> step_error + json omap)" where
  "run_steps execute affected d input [] results h = (h, Inr results)"
| "run_steps execute affected d input (step # steps) results h =
     (case run_tx_nested_step execute affected d step input [] h of
        (h1, Inl e) \<Rightarrow> (h1, Inl (ts_id step, e))
      | (h1, Inr v) \<Rightarrow> run_steps execute affected d input steps (omap_insert (ts_id step) v results) h1)"

datatype tx_failure =
    GroupInvalid str
  | BeginFailed sql_error
  | StepFailed str step_error
  | CommitFailed sql_error

text \<open>From the open handle to the answer: rollback on the first failure, else commit.\<close>

definition run_group ::
    "tx_env \<Rightarrow> exec_op \<Rightarrow> affected_op \<Rightarrow> driver_kind \<Rightarrow> tx_group \<Rightarrow> tx_handle_state \<Rightarrow>
     tx_handle_state \<times> (tx_failure + json)" where
  "run_group env execute affected d grp h =
     (case run_steps execute affected d (tg_step_input grp) (tg_steps grp) [] h of
        (h1, Inl (step_id, e)) \<Rightarrow> (fst (tx_rollback env h1), Inl (StepFailed step_id e))
      | (h1, Inr results) \<Rightarrow>
          (case tx_commit env h1 of
             (h2, Inl e) \<Rightarrow> (h2, Inl (CommitFailed e))
           | (h2, Inr _) \<Rightarrow> (h2, Inr (json_obj [(''steps'', JObj results)]))))"

definition begin_transaction :: "tx_env \<Rightarrow> plugin_state \<Rightarrow> str \<Rightarrow> (tx_handle_state \<times> driver_kind) sql_result" where
  "begin_transaction env plugin backend_name =
     and_then (ok_or (profiles plugin backend_name) (ProfileNotFound backend_name)) (\<lambda>rt.
     and_then (map_err from_execute (te_begin env)) (\<lambda>_.
     case rt_driver_kind rt of
       Sqlite \<Rightarrow> Inr (\<lparr>tx_open = True, tx_trace = [BeginTx]\<rparr>, Sqlite)
     | d \<Rightarrow>
         and_then
           (case rt_isolation_level rt of
              None \<Rightarrow> Inr [BeginTx]
            | Some level \<Rightarrow>
                and_then (map_err from_execute (te_isolation env (sql_fragment level)))
                  (\<lambda>_. Inr [BeginTx, SetIsolation (sql_fragment level)]))
           (\<lambda>trace. Inr (\<lparr>tx_open = True, tx_trace = trace\<rparr>, if d = Postgres then Postgres else Mysql))))"

definition execute_transaction ::
    "tx_env \<Rightarrow> plugin_state \<Rightarrow> str \<Rightarrow> str + tx_group \<Rightarrow> tx_trace \<times> (tx_failure + json)" where
  "execute_transaction env plugin backend_name wire =
     (case wire of
        Inl e \<Rightarrow> ([], Inl (GroupInvalid e))
      | Inr grp \<Rightarrow>
          (case begin_transaction env plugin backend_name of
             Inl e \<Rightarrow> ([], Inl (BeginFailed e))
           | Inr (h, d) \<Rightarrow>
               (case d of
                  Postgres \<Rightarrow> apfst tx_trace (run_group env (pg_execute env) (pg_execute_affected env) d grp h)
                | Sqlite \<Rightarrow> apfst tx_trace (run_group env (sqlite_execute env) (sqlite_execute_affected env) d grp h)
                | _ \<Rightarrow> apfst tx_trace (run_group env (mysql_execute env) (mysql_execute_affected env) d grp h))))"

text \<open>A group and a database that accepts everything, for the witnesses.\<close>

definition sample_tx_env :: tx_env where
  "sample_tx_env =
     \<lparr>te_begin = Inr (), te_isolation = (\<lambda>_. Inr ()), te_set = (\<lambda>_ _ _. Inr ()),
      te_fetch = (\<lambda>_ _ _. Inr []), te_exec = (\<lambda>_ _ _. Inr 1), te_commit = (\<lambda>_. Inr ()),
      te_rollback = (\<lambda>_. Inr ())\<rparr>"

definition sample_group :: tx_group where
  "sample_group =
     \<lparr>tg_steps = [\<lparr>ts_id = ''purge'', ts_sql = ''DELETE FROM t'', ts_params = [],
                   ts_row_mode = ''affected_rows''\<rparr>],
      tg_step_input = JNull\<rparr>"

section \<open>The contract of a handle\<close>

text \<open>
  What the database answered to what is on a trace, and the statements on it.  \<open>accepted env pre evs\<close>: after
  \<open>pre\<close>, the database accepted every event of \<open>evs\<close> up to a commit, a rollback or a drop.
\<close>

definition event_ok :: "tx_env \<Rightarrow> tx_trace \<Rightarrow> tx_event \<Rightarrow> bool" where
  "event_ok env pre ev =
     (case ev of
        BeginTx \<Rightarrow> is_ok (te_begin env)
      | SetIsolation level \<Rightarrow> is_ok (te_isolation env level)
      | SetVar k v \<Rightarrow> is_ok (te_set env pre k v)
      | Fetch stmt args \<Rightarrow> is_ok (te_fetch env pre stmt args)
      | Exec stmt args \<Rightarrow> is_ok (te_exec env pre stmt args)
      | _ \<Rightarrow> True)"

fun accepted :: "tx_env \<Rightarrow> tx_trace \<Rightarrow> tx_trace \<Rightarrow> bool" where
  "accepted env pre [] = True"
| "accepted env pre (ev # evs) \<longleftrightarrow> event_ok env pre ev \<and> accepted env (pre @ [ev]) evs"

lemma accepted_append [simp]: "accepted env pre (xs @ ys) \<longleftrightarrow> accepted env pre xs \<and> accepted env (pre @ xs) ys"
  by (induction xs arbitrary: pre) auto

lemma is_ok_map_err [simp]: "is_ok (map_err f r) = is_ok r"
  by (cases r) simp_all

definition is_statement :: "tx_event \<Rightarrow> bool" where
  "is_statement ev = (case ev of Fetch _ _ \<Rightarrow> True | Exec _ _ \<Rightarrow> True | _ \<Rightarrow> False)"

lemma is_statement_simps [simp]:
  "is_statement (Fetch stmt args)" "is_statement (Exec stmt args)" "\<not> is_statement (SetVar k v)"
  "\<not> is_statement (ClearVar k)" "\<not> is_statement CommitTx" "\<not> is_statement RollbackTx" "\<not> is_statement DropTx"
  "\<not> is_statement BeginTx" "\<not> is_statement (SetIsolation l)"
  by (simp_all add: is_statement_def)

text \<open>
  What a call with the statement event \<open>ev\<close> leaves behind: it only appends to the trace and never commits
  or rolls back; after a success the statement was sent once, the database accepted it and all before
  it, and the handle is open; after a failure the handle is open, or the transaction was dropped.
\<close>

definition call_ok :: "tx_env \<Rightarrow> tx_event \<Rightarrow> tx_handle_state \<Rightarrow> tx_handle_state \<times> 'a sql_result \<Rightarrow> bool" where
  "call_ok env ev h res =
     (case res of (h', r) \<Rightarrow>
        (\<exists>evs. tx_trace h' = tx_trace h @ evs \<and> CommitTx \<notin> set evs \<and>
           (is_ok r \<longrightarrow> filter is_statement evs = [ev] \<and> accepted env (tx_trace h) evs \<and> tx_open h') \<and>
           (tx_open h' \<or> evs \<noteq> [] \<and> last evs = DropTx)))"

text \<open>
  What a step is to send: the rewriting of its SQL with the values of the step input under the names
  it binds, in their order, counting rows or fetching them by its row mode.
\<close>

definition step_event :: "driver_kind \<Rightarrow> json \<Rightarrow> tx_step \<Rightarrow> tx_event option" where
  "step_event d input step =
     (case rewrite_placeholders (ts_sql step) d of (sql, names) \<Rightarrow>
        (let order = (if names = [] then ts_params step else names);
             stmt = \<lparr>ps_sql = sql, ps_param_order = order, ps_driver = d\<rparr>
         in case collect_bound_params input order of
              Inl _ \<Rightarrow> None
            | Inr args \<Rightarrow> Some (if ts_row_mode step = ''affected_rows'' then Exec stmt args else Fetch stmt args)))"

locale tx_handle =
  fixes env :: tx_env and execute :: exec_op and affected :: affected_op
  assumes execute_closed: "\<not> tx_open h \<Longrightarrow> execute stmt args session h = (h, Inl closed_error)"
    and affected_closed: "\<not> tx_open h \<Longrightarrow> affected stmt args session h = (h, Inl closed_error)"
    and execute_call: "tx_open h \<Longrightarrow> call_ok env (Fetch stmt args) h (execute stmt args session h)"
    and affected_call: "tx_open h \<Longrightarrow> call_ok env (Exec stmt args) h (affected stmt args session h)"
begin

lemma step_grows:
  assumes "tx_open h" and "run_tx_nested_step execute affected d step input session h = (h', r)"
  shows "\<exists>evs. tx_trace h' = tx_trace h @ evs \<and> CommitTx \<notin> set evs \<and>
           (is_ok r \<longrightarrow> map Some (filter is_statement evs) = [step_event d input step] \<and>
              accepted env (tx_trace h) evs \<and> tx_open h') \<and>
           (tx_open h' \<or> evs \<noteq> [] \<and> last evs = DropTx)"
proof -
  obtain rw order where rw: "rewrite_placeholders (ts_sql step) d = (rw, order)" by fastforce
  let ?po = "if order = [] then ts_params step else order"
  show ?thesis
  proof (cases "collect_bound_params input ?po")
    case (Inl e)
    with assms rw show ?thesis by (auto simp: run_tx_nested_step_def)
  next
    case (Inr args)
    let ?stmt = "\<lparr>ps_sql = rw, ps_param_order = ?po, ps_driver = d\<rparr>"
    let ?ev = "if ts_row_mode step = ''affected_rows'' then Exec ?stmt args else Fetch ?stmt args"
    have ev: "step_event d input step = Some ?ev" using Inr by (simp add: step_event_def rw Let_def)
    obtain h1 r1 where e: "execute ?stmt args session h = (h1, r1)" by fastforce
    obtain h2 r2 where a: "affected ?stmt args session h = (h2, r2)" by fastforce
    have "call_ok env (Fetch ?stmt args) h (h1, r1)" "call_ok env (Exec ?stmt args) h (h2, r2)"
      using execute_call [OF assms(1), of ?stmt args session] affected_call [OF assms(1), of ?stmt args session]
      by (simp_all add: e a)
    moreover have "ts_row_mode step = ''affected_rows'' \<and> (h', is_ok r) = (h2, is_ok r2) \<or>
        ts_row_mode step \<noteq> ''affected_rows'' \<and> (h', is_ok r) = (h1, is_ok r1) \<or> (h', is_ok r) = (h, False)"
      using assms(2) e a Inr rw
      by (cases r1; cases r2) (auto simp: run_tx_nested_step_def Let_def split: if_splits)
    ultimately show ?thesis using assms(1) unfolding call_ok_def ev by fastforce
  qed
qed

lemma steps_grow:
  assumes "tx_open h" and "run_steps execute affected d input steps results h = (h', r)"
  shows "\<exists>evs. tx_trace h' = tx_trace h @ evs \<and> CommitTx \<notin> set evs \<and>
           (is_ok r \<longrightarrow> tx_open h' \<and> map Some (filter is_statement evs) = map (step_event d input) steps \<and>
              accepted env (tx_trace h) evs) \<and>
           (tx_open h' \<or> evs \<noteq> [] \<and> last evs = DropTx)"
  using assms
proof (induction steps arbitrary: h results)
  case Nil
  then show ?case by auto
next
  case (Cons step steps)
  obtain h1 r1 where s: "run_tx_nested_step execute affected d step input [] h = (h1, r1)" by fastforce
  from step_grows [OF Cons.prems(1) s] obtain e1 where e1: "tx_trace h1 = tx_trace h @ e1"
    "CommitTx \<notin> set e1" "is_ok r1 \<longrightarrow> map Some (filter is_statement e1) = [step_event d input step] \<and>
       accepted env (tx_trace h) e1 \<and> tx_open h1"
    "tx_open h1 \<or> e1 \<noteq> [] \<and> last e1 = DropTx" by auto
  show ?case
  proof (cases r1)
    case (Inl e)
    with Cons.prems s have "h' = h1" "\<not> is_ok r" by auto
    with e1 show ?thesis by auto
  next
    case (Inr v)
    with Cons.prems s e1 obtain e2 where e2: "tx_trace h' = tx_trace h1 @ e2" "CommitTx \<notin> set e2"
      "is_ok r \<longrightarrow> tx_open h' \<and> map Some (filter is_statement e2) = map (step_event d input) steps \<and>
         accepted env (tx_trace h1) e2"
      "tx_open h' \<or> e2 \<noteq> [] \<and> last e2 = DropTx"
      using Cons.IH [of h1 "omap_insert (ts_id step) v results"] by auto
    with e1 Inr show ?thesis by (intro exI [of _ "e1 @ e2"]) auto
  qed
qed

lemma group_atomic:
  assumes "tx_open h" and "CommitTx \<notin> set (tx_trace h)" and "tx_trace h \<noteq> []"
    and "filter is_statement (tx_trace h) = []" and "accepted env [] (tx_trace h)"
    and "run_group env execute affected d grp h = (h', r)"
  shows "(is_ok r \<longleftrightarrow> CommitTx \<in> set (tx_trace h') \<and> is_ok (te_commit env (butlast (tx_trace h')))) \<and>
         (CommitTx \<in> set (tx_trace h') \<longrightarrow>
            last (tx_trace h') = CommitTx \<and> CommitTx \<notin> set (butlast (tx_trace h')) \<and> accepted env [] (tx_trace h') \<and>
            map Some (filter is_statement (tx_trace h')) = map (step_event d (tg_step_input grp)) (tg_steps grp)) \<and>
         (CommitTx \<notin> set (tx_trace h') \<longrightarrow> last (tx_trace h') \<in> {RollbackTx, DropTx}) \<and>
         tx_is_closed h'"
proof -
  obtain h1 r1 where s: "run_steps execute affected d (tg_step_input grp) (tg_steps grp) [] h = (h1, r1)"
    by fastforce
  from steps_grow [OF assms(1) s] obtain evs where evs: "tx_trace h1 = tx_trace h @ evs"
    "CommitTx \<notin> set evs"
    "is_ok r1 \<longrightarrow> tx_open h1 \<and> map Some (filter is_statement evs) = map (step_event d (tg_step_input grp)) (tg_steps grp) \<and>
       accepted env (tx_trace h) evs"
    "tx_open h1 \<or> evs \<noteq> [] \<and> last evs = DropTx" by auto
  show ?thesis
  proof (cases r1)
    case (Inl se)
    obtain i e where "se = (i, e)" by fastforce
    with Inl s assms(6) have "h' = fst (tx_rollback env h1)" "r = Inl (StepFailed i e)"
      by (auto simp: run_group_def)
    with evs assms(2) show ?thesis
      by (auto simp: tx_rollback_def send_def tx_is_closed_def)
  next
    case (Inr results)
    with s assms(6) evs have "h' = send [CommitTx] (h1\<lparr>tx_open := False\<rparr>)" "is_ok r = is_ok (te_commit env (tx_trace h1))"
      by (cases "te_commit env (tx_trace h1)"; auto simp: run_group_def tx_commit_def)+
    with evs assms Inr show ?thesis
      by (auto simp: send_def tx_is_closed_def butlast_append event_ok_def)
  qed
qed

end

section \<open>Interpretations\<close>

lemma set_vars_grows:
  "\<exists>evs. tx_trace (fst (set_vars env vars h)) = tx_trace h @ evs \<and> CommitTx \<notin> set evs \<and>
     filter is_statement evs = [] \<and> (is_ok (snd (set_vars env vars h)) \<longrightarrow> accepted env (tx_trace h) evs) \<and>
     tx_open (fst (set_vars env vars h)) = tx_open h"
proof (induction env vars h rule: set_vars.induct)
  case (2 env k v vars h)
  then show ?case by (cases "te_set env (tx_trace h) k v") (auto simp: send_def event_ok_def)
qed simp

lemma call_okI:
  assumes "tx_trace h' = tx_trace h @ evs" and "CommitTx \<notin> set evs"
    and "is_ok r \<Longrightarrow> filter is_statement evs = [ev] \<and> accepted env (tx_trace h) evs \<and> tx_open h'"
    and "tx_open h' \<or> evs \<noteq> [] \<and> last evs = DropTx"
  shows "call_ok env ev h (h', r)"
  using assms by (auto simp: call_ok_def)

lemma finish_rows_call:
  assumes "tx_open h2" and "tx_trace h2 = tx_trace h @ evs" and "CommitTx \<notin> set evs"
    and "filter is_statement evs = [ev]" and "accepted env (tx_trace h) evs"
  shows "call_ok env ev h (finish_rows rows h2)"
  using assms by (cases "try_map rr_decoded rows") (auto simp: finish_rows_def send_def intro!: call_okI)

lemma clear_events [simp]:
  "CommitTx \<notin> set (map (\<lambda>(k, _). ClearVar k) session)"
  "filter is_statement (map (\<lambda>(k, _). ClearVar k) session) = []"
  "accepted env pre (map (\<lambda>(k, _). ClearVar k) session)"
  by (induction session arbitrary: pre) (auto simp: event_ok_def)

lemma set_vars_event:
  assumes "set_vars env session h = (h1, r1)" and "tx_open h"
  obtains evs where "tx_trace h1 = tx_trace h @ evs" "CommitTx \<notin> set evs" "filter is_statement evs = []"
    "is_ok r1 \<Longrightarrow> accepted env (tx_trace h) evs" "tx_open h1"
  using set_vars_grows [of env session h] assms by auto

interpretation pg: tx_handle env "pg_execute env" "pg_execute_affected env" for env
proof
  fix stmt args session and h :: tx_handle_state
  assume o: "tx_open h"
  obtain h1 r1 where sv: "set_vars env session h = (h1, r1)" by fastforce
  from set_vars_event [OF sv o] obtain evs where evs: "tx_trace h1 = tx_trace h @ evs" "CommitTx \<notin> set evs"
    "filter is_statement evs = []" "is_ok r1 \<Longrightarrow> accepted env (tx_trace h) evs" "tx_open h1" by blast
  show "call_ok env (Fetch stmt args) h (pg_execute env stmt args session h)"
    using o sv evs
    by (auto simp: pg_execute_def send_def event_ok_def split: sum.splits intro!: call_okI finish_rows_call)
  show "call_ok env (Exec stmt args) h (pg_execute_affected env stmt args session h)"
    using o sv evs
    by (auto simp: pg_execute_affected_def send_def event_ok_def split: sum.splits intro!: call_okI)
qed (simp_all add: pg_execute_def pg_execute_affected_def)

interpretation mysql: tx_handle env "mysql_execute env" "mysql_execute_affected env" for env
proof
  fix stmt args session and h :: tx_handle_state
  assume o: "tx_open h"
  obtain h1 r1 where sv: "set_vars env session h = (h1, r1)" by fastforce
  from set_vars_event [OF sv o] obtain evs where evs: "tx_trace h1 = tx_trace h @ evs" "CommitTx \<notin> set evs"
    "filter is_statement evs = []" "is_ok r1 \<Longrightarrow> accepted env (tx_trace h) evs" "tx_open h1" by blast
  show "call_ok env (Fetch stmt args) h (mysql_execute env stmt args session h)"
    using o sv evs
    by (auto simp: mysql_execute_def send_def clear_session_vars_def event_ok_def Let_def simp del: set_map split: sum.splits
        intro!: call_okI finish_rows_call)
  show "call_ok env (Exec stmt args) h (mysql_execute_affected env stmt args session h)"
    using o sv evs
    by (auto simp: mysql_execute_affected_def send_def clear_session_vars_def event_ok_def simp del: set_map
        split: sum.splits intro!: call_okI)
qed (simp_all add: mysql_execute_def mysql_execute_affected_def)

interpretation sqlite: tx_handle env "sqlite_execute env" "sqlite_execute_affected env" for env
proof
  fix stmt args session and h :: tx_handle_state
  assume o: "tx_open h"
  show "call_ok env (Fetch stmt args) h (sqlite_execute env stmt args session h)"
    using o by (auto simp: sqlite_execute_def send_def event_ok_def split: sum.splits intro!: call_okI)
  show "call_ok env (Exec stmt args) h (sqlite_execute_affected env stmt args session h)"
    using o by (auto simp: sqlite_execute_affected_def send_def event_ok_def split: sum.splits intro!: call_okI)
qed (simp_all add: sqlite_execute_def sqlite_execute_affected_def)

text \<open>The dialect of a transaction: MariaDB is MySQL.\<close>

definition tx_dialect :: "driver_kind \<Rightarrow> driver_kind" where
  "tx_dialect d = (if d = Mariadb then Mysql else d)"

lemma begin_transactionD:
  assumes "begin_transaction env plugin name = Inr (h, d)"
  shows "tx_open h" and "CommitTx \<notin> set (tx_trace h)" and "tx_trace h \<noteq> []"
    and "filter is_statement (tx_trace h) = []" and "accepted env [] (tx_trace h)"
    and "\<exists>rt. profiles plugin name = Some rt \<and> d = tx_dialect (rt_driver_kind rt)"
proof -
  from assms obtain rt where "profiles plugin name = Some rt" by (auto simp: begin_transaction_def)
  with assms show "tx_open h" "CommitTx \<notin> set (tx_trace h)" "tx_trace h \<noteq> []"
    "filter is_statement (tx_trace h) = []" "accepted env [] (tx_trace h)"
    "\<exists>rt. profiles plugin name = Some rt \<and> d = tx_dialect (rt_driver_kind rt)"
    by (cases "rt_driver_kind rt"; cases "rt_isolation_level rt"; auto simp: begin_transaction_def event_ok_def tx_dialect_def is_ok_def)+
qed

lemma sample_profile:
  "\<exists>rt. profiles sample_state ''orders'' = Some rt \<and> rt_driver_kind rt = Postgres \<and>
     rt_isolation_level rt = None"
proof -
  obtain rt where rt: "build_runtime sample_env sample_cfg = Inr rt"
    using sample_builds by (auto simp: is_ok_def split: sum.splits)
  then have "rt_driver_kind rt = cfg_driver sample_cfg" "rt_isolation_level rt = cfg_isolation_level sample_cfg"
    by (auto simp: build_runtime_def Let_def)
  then show ?thesis
    by (simp add: sample_state_def register_profile_def rt) (simp add: sample_cfg_def)
qed

section \<open>Properties\<close>

text \<open>
  C4. A transaction group is atomic on every engine.  When \<open>COMMIT\<close> is sent, it is once and as the last
  thing on the connection; the statements before it are exactly those of the steps, one each and in their
  order, each the rewriting of the step's SQL with the values of the input bound to its names; and the
  database had accepted the start of the transaction and every one of them.  Otherwise the last thing
  is a rollback, or the transaction was dropped, which the pool rolls back.  So nothing is committed
  after a statement the database refused.  The group succeeds exactly when the commit was sent and the
  database accepted it.
\<close>

theorem execute_transaction_atomic:
  assumes "execute_transaction env plugin name (Inr grp) = (trace, r)" and "trace \<noteq> []"
    and "profiles plugin name = Some rt"
  shows "(is_ok r \<longleftrightarrow> CommitTx \<in> set trace \<and> is_ok (te_commit env (butlast trace))) \<and>
         (CommitTx \<in> set trace \<longrightarrow>
            last trace = CommitTx \<and> CommitTx \<notin> set (butlast trace) \<and> accepted env [] trace \<and>
            map Some (filter is_statement trace) =
              map (step_event (tx_dialect (rt_driver_kind rt)) (tg_step_input grp)) (tg_steps grp)) \<and>
         (CommitTx \<notin> set trace \<longrightarrow> last trace \<in> {RollbackTx, DropTx})"
proof (cases "begin_transaction env plugin name")
  case (Inl e)
  with assms show ?thesis by (simp add: execute_transaction_def)
next
  case (Inr hd)
  obtain h d where hd: "hd = (h, d)" by fastforce
  note h = begin_transactionD [OF Inr [unfolded hd]]
  have d: "d = tx_dialect (rt_driver_kind rt)" using h(6) assms(3) by simp
  obtain h' where run: "trace = tx_trace h'" and
    "run_group env (pg_execute env) (pg_execute_affected env) d grp h = (h', r) \<or>
     run_group env (sqlite_execute env) (sqlite_execute_affected env) d grp h = (h', r) \<or>
     run_group env (mysql_execute env) (mysql_execute_affected env) d grp h = (h', r)"
    using assms(1) Inr hd
    by (auto simp: execute_transaction_def apfst_def map_prod_def split: driver_kind.splits prod.splits)
  then show ?thesis
    using pg.group_atomic [OF h(1-5)] sqlite.group_atomic [OF h(1-5)] mysql.group_atomic [OF h(1-5)]
    unfolding run d by blast
qed

theorem execute_transaction_atomic_witness:
  "\<exists>trace r. execute_transaction sample_tx_env sample_state ''orders'' (Inr sample_group) = (trace, r) \<and>
     is_ok r \<and> last trace = CommitTx"
proof -
  obtain rt where rt: "profiles sample_state ''orders'' = Some rt" "rt_driver_kind rt = Postgres"
    "rt_isolation_level rt = None" using sample_profile by auto
  have b: "begin_transaction sample_tx_env sample_state ''orders'' =
      Inr (\<lparr>tx_open = True, tx_trace = [BeginTx]\<rparr>, Postgres)"
    by (simp add: begin_transaction_def rt sample_tx_env_def)
  have rw: "rewrite_placeholders ''DELETE FROM t'' Postgres = (''DELETE FROM t'', [])" by code_simp
  have ans: "te_exec sample_tx_env t st a = Inr 1" "te_commit sample_tx_env t = Inr ()" for t st a
    by (simp_all add: sample_tx_env_def)
  obtain trace r where run:
    "execute_transaction sample_tx_env sample_state ''orders'' (Inr sample_group) = (trace, r)" by fastforce
  then have "trace \<noteq> []" "is_ok r"
    by (auto simp: execute_transaction_def b sample_group_def run_group_def run_tx_nested_step_def rw
        collect_bound_params_def pg_execute_affected_def tx_commit_def ans send_def)
  with execute_transaction_atomic [OF run _ rt(1)] run show ?thesis by auto
qed

text \<open>
  At most one termination: once a commit or a rollback was called, whether or not the database
  accepted it, the handle is closed, and every further call on any engine is refused without anything
  being sent.
\<close>

theorem tx_terminates_once:
  assumes "h' = fst (tx_commit env h) \<or> h' = fst (tx_rollback env h)"
  shows "tx_is_closed h' \<and>
         tx_commit env' h' = (h', Inl closed_error) \<and> tx_rollback env' h' = (h', Inl closed_error) \<and>
         pg_execute env' stmt args session h' = (h', Inl closed_error) \<and>
         pg_execute_affected env' stmt args session h' = (h', Inl closed_error) \<and>
         mysql_execute env' stmt args session h' = (h', Inl closed_error) \<and>
         mysql_execute_affected env' stmt args session h' = (h', Inl closed_error) \<and>
         sqlite_execute env' stmt args session h' = (h', Inl closed_error) \<and>
         sqlite_execute_affected env' stmt args session h' = (h', Inl closed_error)"
proof -
  have "\<not> tx_open h'"
    using assms by (auto simp: tx_commit_def tx_rollback_def send_def split: if_splits)
  then show ?thesis
    using pg.execute_closed pg.affected_closed mysql.execute_closed mysql.affected_closed
      sqlite.execute_closed sqlite.affected_closed
    by (simp add: tx_is_closed_def tx_commit_def tx_rollback_def)
qed

theorem tx_terminates_once_witness:
  "pg_execute sample_tx_env \<lparr>ps_sql = ''SELECT 1'', ps_param_order = [], ps_driver = Postgres\<rparr> [] []
     (fst (tx_commit sample_tx_env \<lparr>tx_open = True, tx_trace = [BeginTx]\<rparr>)) =
     (\<lparr>tx_open = False, tx_trace = [BeginTx, CommitTx]\<rparr>, Inl closed_error)"
proof -
  have c: "fst (tx_commit sample_tx_env \<lparr>tx_open = True, tx_trace = [BeginTx]\<rparr>) =
      \<lparr>tx_open = False, tx_trace = [BeginTx, CommitTx]\<rparr>"
    by (simp add: tx_commit_def send_def)
  show ?thesis
    using tx_terminates_once [OF disjI1 [OF c [symmetric]], of sample_tx_env
        "\<lparr>ps_sql = ''SELECT 1'', ps_param_order = [], ps_driver = Postgres\<rparr>" "[]" "[]"]
    by (simp add: c)
qed

end
