(* ===== verification/Response.thy ===== *)
theory Response
  imports Transaction
begin

text \<open>
  The shaping half of \<open>src/lib.rs\<close>: \<open>shape_response\<close> and the \<open>result_sets\<close> truncation of
  \<open>execute_inner_impl\<close>, \<open>row_count_hint\<close>, and resource listing (\<open>run_list_query\<close>,
  \<open>batch_to_resource_page\<close>, \<open>list_resources\<close>).  A driver is what its \<open>execute\<close> answers.  The lemmas
  give the rows a response exposes, and what following the cursors of a listing enumerates.
\<close>

section \<open>Shaping\<close>

text \<open>\<open>mtext\<close> is the text of a message, as in \<open>Errors\<close>.\<close>

definition contents_error :: "(msg \<Rightarrow> str) \<Rightarrow> str \<Rightarrow> nat \<Rightarrow> str list \<Rightarrow> 'a backend_result" where
  "contents_error mtext key idx args = Inl (BTransport [] (mtext (Msg key (show_nat idx # args))))"

definition has_value :: "json omap \<Rightarrow> str \<Rightarrow> bool" where
  "has_value obj k = (case omap_get obj k of None \<Rightarrow> False | Some v \<Rightarrow> \<not> is_null v)"

definition str_member :: "json omap \<Rightarrow> str \<Rightarrow> str option" where
  "str_member obj k = Option.bind (omap_get obj k) as_str"

definition member_or_null :: "json omap \<Rightarrow> str \<Rightarrow> json" where
  "member_or_null obj k = (case omap_get obj k of Some v \<Rightarrow> v | None \<Rightarrow> JNull)"

text \<open>The entry of one row of \<open>row_mode: resource_contents\<close>.\<close>

definition content_entry :: "(msg \<Rightarrow> str) \<Rightarrow> nat \<times> json \<Rightarrow> json backend_result" where
  "content_entry mtext ir =
     (case ir of (idx, row) \<Rightarrow>
        (case row of
           JObj obj \<Rightarrow>
             (case str_member obj ''uri'' of
                None \<Rightarrow> contents_error mtext ''missing required uri column'' idx []
              | Some uri \<Rightarrow>
                  if has_value obj ''text'' \<and> has_value obj ''blob'' then
                    contents_error mtext ''cannot SELECT both text and blob'' idx []
                  else if \<not> has_value obj ''text'' \<and> \<not> has_value obj ''blob'' then
                    contents_error mtext ''must SELECT either text or blob'' idx []
                  else
                    Inr (json_obj
                      ([(''uri'', JStr uri)]
                       @ (case str_member obj ''mime_type'' of None \<Rightarrow> [] | Some mt \<Rightarrow> [(''mimeType'', JStr mt)])
                       @ (if has_value obj ''text'' then [(''text'', member_or_null obj ''text'')]
                          else [(''blob'', member_or_null obj ''blob'')]))))
         | other \<Rightarrow> contents_error mtext ''is not an object'' idx [json_type other]))"

definition first_row :: "json list \<Rightarrow> json" where
  "first_row rows = (case rows of [] \<Rightarrow> JNull | row # _ \<Rightarrow> row)"

definition shape_response ::
    "(msg \<Rightarrow> str) \<Rightarrow> row_batch \<Rightarrow> row_mode \<Rightarrow> u64 \<Rightarrow> (json \<times> bool) backend_result" where
  "shape_response mtext batch mode max_rows =
     (let truncated = unat max_rows < length (rb_rows batch);
          rows = (if truncated then take (unat max_rows) (rb_rows batch) else rb_rows batch)
      in case mode of
           Single \<Rightarrow> Inr (first_row rows, truncated)
         | Many \<Rightarrow> Inr (JArr rows, truncated)
         | Scalar \<Rightarrow>
             Inr ((case first_row rows of
                     JObj m \<Rightarrow> (case omap_first m of Some v \<Rightarrow> v | None \<Rightarrow> JNull)
                   | other \<Rightarrow> other), truncated)
         | AffectedRows \<Rightarrow>
             Inr (json_obj [(''rows_affected'',
                    json_of_u64 (case rb_rows_affected batch of Some n \<Rightarrow> n | None \<Rightarrow> 0))], False)
         | ResourceContents \<Rightarrow>
             and_then (try_map (content_entry mtext) (zip [0..<length rows] rows))
               (\<lambda>contents. Inr (json_obj [(''contents'', JArr contents)], truncated))
         | StreamMode \<Rightarrow>
             Inr (json_obj [(''rows'', JArr rows), (''truncated'', JBool truncated)], truncated)
         | ResultSets \<Rightarrow>
             Inl (BInvalidSpec (mtext (Msg ''row_mode: result_sets dispatched through single-batch shape_response'' []))))"

text \<open>The sets of a procedure under one budget of rows, in declaration order.\<close>

fun truncate_sets :: "u64 \<Rightarrow> json list list \<Rightarrow> json list list" where
  "truncate_sets remaining [] = []"
| "truncate_sets remaining (set1 # sets) =
     (if length set1 \<le> unat remaining then set1 # truncate_sets (remaining - of_nat (length set1)) sets
      else take (unat remaining) set1 # truncate_sets 0 sets)"

definition shape_result_sets :: "json list list \<Rightarrow> u64 \<Rightarrow> json \<times> bool \<times> nat" where
  "shape_result_sets sets max_rows =
     (let total = sum_list (map length sets);
          truncated = unat max_rows < total;
          sets1 = (if truncated then truncate_sets max_rows sets else sets)
      in (json_obj [(''result_sets'', JArr (map JArr sets1)), (''truncated'', JBool truncated)], truncated, total))"

definition row_count_hint :: "json \<Rightarrow> u64 option" where
  "row_count_hint payload =
     (case payload of
        JArr rows \<Rightarrow> Some (of_nat (length rows))
      | JObj m \<Rightarrow>
          (case omap_get m ''rows_affected'' of
             Some (JNum n) \<Rightarrow> as_u64 (JNum n)
           | _ \<Rightarrow>
               (case omap_get m ''contents'' of
                  Some (JArr contents) \<Rightarrow> Some (of_nat (length contents))
                | _ \<Rightarrow> Some 1))
      | _ \<Rightarrow> None)"

section \<open>Listing\<close>

record listed_resource =
  lr_uri :: str
  lr_name :: "str option"
  lr_description :: "str option"
  lr_mime_type :: "str option"

record resource_page =
  pg_resources :: "listed_resource list"
  pg_next_cursor :: "str option"

text \<open>\<open>json_text\<close> is the \<open>Display\<close> of a JSON value, the one of \<open>serde_json\<close>.\<close>

definition cursor_value_to_string :: "(json \<Rightarrow> str) \<Rightarrow> json \<Rightarrow> str" where
  "cursor_value_to_string json_text v =
     (case v of
        JStr s \<Rightarrow> s
      | JNum n \<Rightarrow> json_text (JNum n)
      | JBool b \<Rightarrow> (if b then ''true'' else ''false'')
      | JNull \<Rightarrow> []
      | other \<Rightarrow> json_text other)"

text \<open>The loop over the rows: the resources, and the cursor value of the last row kept.\<close>

fun listed_rows ::
    "(json \<Rightarrow> str) \<Rightarrow> str option \<Rightarrow> json list \<Rightarrow> listed_resource list \<times> str option \<Rightarrow>
     listed_resource list \<times> str option" where
  "listed_rows json_text col [] acc = acc"
| "listed_rows json_text col (row # rows) acc =
     listed_rows json_text col rows
       (case row of
          JObj obj \<Rightarrow>
            (case str_member obj ''uri'' of
               None \<Rightarrow> acc
             | Some uri \<Rightarrow>
                 (fst acc @ [\<lparr>lr_uri = uri, lr_name = str_member obj ''name'',
                              lr_description = str_member obj ''description'',
                              lr_mime_type = str_member obj ''mime_type''\<rparr>],
                  (case Option.bind col (omap_get obj) of
                     Some v \<Rightarrow> Some (cursor_value_to_string json_text v)
                   | None \<Rightarrow> snd acc)))
        | _ \<Rightarrow> acc)"

definition batch_to_resource_page ::
    "(json \<Rightarrow> str) \<Rightarrow> row_batch \<Rightarrow> list_query_config \<Rightarrow> resource_page" where
  "batch_to_resource_page json_text batch list_cfg =
     (case listed_rows json_text (list_cursor_column list_cfg) (rb_rows batch) ([], None) of
        (resources, last_cursor_value) \<Rightarrow>
          \<lparr>pg_resources = resources,
           pg_next_cursor =
             (if length (rb_rows batch) < unat (list_page_size list_cfg) then None
              else (case list_mode list_cfg of
                      Keyset \<Rightarrow> last_cursor_value
                    | Offset \<Rightarrow> Some (show_nat (length (rb_rows batch)))))\<rparr>)"

type_synonym driver_execute = "prepared_stmt \<Rightarrow> bound_param list \<Rightarrow> str omap \<Rightarrow> row_batch sql_result"

definition list_cursor_value :: "list_query_config \<Rightarrow> str option \<Rightarrow> json sql_result" where
  "list_cursor_value list_cfg cursor =
     (case (list_mode list_cfg, cursor) of
        (Keyset, None) \<Rightarrow> Inr JNull
      | (Keyset, Some c) \<Rightarrow> Inr (JStr c)
      | (Offset, None) \<Rightarrow> Inr (json_of_u64 0)
      | (Offset, Some c) \<Rightarrow>
          (case parse_u64 10 c of
             Some n \<Rightarrow> Inr (json_of_u64 n)
           | None \<Rightarrow> Inl (invalid ''offset-mode cursor is not a non-negative integer'' [c])))"

definition run_list_query ::
    "driver_execute \<Rightarrow> profile_runtime \<Rightarrow> prepared_stmt \<Rightarrow> list_query_config \<Rightarrow> str option \<Rightarrow>
     row_batch sql_result" where
  "run_list_query execute rt list_stmt list_cfg cursor =
     and_then (list_cursor_value list_cfg cursor) (\<lambda>cursor_value.
     and_then
       (try_map (\<lambda>name.
            if name = ''cursor'' then Inr \<lparr>bp_name = name, bp_value = cursor_value\<rparr>
            else if name = ''page_size'' then
              Inr \<lparr>bp_name = name, bp_value = json_of_u64 (list_page_size list_cfg)\<rparr>
            else Inl (invalid ''list_query references unsupported placeholder'' [name]))
          (ps_param_order list_stmt)) (\<lambda>args.
     execute list_stmt args (rt_session_vars rt)))"

definition list_resources ::
    "(json \<Rightarrow> str) \<Rightarrow> driver_execute \<Rightarrow> plugin_state \<Rightarrow> str \<Rightarrow> str option \<Rightarrow> resource_page sql_result" where
  "list_resources json_text execute plugin backend_name cursor =
     and_then (ok_or (profiles plugin backend_name) (ProfileNotFound backend_name)) (\<lambda>rt.
     case rt_list rt of
       None \<Rightarrow> Inr \<lparr>pg_resources = [], pg_next_cursor = None\<rparr>
     | Some (list_stmt, list_cfg) \<Rightarrow>
         and_then (run_list_query execute rt list_stmt list_cfg cursor) (\<lambda>batch.
         Inr (batch_to_resource_page json_text batch list_cfg)))"

definition sample_batch :: row_batch where
  "sample_batch =
     batch_of [''uri'', ''text'']
       [json_obj [(''uri'', JStr ''r1''), (''text'', JStr ''a'')],
        json_obj [(''uri'', JStr ''r2''), (''text'', JStr ''b'')]]"

definition sample_table :: "json omap list" where
  "sample_table =
     [[(''id'', JStr ''a''), (''uri'', JStr ''r1'')], [(''id'', JStr ''bb''), (''uri'', JStr ''r2'')],
      [(''id'', JStr ''ccc''), (''uri'', JStr ''r3'')]]"

definition sample_list_cfg :: "list_query_mode \<Rightarrow> list_query_config" where
  "sample_list_cfg mode =
     \<lparr>list_sql = ''SELECT id, uri FROM r'', list_mode = mode, list_cursor_column = Some ''id'',
      list_page_size = 1\<rparr>"

definition sample_list_stmt :: prepared_stmt where
  "sample_list_stmt =
     \<lparr>ps_sql = ''SELECT id, uri FROM r'', ps_param_order = [''cursor'', ''page_size''], ps_driver = Postgres\<rparr>"

section \<open>What a response exposes\<close>

text \<open>The rows of a shaped payload, for the modes that return several.\<close>

definition exposed_rows :: "row_mode \<Rightarrow> json \<Rightarrow> json list option" where
  "exposed_rows mode payload =
     (case (case mode of
              Many \<Rightarrow> Some payload
            | StreamMode \<Rightarrow> json_get payload ''rows''
            | ResourceContents \<Rightarrow> json_get payload ''contents''
            | _ \<Rightarrow> None) of
        Some (JArr rows) \<Rightarrow> Some rows
      | _ \<Rightarrow> None)"

text \<open>A row that \<open>resources/read\<close> can return, and the entry it becomes.\<close>

definition readable_row :: "json \<Rightarrow> bool" where
  "readable_row row =
     (case row of
        JObj obj \<Rightarrow> str_member obj ''uri'' \<noteq> None \<and> (has_value obj ''text'' \<noteq> has_value obj ''blob'')
      | _ \<Rightarrow> False)"

definition entry_of_row :: "json \<Rightarrow> json \<Rightarrow> bool" where
  "entry_of_row entry row =
     (case row of
        JObj obj \<Rightarrow>
          json_get entry ''uri'' = omap_get obj ''uri'' \<and>
          json_get entry ''text'' = (if has_value obj ''text'' then omap_get obj ''text'' else None) \<and>
          json_get entry ''blob'' = (if has_value obj ''blob'' then omap_get obj ''blob'' else None) \<and>
          json_get entry ''mimeType'' = map_option JStr (str_member obj ''mime_type'')
      | _ \<Rightarrow> False)"

lemma shown_rows [simp]: "(if n < length xs then take n xs else xs) = take n xs"
  by simp

lemma str_member_Some: "str_member obj k = Some s \<longleftrightarrow> omap_get obj k = Some (JStr s)"
  by (auto simp: str_member_def as_str_def split: json.splits option.splits bind_splits)

lemma has_value_member: "has_value obj k \<Longrightarrow> omap_get obj k = Some (member_or_null obj k)"
  by (simp add: has_value_def member_or_null_def split: option.splits)

lemma content_entry_ok_iff: "is_ok (content_entry t p) \<longleftrightarrow> readable_row (snd p)"
  by (auto simp: content_entry_def readable_row_def contents_error_def is_ok_def
           split: prod.splits json.splits option.splits)

lemma content_entry_entry:
  "content_entry t (i, row) = Inr entry \<Longrightarrow> entry_of_row entry row"
  by (cases row)
     (auto simp: content_entry_def entry_of_row_def contents_error_def json_obj_get has_value_member
           split: option.splits if_splits dest: str_member_Some [THEN iffD1])

lemma try_map_ok_iff: "is_ok (try_map f xs) \<longleftrightarrow> (\<forall>x \<in> set xs. is_ok (f x))"
  by (induction xs) (auto simp: is_ok_def split: sum.splits)

lemma try_map_Inl_in:
  "try_map f xs = Inl e \<Longrightarrow> (\<And>x e. f x = Inl e \<Longrightarrow> P e) \<Longrightarrow> P e"
  by (induction xs) (auto simp: and_then_eq_Inl)

lemma content_entry_err: "content_entry t p = Inl e \<Longrightarrow> \<exists>x. e = BTransport [] x"
  by (auto simp: content_entry_def contents_error_def split: prod.splits json.splits option.splits if_splits)

lemma try_map_all2: "try_map f xs = Inr ys \<Longrightarrow> list_all2 (\<lambda>y x. f x = Inr y) ys xs"
  by (induction xs arbitrary: ys) auto

lemma all2_zip_index:
  "list_all2 P ys (zip [k..<k + length xs] xs) \<Longrightarrow> (\<And>i y x. P y (i, x) \<Longrightarrow> Q y x) \<Longrightarrow> list_all2 Q ys xs"
  by (auto simp: list_all2_conv_all_nth)

lemma set_zip_index: "(\<forall>p \<in> set (zip [0..<length xs] xs). P (snd p)) \<longleftrightarrow> (\<forall>x \<in> set xs. P x)"
  by (metis (no_types, lifting) in_set_impl_in_set_zip2 length_map map_nth set_zip_rightD snd_conv
      prod.collapse length_upt diff_zero)

lemma unat_minus_of_nat: "n \<le> unat (m::u64) \<Longrightarrow> unat (m - of_nat n) = unat m - n"
proof -
  assume le: "n \<le> unat m"
  have "unat m < 2 ^ LENGTH(64)" by (rule unsigned_less)
  then have n: "unat (of_nat n :: u64) = n"
    using le by (simp add: unat_of_nat)
  then have "of_nat n \<le> m" using le by (simp add: word_le_nat_alt)
  then show ?thesis using n by (simp add: unat_sub)
qed

lemma truncate_sets_concat: "concat (truncate_sets m sets) = take (unat m) (concat sets)"
proof (induction m sets rule: truncate_sets.induct)
  case (2 m xs sets)
  show ?case
  proof (cases "length xs \<le> unat m")
    case True
    then show ?thesis using 2(1) by (simp add: unat_minus_of_nat)
  next
    case False
    then show ?thesis using 2(2) by simp
  qed
qed simp

lemma truncate_sets_prefix: "list_all2 prefix (truncate_sets m sets) sets"
  by (induction m sets rule: truncate_sets.induct) (simp_all add: take_is_prefix)

lemmas length_truncate_sets = truncate_sets_prefix [THEN list_all2_lengthD]

lemma length_concat_sum: "length (concat xss) = sum_list (map length xss)"
  by (induction xss) simp_all

text \<open>
  A shaped response exposes exactly the first \<open>max_rows\<close> rows of the batch, in order, and says it is
  truncated exactly when there were more.  In \<open>resource_contents\<close> mode the rows are the entries of
  those rows, one to one: the same \<open>uri\<close>, and whichever of \<open>text\<close> and \<open>blob\<close> the row has.
\<close>

theorem shape_response_exposes:
  assumes "shape_response mtext b mode max_rows = Inr (payload, truncated)"
    and "mode \<in> {Many, StreamMode, ResourceContents}"
  shows "\<exists>rows. exposed_rows mode payload = Some rows
           \<and> (if mode = ResourceContents then list_all2 entry_of_row rows (take (unat max_rows) (rb_rows b))
              else rows = take (unat max_rows) (rb_rows b))
           \<and> (truncated \<longleftrightarrow> unat max_rows < length (rb_rows b))"
proof (cases "mode = ResourceContents")
  case True
  then obtain contents where c: "try_map (content_entry mtext)
      (zip [0..<0 + length (take (unat max_rows) (rb_rows b))] (take (unat max_rows) (rb_rows b))) = Inr contents"
    and p: "payload = json_obj [(''contents'', JArr contents)]"
    and t: "truncated \<longleftrightarrow> unat max_rows < length (rb_rows b)"
    using assms(1) by (auto simp: shape_response_def Let_def)
  have "list_all2 entry_of_row contents (take (unat max_rows) (rb_rows b))"
    using try_map_all2 [OF c] by (rule all2_zip_index) (rule content_entry_entry)
  then show ?thesis using True p t by (simp add: exposed_rows_def json_obj_get)
next
  case False
  then show ?thesis using assms by (auto simp: shape_response_def Let_def exposed_rows_def json_obj_get)
qed

lemma shape_response_exposes_witness:
  "\<exists>payload rows. shape_response (\<lambda>_. []) sample_batch ResourceContents 1 = Inr (payload, True)
     \<and> exposed_rows ResourceContents payload = Some rows \<and> list_all2 entry_of_row rows (take 1 (rb_rows sample_batch))"
proof -
  let ?p = "json_obj [(''contents'', JArr [json_obj [(''uri'', JStr ''r1''), (''text'', JStr ''a'')]])]"
  have eq: "shape_response (\<lambda>_. []) sample_batch ResourceContents 1 = Inr (?p, True)"
    by code_simp
  show ?thesis
    using shape_response_exposes [OF eq] eq by auto
qed

text \<open>
  \<open>resource_contents\<close> shaping answers exactly when each of the first \<open>max_rows\<close> rows is an object
  with a string \<open>uri\<close> and exactly one non-null column of \<open>text\<close> and \<open>blob\<close>; otherwise it is a
  transport error, never a partial answer.
\<close>

theorem resource_contents_answers_iff:
  "(case shape_response mtext b ResourceContents max_rows of
      Inr _ \<Rightarrow> list_all readable_row (take (unat max_rows) (rb_rows b))
    | Inl e \<Rightarrow> \<not> list_all readable_row (take (unat max_rows) (rb_rows b)) \<and> is_driver_failure (Inl e :: unit backend_result))"
proof -
  let ?rows = "take (unat max_rows) (rb_rows b)"
  let ?r = "try_map (content_entry mtext) (zip [0..<length ?rows] ?rows)"
  have "is_ok ?r \<longleftrightarrow> (\<forall>p \<in> set (zip [0..<length ?rows] ?rows). readable_row (snd p))"
    by (simp add: try_map_ok_iff content_entry_ok_iff)
  then have iff: "is_ok ?r \<longleftrightarrow> list_all readable_row ?rows"
    using set_zip_index [of ?rows readable_row] by (simp add: list_all_iff del: length_take)
  have err: "?r = Inl e \<Longrightarrow> \<exists>x. e = BTransport [] x" for e
    by (rule try_map_Inl_in [where P = "\<lambda>e. \<exists>x. e = BTransport [] x"]) (auto dest: content_entry_err)
  show ?thesis
    using iff err by (cases ?r) (auto simp: shape_response_def Let_def is_driver_failure_def is_ok_def)
qed

text \<open>
  A \<open>result_sets\<close> response keeps every set of the procedure in its position; what it keeps of the
  sets, one after the other, is the first \<open>max_rows\<close> rows of the whole output, each set cut to a
  prefix, and it is truncated exactly when the output had more.
\<close>

theorem result_sets_budget:
  assumes "shape_result_sets sets max_rows = (payload, truncated, n)"
  shows "\<exists>kept. json_get payload ''result_sets'' = Some (JArr (map JArr kept))
           \<and> json_get payload ''truncated'' = Some (JBool truncated)
           \<and> list_all2 prefix kept sets
           \<and> concat kept = take (unat max_rows) (concat sets)
           \<and> (truncated \<longleftrightarrow> unat max_rows < n) \<and> n = length (concat sets)"
proof -
  define kept where
    "kept = (if unat max_rows < length (concat sets) then truncate_sets max_rows sets else sets)"
  have "list_all2 prefix kept sets"
    by (simp add: kept_def truncate_sets_prefix list.rel_refl)
  moreover have "concat kept = take (unat max_rows) (concat sets)"
    by (simp add: kept_def truncate_sets_concat)
  ultimately show ?thesis
    using assms
    by (intro exI [of _ kept]) (auto simp: shape_result_sets_def Let_def json_obj_get length_concat_sum kept_def)
qed

lemma result_sets_budget_witness:
  "\<exists>payload kept. shape_result_sets [[JNull], [JNull, JBool True], [JNull]] 2 = (payload, True, 4)
     \<and> json_get payload ''result_sets'' = Some (JArr (map JArr kept))
     \<and> concat kept = take 2 [JNull, JNull, JBool True, JNull]"
proof -
  let ?p = "json_obj [(''result_sets'', JArr [JArr [JNull], JArr [JNull], JArr []]), (''truncated'', JBool True)]"
  have eq: "shape_result_sets [[JNull], [JNull, JBool True], [JNull]] 2 = (?p, True, 4)"
    by code_simp
  show ?thesis
    using result_sets_budget [OF eq] eq by auto
qed

section \<open>Walking a listing\<close>

text \<open>A host that follows the cursors until there is none; \<open>None\<close> when it fails or the fuel runs out.\<close>

fun list_walk ::
    "nat \<Rightarrow> (str option \<Rightarrow> resource_page sql_result) \<Rightarrow> str option \<Rightarrow> listed_resource list option" where
  "list_walk 0 page cursor = None"
| "list_walk (Suc fuel) page cursor =
     (case page cursor of
        Inl _ \<Rightarrow> None
      | Inr p \<Rightarrow>
          (case pg_next_cursor p of
             None \<Rightarrow> Some (pg_resources p)
           | Some c \<Rightarrow> map_option (append (pg_resources p)) (list_walk fuel page (Some c))))"

definition row_key :: "(json \<Rightarrow> str) \<Rightarrow> str \<Rightarrow> json omap \<Rightarrow> str" where
  "row_key json_text col row = cursor_value_to_string json_text (member_or_null row col)"

definition row_resource :: "json omap \<Rightarrow> listed_resource" where
  "row_resource row =
     \<lparr>lr_uri = (case str_member row ''uri'' of Some u \<Rightarrow> u | None \<Rightarrow> []), lr_name = str_member row ''name'',
      lr_description = str_member row ''description'', lr_mime_type = str_member row ''mime_type''\<rparr>"

text \<open>What the operator's query means: the rows after the cursor, in order, at most a page of them.\<close>

definition after_cursor :: "(json \<Rightarrow> str) \<Rightarrow> (str \<Rightarrow> str \<Rightarrow> bool) \<Rightarrow> str \<Rightarrow> json option \<Rightarrow> json omap \<Rightarrow> bool" where
  "after_cursor json_text before col cursor row =
     (case cursor of Some (JStr c) \<Rightarrow> before c (row_key json_text col row) | _ \<Rightarrow> True)"

definition arg_value :: "bound_param list \<Rightarrow> str \<Rightarrow> json option" where
  "arg_value args name = map_of (map (\<lambda>b. (bp_name b, bp_value b)) args) name"

definition keyset_query ::
    "(json \<Rightarrow> str) \<Rightarrow> (str \<Rightarrow> str \<Rightarrow> bool) \<Rightarrow> str \<Rightarrow> json omap list \<Rightarrow> driver_execute \<Rightarrow> bool" where
  "keyset_query json_text before col table execute \<longleftrightarrow>
     (\<forall>stmt args vars psize. arg_value args ''page_size'' = Some (json_of_u64 psize) \<longrightarrow>
        execute stmt args vars =
          Inr (batch_of [] (map JObj (take (unat psize)
            (filter (after_cursor json_text before col (arg_value args ''cursor'')) table)))))"

text \<open>A table in the order of its cursor column, every row with a \<open>uri\<close> and a cursor value.\<close>

definition keyset_table :: "(json \<Rightarrow> str) \<Rightarrow> (str \<Rightarrow> str \<Rightarrow> bool) \<Rightarrow> str \<Rightarrow> json omap list \<Rightarrow> bool" where
  "keyset_table json_text before col table \<longleftrightarrow>
     asymp before \<and> sorted_wrt before (map (row_key json_text col) table) \<and>
     (\<forall>row \<in> set table. str_member row ''uri'' \<noteq> None \<and> omap_get row col \<noteq> None)"

lemma listed_rows_table:
  "\<forall>row \<in> set rows. str_member row ''uri'' \<noteq> None \<and> omap_get row col \<noteq> None \<Longrightarrow>
   listed_rows json_text (Some col) (map JObj rows) (acc, c) =
     (acc @ map row_resource rows, if rows = [] then c else Some (row_key json_text col (last rows)))"
  by (induction rows arbitrary: acc c) (auto simp: row_resource_def row_key_def member_or_null_def)

lemma rows_after_prefix:
  assumes "keyset_table json_text before col (pre @ row # suf)"
  shows "filter (after_cursor json_text before col (Some (JStr (row_key json_text col row)))) (pre @ row # suf) = suf"
proof -
  let ?k = "row_key json_text col"
  have asym: "before a b \<Longrightarrow> \<not> before b a" for a b
    using assms by (auto simp: keyset_table_def asymp_on_def)
  have "\<forall>x \<in> set pre. before (?k x) (?k row)" "\<forall>x \<in> set suf. before (?k row) (?k x)"
    using assms by (auto simp: keyset_table_def sorted_wrt_append)
  then show ?thesis
    using asym by (auto simp: after_cursor_def filter_empty_conv intro!: filter_True)
qed

text \<open>The binding of a list query's placeholders.\<close>

lemma list_args:
  assumes "set names \<subseteq> {''cursor'', ''page_size''}"
  shows "try_map (\<lambda>name.
            if name = ''cursor'' then Inr \<lparr>bp_name = name, bp_value = c\<rparr>
            else if name = ''page_size'' then Inr \<lparr>bp_name = name, bp_value = s\<rparr>
            else Inl (invalid k [name])) names
         = Inr (map (\<lambda>name. \<lparr>bp_name = name, bp_value = if name = ''cursor'' then c else s\<rparr>) names)"
  using assms by (induction names) auto

lemma list_args_value:
  "x \<in> set names \<Longrightarrow>
   arg_value (map (\<lambda>name. \<lparr>bp_name = name, bp_value = if name = ''cursor'' then c else s\<rparr>) names) x =
     Some (if x = ''cursor'' then c else s)"
  by (induction names) (auto simp: arg_value_def)

lemma keyset_page:
  assumes "keyset_table json_text before col table" and "keyset_query json_text before col table execute"
    and "list_mode cfg = Keyset" and "list_cursor_column cfg = Some col"
    and "set (ps_param_order stmt) = {''cursor'', ''page_size''}"
    and "rt_list rt = Some (stmt, cfg)" and "profiles plugin name = Some rt"
    and "rows = take (unat (list_page_size cfg))
                  (filter (after_cursor json_text before col (Some (case cursor of None \<Rightarrow> JNull | Some c \<Rightarrow> JStr c))) table)"
  shows "list_resources json_text execute plugin name cursor =
           Inr \<lparr>pg_resources = map row_resource rows,
                pg_next_cursor =
                  (if length rows < unat (list_page_size cfg) \<or> rows = [] then None
                   else Some (row_key json_text col (last rows)))\<rparr>"
proof -
  let ?c = "case cursor of None \<Rightarrow> JNull | Some c \<Rightarrow> JStr c"
  have "run_list_query execute rt stmt cfg cursor = Inr (batch_of [] (map JObj rows))"
    using assms(2,3,5,8)
    by (simp add: run_list_query_def list_cursor_value_def list_args keyset_query_def list_args_value
             split: option.splits)
  moreover have "\<forall>row \<in> set rows. str_member row ''uri'' \<noteq> None \<and> omap_get row col \<noteq> None"
    using assms(1,8) by (auto simp: keyset_table_def dest!: in_set_takeD)
  ultimately show ?thesis
    using assms(3,4,6,7)
    by (simp add: list_resources_def batch_to_resource_page_def batch_of_def listed_rows_table)
qed

lemma keyset_walk_from:
  assumes tab: "keyset_table json_text before col (pre @ suf)"
    and query: "keyset_query json_text before col (pre @ suf) execute"
    and cfg: "list_mode cfg = Keyset" "list_cursor_column cfg = Some col" "0 < list_page_size cfg"
      "set (ps_param_order stmt) = {''cursor'', ''page_size''}"
    and rt: "rt_list rt = Some (stmt, cfg)" "profiles plugin name = Some rt"
    and cursor: "cursor = (if pre = [] then None else Some (row_key json_text col (last pre)))"
    and fuel: "length suf < fuel"
  shows "list_walk fuel (list_resources json_text execute plugin name) cursor = Some (map row_resource suf)"
  using tab query cursor fuel
proof (induction fuel arbitrary: pre suf cursor)
  case (Suc fuel)
  let ?n = "unat (list_page_size cfg)"
  have n: "0 < ?n" using cfg(3) by (simp add: word_less_nat_alt)
  have after: "filter (after_cursor json_text before col (Some (case cursor of None \<Rightarrow> JNull | Some c \<Rightarrow> JStr c)))
                 (pre @ suf) = suf"
  proof (cases pre rule: rev_cases)
    case Nil
    then show ?thesis using Suc.prems(3) by (simp add: after_cursor_def)
  next
    case (snoc ys y)
    then show ?thesis
      using Suc.prems(1,3) rows_after_prefix [of json_text before col ys y suf] by simp
  qed
  note page = keyset_page [OF Suc.prems(1,2) cfg(1,2,4) rt, of _ cursor, unfolded after, OF refl]
  show ?case
  proof (cases "length suf < ?n")
    case True
    then show ?thesis by (simp add: page)
  next
    case False
    let ?p = "take ?n suf"
    have ne: "?p \<noteq> []" using False n by auto
    have "list_walk fuel (list_resources json_text execute plugin name) (Some (row_key json_text col (last ?p))) =
            Some (map row_resource (drop ?n suf))"
      using Suc.prems False n ne
      by (intro Suc.IH [of "pre @ ?p" "drop ?n suf"]) auto
    then show ?thesis using False n ne by (simp add: page flip: map_append)
  qed
qed simp

text \<open>
  C31. Over a table in the order of its cursor column, a host that follows the cursors of a keyset
  listing gets every resource exactly once, in order, and the walk ends: one call more than there
  are rows is enough, whatever the page psize.
\<close>

theorem keyset_listing_complete:
  assumes "keyset_table json_text before col table"
    and "keyset_query json_text before col table execute"
    and "list_mode cfg = Keyset" and "list_cursor_column cfg = Some col" and "0 < list_page_size cfg"
    and "set (ps_param_order stmt) = {''cursor'', ''page_size''}"
    and "rt_list rt = Some (stmt, cfg)" and "profiles plugin name = Some rt"
    and "length table < fuel"
  shows "list_walk fuel (list_resources json_text execute plugin name) None = Some (map row_resource table)"
  using keyset_walk_from [where pre = "[]" and suf = table] assms by simp

text \<open>A plugin whose one profile has the given list query.\<close>

lemma sample_list_plugin:
  obtains plugin :: plugin_state and rt :: profile_runtime where "profiles plugin ''orders'' = Some rt"
    and "rt_list rt = Some (sample_list_stmt, sample_list_cfg mode)"
proof -
  obtain rt where "build_runtime sample_env sample_cfg = Inr rt"
    using sample_builds by (auto simp: is_ok_def split: sum.splits)
  show thesis
    by (rule that [of "\<lparr>draining = False,
                         profiles = [''orders'' \<mapsto> rt\<lparr>rt_list := Some (sample_list_stmt, sample_list_cfg mode)\<rparr>]\<rparr>"
                      "rt\<lparr>rt_list := Some (sample_list_stmt, sample_list_cfg mode)\<rparr>"]) simp_all
qed

text \<open>A database that answers a list query from a table, given the rows a cursor selects.\<close>

definition table_execute :: "(json option \<Rightarrow> json omap list) \<Rightarrow> driver_execute" where
  "table_execute sel stmt args vars =
     (case arg_value args ''page_size'' of
        Some (JNum (PosInt psize)) \<Rightarrow> Inr (batch_of [] (map JObj (take (unat psize) (sel (arg_value args ''cursor'')))))
      | _ \<Rightarrow> Inl closed_error)"

lemma keyset_listing_complete_witness:
  "\<exists>plugin. list_walk 4 (list_resources (\<lambda>_. []) (table_execute
        (\<lambda>c. filter (after_cursor (\<lambda>_. []) (\<lambda>a b. length a < length b) ''id'' c) sample_table)) plugin ''orders'') None
      = Some (map row_resource sample_table)"
proof -
  let ?before = "\<lambda>a b :: str. length a < length b"
  let ?ex = "table_execute (\<lambda>c. filter (after_cursor (\<lambda>_. []) ?before ''id'' c) sample_table)"
  obtain plugin :: plugin_state and rt :: profile_runtime where p: "profiles plugin ''orders'' = Some rt"
    "rt_list rt = Some (sample_list_stmt, sample_list_cfg Keyset)"
    by (rule sample_list_plugin [of Keyset]) blast
  have "keyset_table (\<lambda>_. []) ?before ''id'' sample_table"
    by (simp add: keyset_table_def sample_table_def row_key_def member_or_null_def omap_get_def
        cursor_value_to_string_def str_member_def as_str_def asymp_on_def)
  moreover have "keyset_query (\<lambda>_. []) ?before ''id'' sample_table ?ex"
    by (simp add: keyset_query_def table_execute_def json_of_u64_def)
  ultimately have "list_walk 4 (list_resources (\<lambda>_. []) ?ex plugin ''orders'') None = Some (map row_resource sample_table)"
    using keyset_listing_complete [where cfg = "sample_list_cfg Keyset" and stmt = sample_list_stmt] p
    by (simp add: sample_list_cfg_def sample_list_stmt_def sample_table_def)
  then show ?thesis by blast
qed

text \<open>The meaning of an offset query: a page of the table from the offset on.\<close>

definition offset_query :: "json omap list \<Rightarrow> driver_execute \<Rightarrow> bool" where
  "offset_query table execute \<longleftrightarrow>
     (\<forall>stmt args vars psize k.
        arg_value args ''page_size'' = Some (json_of_u64 psize) \<and> arg_value args ''cursor'' = Some (json_of_u64 k) \<longrightarrow>
        execute stmt args vars = Inr (batch_of [] (map JObj (take (unat psize) (drop (unat k) table)))))"

lemma parse_show_u64: "parse_u64 10 (show_nat (unat n)) = Some n"
proof -
  have "unat n < 2 ^ LENGTH(64)" by (rule unsigned_less)
  then show ?thesis by (simp add: parse_u64_def show_nat_def)
qed

lemma offset_page:
  fixes k :: u64
  assumes "offset_query table execute" and "list_mode cfg = Offset"
    and "set (ps_param_order stmt) = {''cursor'', ''page_size''}"
    and "rt_list rt = Some (stmt, cfg)" and "profiles plugin name = Some rt"
    and "cursor = None \<and> k = 0 \<or> cursor = Some (show_nat (unat k))"
    and "unat k + unat (list_page_size cfg) \<le> length table"
  shows "\<exists>page. list_resources json_text execute plugin name cursor = Inr page
           \<and> pg_next_cursor page = Some (show_nat (unat (list_page_size cfg)))"
proof -
  have "list_cursor_value cfg cursor = Inr (json_of_u64 k)"
    using assms(2,6) by (auto simp: list_cursor_value_def parse_show_u64)
  then have "run_list_query execute rt stmt cfg cursor =
          Inr (batch_of [] (map JObj (take (unat (list_page_size cfg)) (drop (unat k) table))))"
    using assms(1,3)
    by (simp add: run_list_query_def list_args offset_query_def list_args_value)
  then show ?thesis
    using assms(2,4,5,7)
    by (simp add: list_resources_def batch_to_resource_page_def batch_of_def split: prod.splits)
qed

text \<open>
  An offset listing hands out the same cursor for every full page, the page psize, because the
  offset asked for is not added to it: over a table of two pages or more, a host that follows the
  cursors reads the second page for ever and the walk never ends.
\<close>

theorem offset_listing_never_ends:
  assumes "offset_query table execute" and "list_mode cfg = Offset"
    and "set (ps_param_order stmt) = {''cursor'', ''page_size''}"
    and "rt_list rt = Some (stmt, cfg)" and "profiles plugin name = Some rt"
    and "2 * unat (list_page_size cfg) \<le> length table"
  shows "list_walk fuel (list_resources json_text execute plugin name) None = None"
proof -
  let ?c = "Some (show_nat (unat (list_page_size cfg)))"
  note page = offset_page [OF assms(1-5), where json_text = json_text]
  have "list_walk n (list_resources json_text execute plugin name) ?c = None" for n
  proof (induction n)
    case (Suc n)
    then show ?case using page [of ?c "list_page_size cfg"] assms(6) by auto
  qed simp
  then show ?thesis using page [of None 0] assms(6) by (cases fuel) auto
qed

lemma offset_listing_never_ends_witness:
  "\<exists>plugin. list_walk 100 (list_resources (\<lambda>_. []) (table_execute
        (\<lambda>c. case c of Some (JNum (PosInt k)) \<Rightarrow> drop (unat k) sample_table | _ \<Rightarrow> [])) plugin ''orders'') None = None"
proof -
  let ?ex = "table_execute (\<lambda>c. case c of Some (JNum (PosInt k)) \<Rightarrow> drop (unat k) sample_table | _ \<Rightarrow> [])"
  obtain plugin :: plugin_state and rt :: profile_runtime where p: "profiles plugin ''orders'' = Some rt"
    "rt_list rt = Some (sample_list_stmt, sample_list_cfg Offset)"
    by (rule sample_list_plugin [of Offset]) blast
  have "offset_query sample_table ?ex"
    by (simp add: offset_query_def table_execute_def json_of_u64_def)
  moreover have "list_mode (sample_list_cfg Offset) = Offset"
    "set (ps_param_order sample_list_stmt) = {''cursor'', ''page_size''}"
    "2 * unat (list_page_size (sample_list_cfg Offset)) \<le> length sample_table"
    by (simp_all add: sample_list_cfg_def sample_list_stmt_def sample_table_def)
  ultimately have "list_walk 100 (list_resources (\<lambda>_. []) ?ex plugin ''orders'') None = None"
    using p by (intro offset_listing_never_ends)
  then show ?thesis by blast
qed

end
