(* ===== verification/Cache.thy ===== *)
theory Cache
  imports Response
begin

text \<open>
  \<open>src/cache.rs\<close>: the preimage of the cache key, and the watcher that bumps the version mixed into
  it.  \<open>hash_hex\<close> is the hexadecimal BLAKE3 digest, \<open>number_text\<close> the \<open>Display\<close> of a JSON number, both
  other crates' code.  The lemmas show which calls the key separates, and that it does not separate
  all of them.
\<close>

section \<open>Keys\<close>

text \<open>The bytes of a number, lowest first.\<close>

fun le_bytes :: "nat \<Rightarrow> nat \<Rightarrow> str" where
  "le_bytes 0 n = []"
| "le_bytes (Suc k) n = char_of (n mod 256) # le_bytes k (n div 256)"

definition le_u32 :: "nat \<Rightarrow> str" where "le_u32 i = le_bytes 4 (i mod 2 ^ 32)"

definition le_u64 :: "u64 \<Rightarrow> str" where "le_u64 v = le_bytes 8 (unat v)"

fun write_value :: "(number \<Rightarrow> str) \<Rightarrow> json \<Rightarrow> str" where
  "write_value number_text JNull = ''n''"
| "write_value number_text (JBool b) = (if b then ''t'' else ''f'')"
| "write_value number_text (JNum n) = ''#'' @ number_text n"
| "write_value number_text (JStr s) = CHR 0x22 # s @ [CHR 0x22]"
| "write_value number_text (JArr vs) =
     ''['' @ concat (map (\<lambda>iw. le_u32 (fst iw) @ snd iw) (zip [0..<length vs] (map (write_value number_text) vs))) @ '']''"
| "write_value number_text (JObj m) =
     ''{'' @ concat (map (\<lambda>p. fst p @ '':'' @ write_value number_text (snd p) @ '';'') m) @ ''}''"

definition write_canonical_params :: "(number \<Rightarrow> str) \<Rightarrow> bound_param list \<Rightarrow> str" where
  "write_canonical_params number_text params =
     concat (map (\<lambda>(i, p). le_u32 i @ bp_name p @ ''='' @ write_value number_text (bp_value p) @ '';'')
               (zip [0..<length params] params))"

definition write_session_vars :: "str omap \<Rightarrow> str" where
  "write_session_vars vars = concat (map (\<lambda>(k, v). k @ ''='' @ v @ '';'') vars)"

definition cache_preimage ::
    "(number \<Rightarrow> str) \<Rightarrow> str \<Rightarrow> str \<Rightarrow> bound_param list \<Rightarrow> str omap \<Rightarrow> u64 \<Rightarrow> str" where
  "cache_preimage number_text backend_name sql_text bound_params session_vars version =
     ''sql'' @ [CHR 0x00] @ backend_name @ [CHR 0x00] @ sql_text @ [CHR 0x00]
     @ write_canonical_params number_text bound_params @ [CHR 0x00]
     @ write_session_vars session_vars @ [CHR 0x00] @ le_u64 version"

definition build_cache_key ::
    "(str \<Rightarrow> str) \<Rightarrow> (number \<Rightarrow> str) \<Rightarrow> str \<Rightarrow> str \<Rightarrow> bound_param list \<Rightarrow> str omap \<Rightarrow> u64 \<Rightarrow> str" where
  "build_cache_key hash_hex number_text backend_name sql_text bound_params session_vars version =
     hash_hex (cache_preimage number_text backend_name sql_text bound_params session_vars version)"

section \<open>Invalidation\<close>

record invalidator =
  inv_version :: u64
  inv_last_cursor :: "json option"

definition invalidator_init :: invalidator where
  "invalidator_init = \<lparr>inv_version = 0, inv_last_cursor = None\<rparr>"

definition first_scalar :: "json list \<Rightarrow> json option" where
  "first_scalar rows =
     (case rows of
        [] \<Rightarrow> None
      | JObj m # _ \<Rightarrow> omap_first m
      | other # _ \<Rightarrow> Some other)"

definition bump :: "invalidator \<Rightarrow> invalidator" where
  "bump i = i\<lparr>inv_version := inv_version i + 1\<rparr>"

text \<open>One tick of the loop, for what the tracking query answers.\<close>

definition invalidation_tick :: "row_batch sql_result \<Rightarrow> invalidator \<Rightarrow> invalidator" where
  "invalidation_tick answer i =
     (case answer of
        Inl _ \<Rightarrow> i
      | Inr batch \<Rightarrow>
          (let cursor = first_scalar (rb_rows batch)
           in if cursor \<noteq> inv_last_cursor i
              then (if inv_last_cursor i \<noteq> None then bump i else i)\<lparr>inv_last_cursor := cursor\<rparr>
              else i))"

text \<open>The loop: the answers of its ticks until it is cancelled.\<close>

definition invalidation_loop :: "row_batch sql_result list \<Rightarrow> invalidator" where
  "invalidation_loop answers = fold invalidation_tick answers invalidator_init"

section \<open>What a key separates\<close>

lemma length_le_bytes [simp]: "length (le_bytes k n) = k"
  by (induction k arbitrary: n) simp_all

lemma le_bytes_inj: "m < 256 ^ k \<Longrightarrow> n < 256 ^ k \<Longrightarrow> le_bytes k m = le_bytes k n \<Longrightarrow> m = n"
proof (induction k arbitrary: m n)
  case (Suc k)
  have "char_of (m mod 256) = (char_of (n mod 256) :: char)"
    and rest: "le_bytes k (m div 256) = le_bytes k (n div 256)"
    using Suc.prems(3) by simp_all
  then have low: "m mod 256 = n mod 256"
    by (metis of_char_of mod_mod_trivial)
  have "m div 256 < 256 ^ k" "n div 256 < 256 ^ k"
    using Suc.prems(1,2) by (simp_all add: less_mult_imp_div_less mult.commute)
  then have "m div 256 = n div 256" using Suc.IH rest by blast
  then show ?case using low by (metis div_mult_mod_eq)
qed simp

lemma le_u64_inj: "le_u64 v = le_u64 w \<Longrightarrow> v = w"
proof -
  have "unat x < 256 ^ 8" for x :: u64
    using unsigned_less [of x] by simp
  then show "le_u64 v = le_u64 w \<Longrightarrow> v = w"
    unfolding le_u64_def by (metis le_bytes_inj unsigned_word_eqI)
qed

lemma preimage_version:
  "cache_preimage nt b s ps vars v = cache_preimage nt b' s' ps' vars' v' \<Longrightarrow> v = v'"
proof -
  assume eq: "cache_preimage nt b s ps vars v = cache_preimage nt b' s' ps' vars' v'"
  obtain x y where "cache_preimage nt b s ps vars v = x @ le_u64 v" "cache_preimage nt b' s' ps' vars' v' = y @ le_u64 v'"
    unfolding cache_preimage_def by (metis append.assoc)
  then have "le_u64 v = le_u64 v'" using eq by (simp add: append_eq_append_conv le_u64_def)
  then show ?thesis by (rule le_u64_inj)
qed

text \<open>
  The changes a run of ticks observes after the cursor \<open>last\<close>: the successful answers whose cursor
  differs from the one before them, once there is one.
\<close>

fun changes :: "json option \<Rightarrow> row_batch sql_result list \<Rightarrow> nat" where
  "changes prev [] = 0"
| "changes prev (Inl e # answers) = changes prev answers"
| "changes prev (Inr batch # answers) =
     (let cursor = first_scalar (rb_rows batch)
      in (if prev \<noteq> None \<and> cursor \<noteq> prev then 1 else 0) + changes cursor answers)"

lemma version_after:
  "inv_version (fold invalidation_tick answers i) = inv_version i + of_nat (changes (inv_last_cursor i) answers)"
  by (induction "inv_last_cursor i" answers arbitrary: i rule: changes.induct)
     (auto simp: invalidation_tick_def bump_def Let_def)

text \<open>
  C40. The version stamp counts the changes of the tracking cursor, modulo \<open>2\<^sup>6\<^sup>4\<close>, over any run of the
  watcher, failed polls included; so a key composed before an observed change is never the key of a
  call after it, whatever the bindings, statements, parameters and session variables of the two, and
  no entry stored before the change is served after it (as long as the digest does not collide on
  these two inputs and fewer than \<open>2\<^sup>6\<^sup>4\<close> changes lie between them).
\<close>

theorem cache_invalidation_fresh:
  assumes "before = invalidation_loop earlier" and "after = invalidation_loop (earlier @ later)"
    and "n = changes (inv_last_cursor before) later" and "0 < n" and "n < 2 ^ 64"
    and "inj_on hash_hex {cache_preimage nt b s ps vars (inv_version before), cache_preimage nt b' s' ps' vars' (inv_version after)}"
  shows "inv_version after = inv_version before + of_nat n
           \<and> build_cache_key hash_hex nt b s ps vars (inv_version before)
               \<noteq> build_cache_key hash_hex nt b' s' ps' vars' (inv_version after)"
proof -
  have v: "inv_version after = inv_version before + of_nat n"
    using assms(1-3) by (simp add: invalidation_loop_def version_after)
  have "unat (of_nat n :: u64) = n" using assms(5) by (simp add: unat_of_nat)
  then have "(of_nat n :: u64) \<noteq> 0" using assms(4) by (metis unat_0 less_numeral_extra(3))
  then have "inv_version before \<noteq> inv_version after" using v by simp
  then have "cache_preimage nt b s ps vars (inv_version before) \<noteq> cache_preimage nt b' s' ps' vars' (inv_version after)"
    using preimage_version by blast
  then show ?thesis using v assms(6) by (simp add: build_cache_key_def inj_on_def)
qed

lemma cache_invalidation_fresh_witness:
  "let tick = (\<lambda>n. Inr (batch_of [] [JNum (PosInt n)]));
       before = invalidation_loop [tick 1, Inl closed_error];
       after = invalidation_loop ([tick 1, Inl closed_error] @ [tick 1, tick 2])
   in build_cache_key (\<lambda>p. p) (\<lambda>_. []) ''a'' [] [] [] (inv_version before) \<noteq>
      build_cache_key (\<lambda>p. p) (\<lambda>_. []) ''a'' [] [] [] (inv_version after)"
proof -
  let ?tick = "\<lambda>n. Inr (batch_of [] [JNum (PosInt n)])"
  let ?before = "invalidation_loop [?tick 1, Inl closed_error]"
  let ?after = "invalidation_loop ([?tick 1, Inl closed_error] @ [?tick 1, ?tick 2])"
  have n: "1 = changes (inv_last_cursor ?before) [?tick 1, ?tick 2]"
    by (simp add: invalidation_loop_def invalidation_tick_def invalidator_init_def batch_of_def first_scalar_def Let_def)
  have "inv_version ?after = inv_version ?before + of_nat 1
      \<and> build_cache_key (\<lambda>p. p) (\<lambda>_. []) ''a'' [] [] [] (inv_version ?before) \<noteq>
        build_cache_key (\<lambda>p. p) (\<lambda>_. []) ''a'' [] [] [] (inv_version ?after)"
    by (rule cache_invalidation_fresh [OF refl refl n]) simp_all
  then show ?thesis unfolding Let_def by (rule conjunct2)
qed

text \<open>
  The text hashed for a key does not say where a value ends, so the key does not separate all
  calls: for one statement, two different lists of values for the same two parameters give the same
  key, and so do two different sets of session variables, whatever the digest.
\<close>

theorem cache_key_collides:
  "(\<exists>ps qs. map bp_name ps = map bp_name qs \<and> map bp_value ps \<noteq> map bp_value qs \<and>
      (\<forall>hash_hex nt b s vars v. build_cache_key hash_hex nt b s ps vars v = build_cache_key hash_hex nt b s qs vars v)) \<and>
   (\<exists>vars vars'. omap_ok vars \<and> omap_ok vars' \<and> vars \<noteq> vars' \<and>
      (\<forall>hash_hex nt b s ps v. build_cache_key hash_hex nt b s ps vars v = build_cache_key hash_hex nt b s ps vars' v))"
proof (intro conjI)
  let ?sep = "CHR 0x22 # '';'' @ le_u32 1 @ ''b='' @ [CHR 0x22]"
  let ?two = "\<lambda>x y. [\<lparr>bp_name = ''a'', bp_value = JStr x\<rparr>, \<lparr>bp_name = ''b'', bp_value = JStr y\<rparr>]"
  let ?ps = "?two (''x'' @ ?sep @ ''y'') ''z''" and ?qs = "?two ''x'' (''y'' @ ?sep @ ''z'')"
  have "write_canonical_params nt ?ps = write_canonical_params nt ?qs" for nt
    by (simp add: write_canonical_params_def)
  then have "map bp_name ?ps = map bp_name ?qs \<and> map bp_value ?ps \<noteq> map bp_value ?qs \<and>
      (\<forall>hash_hex nt b s vars v. build_cache_key hash_hex nt b s ?ps vars v = build_cache_key hash_hex nt b s ?qs vars v)"
    by (simp add: build_cache_key_def cache_preimage_def)
  then show "\<exists>ps qs. map bp_name ps = map bp_name qs \<and> map bp_value ps \<noteq> map bp_value qs \<and>
      (\<forall>hash_hex nt b s vars v. build_cache_key hash_hex nt b s ps vars v = build_cache_key hash_hex nt b s qs vars v)"
    by blast
  let ?vars = "[(''a'', ''x;b=y'')]" and ?vars' = "[(''a'', ''x''), (''b'', ''y'')]"
  have "omap_ok ?vars \<and> omap_ok ?vars' \<and> ?vars \<noteq> ?vars' \<and>
      (\<forall>hash_hex nt b s ps v. build_cache_key hash_hex nt b s ps ?vars v = build_cache_key hash_hex nt b s ps ?vars' v)"
    by (simp add: build_cache_key_def cache_preimage_def write_session_vars_def omap_ok_def)
  then show "\<exists>vars vars'. omap_ok vars \<and> omap_ok vars' \<and> vars \<noteq> vars' \<and>
      (\<forall>hash_hex nt b s ps v. build_cache_key hash_hex nt b s ps vars v = build_cache_key hash_hex nt b s ps vars' v)"
    by blast
qed

end
