(* ===== verification/Pools.thy ===== *)
theory Pools
  imports Registration
begin

text \<open>
  \<open>src/pool.rs\<close> and \<open>resolve_creds_for\<close> of \<open>src/lib.rs\<close>: the bounded registry of per-credential
  pools, and the credential bundle its keys are digests of.  A pool is an opaque handle.  Every
  operation of the registry holds its mutex, so a run of the registry is a sequence of operations;
  the \<open>HashMap\<close> is an ordered map, whose order nothing reads.
\<close>

section \<open>The registry\<close>

type_synonym pool_handle = nat

record pool_entry =
  pe_pool :: pool_handle
  pe_cred_keys :: "(str \<times> str) list"
  pe_last_used :: u64

type_synonym pools = "pool_entry omap"

text \<open>\<open>min_by_key\<close> on the last use, then on the digest.\<close>

definition used_before :: "str \<times> pool_entry \<Rightarrow> str \<times> pool_entry \<Rightarrow> bool" where
  "used_before x y \<longleftrightarrow>
     pe_last_used (snd x) < pe_last_used (snd y) \<or> pe_last_used (snd x) = pe_last_used (snd y) \<and> fst x \<le> fst y"

fun lru_entry :: "pools \<Rightarrow> (str \<times> pool_entry) option" where
  "lru_entry [] = None"
| "lru_entry (x # xs) =
     (case lru_entry xs of None \<Rightarrow> Some x | Some y \<Rightarrow> Some (if used_before x y then x else y))"

lemma lru_entry_in: "lru_entry ps = Some x \<Longrightarrow> x \<in> set ps"
  by (induction ps arbitrary: x) (auto split: option.splits if_splits)

lemma length_omap_remove: "k \<in> fst ` set m \<Longrightarrow> length (omap_remove k m) < length m"
  unfolding omap_remove_def by (elim imageE) (rule length_filter_less, assumption, auto)

text \<open>The eviction loop, entered when a pool was built for a new digest.\<close>

function make_room :: "nat \<Rightarrow> pools \<Rightarrow> pools" where
  "make_room pool_max_entries ps =
     (if length ps < pool_max_entries then ps
      else (case lru_entry ps of
              None \<Rightarrow> ps
            | Some (k, _) \<Rightarrow> make_room pool_max_entries (omap_remove k ps)))"
  by auto

termination
  by (relation "measure (\<lambda>(_, ps). length ps)")
     (auto dest!: lru_entry_in intro!: length_omap_remove simp: rev_image_eqI)

declare make_room.simps [simp del]

definition get_or_build ::
    "nat \<Rightarrow> u64 \<Rightarrow> str \<Rightarrow> (str \<times> str) list \<Rightarrow> pool_handle sql_result \<Rightarrow> pools \<Rightarrow> pools \<times> pool_handle sql_result" where
  "get_or_build pool_max_entries now digest cred_keys build ps =
     (case omap_get ps digest of
        Some entry \<Rightarrow> (omap_insert digest (entry\<lparr>pe_last_used := now\<rparr>) ps, Inr (pe_pool entry))
      | None \<Rightarrow>
          (case build of
             Inl e \<Rightarrow> (ps, Inl e)
           | Inr pool \<Rightarrow>
               (omap_insert digest \<lparr>pe_pool = pool, pe_cred_keys = cred_keys, pe_last_used = now\<rparr>
                  (make_room pool_max_entries ps), Inr pool)))"

text \<open>Removing the entries that satisfy a condition, and how many they were.\<close>

definition evict_where :: "(pool_entry \<Rightarrow> bool) \<Rightarrow> pools \<Rightarrow> pools \<times> nat" where
  "evict_where P ps =
     (let to_remove = map fst (filter (\<lambda>(_, e). P e) ps)
      in (fold omap_remove to_remove ps, length to_remove))"

definition evict_for :: "str \<Rightarrow> str \<Rightarrow> pools \<Rightarrow> pools \<times> nat" where
  "evict_for plugin_id target =
     evict_where (\<lambda>e. \<exists>pt \<in> set (pe_cred_keys e). fst pt = plugin_id \<and> snd pt = target)"

definition evict_for_secret :: "str \<Rightarrow> pools \<Rightarrow> pools \<times> nat" where
  "evict_for_secret secret_ref ps = ([], length ps)"

definition saturating_sub :: "u64 \<Rightarrow> u64 \<Rightarrow> u64" where
  "saturating_sub a b = (if b \<le> a then a - b else 0)"

definition sweep_idle :: "u64 \<Rightarrow> u64 \<Rightarrow> pools \<Rightarrow> pools \<times> nat" where
  "sweep_idle idle_eviction_ms now =
     evict_where (\<lambda>e. idle_eviction_ms \<le> saturating_sub now (pe_last_used e))"

definition snapshot_pools :: "pools \<Rightarrow> pool_handle list" where
  "snapshot_pools ps = map (\<lambda>(_, e). pe_pool e) ps"

section \<open>Credential bundles\<close>

text \<open>
  \<open>ce_tokens\<close>, \<open>ce_substitute\<close> and \<open>ce_parse_ref\<close> are the protocol crate's (\<open>cred_tokens\<close>,
  \<open>substitute_cred_tokens\<close>, \<open>CredRef::parse\<close>), \<open>ce_resolve\<close> the host's answer, \<open>ce_hash\<close> BLAKE3.
\<close>

datatype host_error = HostBackend backend_error | HostOther str

record cred_env =
  ce_tokens :: "str \<Rightarrow> str list"
  ce_substitute :: "str \<Rightarrow> (str \<rightharpoonup> str) \<Rightarrow> str"
  ce_parse_ref :: "str \<Rightarrow> (str \<times> str) option"
  ce_resolve :: "json \<Rightarrow> host_error + json"
  ce_hash :: "str \<Rightarrow> str"

record resolved_creds =
  rc_url :: str
  rc_session_vars :: "str omap"
  rc_digest :: str
  rc_cred_keys :: "(str \<times> str) list"

text \<open>The pairs arrive as a list; sorting them by their field is stable.\<close>

definition digest_credential_bundle :: "(str \<Rightarrow> str) \<Rightarrow> (str \<times> str) list \<Rightarrow> str" where
  "digest_credential_bundle hash pairs =
     hash (concat (map (\<lambda>(k, v). k @ ''='' @ v @ [CHR 0x0A]) (sort_key fst pairs)))"

definition collect_cred_refs :: "cred_env \<Rightarrow> str \<Rightarrow> (str \<times> str) list option" where
  "collect_cred_refs env s =
     (let out = List.map_filter (ce_parse_ref env) (ce_tokens env s)
      in if out = [] then None else Some out)"

definition token_vars :: "cred_env \<Rightarrow> sql_backend_config \<Rightarrow> str list" where
  "token_vars env cfg = map fst (filter (\<lambda>(_, v). ce_tokens env v \<noteq> []) (cfg_session_vars cfg))"

definition cred_uris :: "cred_env \<Rightarrow> sql_backend_config \<Rightarrow> str list" where
  "cred_uris env cfg =
     ce_tokens env (cfg_url cfg) @ concat (map (\<lambda>(_, v). ce_tokens env v) (cfg_session_vars cfg))"

definition refs_of :: "(str \<times> str) list option \<Rightarrow> (str \<times> str) list" where
  "refs_of refs = (case refs of None \<Rightarrow> [] | Some rs \<Rightarrow> rs)"

text \<open>\<open>cred_keys.sort(); cred_keys.dedup()\<close>.\<close>

definition sort_dedup :: "(str \<times> str) list \<Rightarrow> (str \<times> str) list" where
  "sort_dedup ks = remdups_adj (sort_key fst (sort_key snd ks))"

definition resolve_creds_for :: "cred_env \<Rightarrow> sql_backend_config \<Rightarrow> resolved_creds backend_result" where
  "resolve_creds_for env cfg =
     (let snapshot = json_obj (map (\<lambda>uri. (uri, JStr uri)) (cred_uris env cfg)) in
      and_then
        (map_err (\<lambda>e. case e of
             HostBackend cause \<Rightarrow> cause
           | HostOther t \<Rightarrow> BTransport ''credential resolution: '' t) (ce_resolve env snapshot)) (\<lambda>answer.
      case answer of
        JObj obj \<Rightarrow>
          (let cred_map = (\<lambda>k. Option.bind (omap_get obj k) as_str);
               url = ce_substitute env (cfg_url cfg) cred_map;
               vars = fold (\<lambda>key vars. case omap_get (cfg_session_vars cfg) key of
                        Some v \<Rightarrow> omap_insert key (ce_substitute env v cred_map) vars
                      | None \<Rightarrow> vars) (token_vars env cfg) (cfg_session_vars cfg);
               pairs = (''url'', url) #
                       List.map_filter (\<lambda>key. map_option (\<lambda>v. (''session_vars.'' @ key, v)) (omap_get vars key))
                         (token_vars env cfg);
               keys = refs_of (collect_cred_refs env (cfg_url cfg)) @
                      concat (map (\<lambda>(_, v). refs_of (collect_cred_refs env v)) (cfg_session_vars cfg))
           in Inr \<lparr>rc_url = url, rc_session_vars = vars,
                   rc_digest = digest_credential_bundle (ce_hash env) pairs, rc_cred_keys = sort_dedup keys\<rparr>)
      | _ \<Rightarrow> Inl (BTransport [] ''credential resolver mutated snapshot to non-object'')))"

section \<open>The bound and the keys\<close>

text \<open>
  A run of one registry: its pools, and the record of the pools built so far, each with the digest
  it was built for.
\<close>

record registry_run =
  rr_pools :: pools
  rr_built :: "(str \<times> pool_handle) set"

inductive pools_step :: "nat \<Rightarrow> u64 \<Rightarrow> registry_run \<Rightarrow> registry_run \<Rightarrow> bool" for mx idle where
  call: "pools_step mx idle r
           \<lparr>rr_pools = fst (get_or_build mx now digest keys build (rr_pools r)),
            rr_built = rr_built r \<union> {(digest, p) | p. build = Inr p \<and> omap_get (rr_pools r) digest = None}\<rparr>"
| revoke: "pools_step mx idle r (r\<lparr>rr_pools := fst (evict_for plugin_id target (rr_pools r))\<rparr>)"
| rotate: "pools_step mx idle r (r\<lparr>rr_pools := fst (evict_for_secret secret_ref (rr_pools r))\<rparr>)"
| sweep: "pools_step mx idle r (r\<lparr>rr_pools := fst (sweep_idle idle now (rr_pools r))\<rparr>)"

definition registry_init :: "registry_run \<Rightarrow> bool" where
  "registry_init r \<longleftrightarrow> rr_pools r = [] \<and> rr_built r = {}"

definition pools_inv :: "nat \<Rightarrow> registry_run \<Rightarrow> bool" where
  "pools_inv mx r \<longleftrightarrow>
     omap_ok (rr_pools r) \<and> length (rr_pools r) \<le> max 1 mx \<and>
     (\<forall>d e. omap_get (rr_pools r) d = Some e \<longrightarrow> (d, pe_pool e) \<in> rr_built r)"

lemma fold_omap_remove_ok: "omap_ok m \<Longrightarrow> omap_ok (fold omap_remove ks m)"
  by (induction ks arbitrary: m) (simp_all add: omap_ok_remove)

lemma fold_omap_remove_get: "omap_get (fold omap_remove ks m) k = (if k \<in> set ks then None else omap_get m k)"
  by (induction ks arbitrary: m) auto

lemma fold_omap_remove_length: "length (fold omap_remove ks m) \<le> length m"
  by (induction ks arbitrary: m) (auto simp: omap_remove_def intro: order_trans [OF _ length_filter_le])

lemma omap_get_in: "omap_ok m \<Longrightarrow> omap_get m k = Some v \<longleftrightarrow> (k, v) \<in> set m"
  unfolding omap_get_def omap_ok_def
  by (metis map_of_SomeD map_of_is_SomeI strict_sorted_iff)

lemma evict_where_get:
  assumes "omap_ok ps"
  shows "omap_get (fst (evict_where P ps)) k =
           (case omap_get ps k of Some e \<Rightarrow> if P e then None else Some e | None \<Rightarrow> None)"
proof (cases "omap_get ps k")
  case None
  then show ?thesis by (simp add: evict_where_def fold_omap_remove_get)
next
  case (Some e)
  have "k \<in> fst ` {x \<in> set ps. case x of (_, e) \<Rightarrow> P e} \<longleftrightarrow> (\<exists>e'. (k, e') \<in> set ps \<and> P e')"
    by force
  also have "\<dots> \<longleftrightarrow> P e"
    using Some by (auto simp flip: omap_get_in [OF assms])
  finally have "k \<in> fst ` {x \<in> set ps. case x of (_, e) \<Rightarrow> P e} \<longleftrightarrow> P e" .
  then show ?thesis using Some by (simp add: evict_where_def fold_omap_remove_get Let_def)
qed

lemma evict_where_inv: "pools_inv mx r \<Longrightarrow> pools_inv mx (r\<lparr>rr_pools := fst (evict_where P (rr_pools r))\<rparr>)"
  using fold_omap_remove_length [of _ "rr_pools r"]
  by (auto simp: pools_inv_def evict_where_get split: option.splits if_splits)
     (auto simp: evict_where_def Let_def fold_omap_remove_ok intro: order_trans)

lemma make_room_props:
  "omap_ok ps \<Longrightarrow> omap_ok (make_room mx ps) \<and> length (make_room mx ps) \<le> mx - 1
     \<and> (\<forall>d e. omap_get (make_room mx ps) d = Some e \<longrightarrow> omap_get ps d = Some e)"
proof (induction mx ps rule: make_room.induct)
  case (1 mx ps)
  show ?case
  proof (cases "length ps < mx \<or> lru_entry ps = None")
    case True
    then have "make_room mx ps = ps" by (subst make_room.simps) auto
    moreover have "lru_entry ps = None \<Longrightarrow> ps = []" by (cases ps) (auto split: option.splits)
    ultimately show ?thesis using True 1(2) by auto
  next
    case False
    then obtain k e where k: "lru_entry ps = Some (k, e)" by auto
    then have eq: "make_room mx ps = make_room mx (omap_remove k ps)"
      using False by (subst make_room.simps) simp
    have "omap_ok (make_room mx (omap_remove k ps)) \<and> length (make_room mx (omap_remove k ps)) \<le> mx - 1
        \<and> (\<forall>d e. omap_get (make_room mx (omap_remove k ps)) d = Some e \<longrightarrow> omap_get (omap_remove k ps) d = Some e)"
      using 1(1) [of "(k, e)" k e] False k 1(2) omap_ok_remove [of ps k] by blast
    moreover have "omap_get (omap_remove k ps) d = Some e \<Longrightarrow> omap_get ps d = Some e" for d e
      by (simp split: if_splits)
    ultimately show ?thesis unfolding eq by blast
  qed
qed

lemma used_before_trans: "used_before x y \<Longrightarrow> used_before y z \<Longrightarrow> used_before x z"
  by (auto simp: used_before_def)

lemma used_before_total: "used_before x y \<or> used_before y x"
  by (auto simp: used_before_def)

lemma lru_entry_min: "ps \<noteq> [] \<Longrightarrow> \<exists>k e. lru_entry ps = Some (k, e) \<and> (\<forall>x \<in> set ps. used_before (k, e) x)"
proof (induction ps)
  case (Cons x ps)
  have refl: "used_before y y" for y by (simp add: used_before_def)
  show ?case
  proof (cases "ps = []")
    case False
    then obtain k e where ke: "lru_entry ps = Some (k, e)" "\<forall>x \<in> set ps. used_before (k, e) x"
      using Cons.IH by blast
    then show ?thesis
      using used_before_trans used_before_total refl by (cases x) (fastforce)
  qed (use refl in \<open>cases x, simp\<close>)
qed simp

lemma length_omap_insert: "length (omap_insert k v m) \<le> Suc (length m)"
  by (induction k v m rule: omap_insert.induct) auto

lemma length_omap_update: "omap_ok m \<Longrightarrow> omap_get m k \<noteq> None \<Longrightarrow> length (omap_insert k v m) = length m"
  by (induction k v m rule: omap_insert.induct) (auto simp: omap_get_def omap_ok_def split: if_splits dest!: map_of_SomeD)

lemma get_or_build_inv:
  assumes inv: "pools_inv mx r"
  shows "pools_inv mx \<lparr>rr_pools = fst (get_or_build mx now digest keys build (rr_pools r)),
            rr_built = rr_built r \<union> {(digest, p) | p. build = Inr p \<and> omap_get (rr_pools r) digest = None}\<rparr>"
proof (cases "omap_get (rr_pools r) digest")
  case (Some e)
  then show ?thesis
    using inv by (auto simp: pools_inv_def get_or_build_def omap_ok_insert length_omap_update)
next
  case None
  show ?thesis
  proof (cases build)
    case (Inl e)
    then show ?thesis using None inv by (simp add: pools_inv_def get_or_build_def)
  next
    case (Inr p)
    let ?m = "make_room mx (rr_pools r)"
    have m: "omap_ok ?m" "length ?m \<le> mx - 1" "\<forall>d e. omap_get ?m d = Some e \<longrightarrow> omap_get (rr_pools r) d = Some e"
      using make_room_props [of "rr_pools r" mx] inv unfolding pools_inv_def by blast+
    then have "length (omap_insert digest e ?m) \<le> max 1 mx" for e
      by (intro order_trans [OF length_omap_insert]) auto
    moreover have "(d, pe_pool e) \<in> rr_built r" if "omap_get ?m d = Some e" for d e
      using m(3) that inv unfolding pools_inv_def by blast
    ultimately show ?thesis
      using None Inr m(1) by (simp add: pools_inv_def get_or_build_def omap_ok_insert)
  qed
qed

interpretation registry: transition_invariant registry_init "pools_step mx idle" "pools_inv mx" for mx idle
proof unfold_locales
  show "registry_init r \<Longrightarrow> pools_inv mx r" for r
    by (simp add: registry_init_def pools_inv_def)
  fix r r'
  assume inv: "pools_inv mx r" and "pools_step mx idle r r'"
  from this(2) show "pools_inv mx r'"
  proof cases
    case call
    then show ?thesis using get_or_build_inv [OF inv] by simp
  next
    case rotate
    then show ?thesis using inv by (simp add: pools_inv_def evict_for_secret_def)
  qed (use inv in \<open>simp_all add: evict_for_def sweep_idle_def evict_where_inv\<close>)
qed

text \<open>
  C36. However calls, revocations, secret rotations and idle sweeps interleave, the registry never holds
  more pools than its configured maximum (one, when that is zero), and the pool a call gets is one
  that was built for the digest of its own credential bundle, never another caller's.
\<close>

theorem pool_registry_bounded:
  assumes "registry_init r0" and "(pools_step mx idle)\<^sup>*\<^sup>* r0 r"
    and "get_or_build mx now digest keys build (rr_pools r) = (ps, Inr pool)"
  shows "length (rr_pools r) \<le> max 1 mx \<and> length ps \<le> max 1 mx
           \<and> ((digest, pool) \<in> rr_built r \<or> omap_get (rr_pools r) digest = None \<and> build = Inr pool)"
proof -
  have inv: "pools_inv mx r" using registry.reachable_inv assms(1,2) .
  have "pools_inv mx \<lparr>rr_pools = ps,
      rr_built = rr_built r \<union> {(digest, p) | p. build = Inr p \<and> omap_get (rr_pools r) digest = None}\<rparr>"
    using get_or_build_inv [OF inv, of now digest keys build] assms(3) by simp
  then show ?thesis
    using inv assms(3) by (auto simp: pools_inv_def get_or_build_def split: option.splits sum.splits)
qed

text \<open>
  When the registry is full, a call with a new digest evicts exactly one pool, one used longest ago;
  every other pool stays, and the new one is stored under its digest.
\<close>

theorem pool_registry_evicts_lru:
  assumes "omap_ok ps" and "length ps = mx" and "0 < mx" and "omap_get ps digest = None"
  shows "\<exists>k e. omap_get ps k = Some e
           \<and> (\<forall>k' e'. omap_get ps k' = Some e' \<longrightarrow> pe_last_used e \<le> pe_last_used e')
           \<and> omap_get (fst (get_or_build mx now digest keys (Inr pool) ps)) =
               (omap_get ps)(k := None,
                             digest \<mapsto> \<lparr>pe_pool = pool, pe_cred_keys = keys, pe_last_used = now\<rparr>)"
proof -
  obtain k e where k: "lru_entry ps = Some (k, e)" and min: "\<forall>x \<in> set ps. used_before (k, e) x"
    using lru_entry_min [of ps] assms(2,3) by auto
  have mem: "(k, e) \<in> set ps" using lru_entry_in [OF k] .
  have "length (omap_remove k ps) < mx" using length_omap_remove [of k ps] mem assms(2) by force
  then have room: "make_room mx ps = omap_remove k ps"
    using k assms(2) by (subst make_room.simps, subst make_room.simps) simp
  have "pe_last_used e \<le> pe_last_used e'" if "omap_get ps k' = Some e'" for k' e'
    using min that by (auto simp: omap_get_in [OF assms(1)] used_before_def dest!: bspec)
  moreover have "omap_get (omap_insert digest n (omap_remove k ps)) = (omap_get ps)(k := None, digest \<mapsto> n)" for n
    using assms(1) by (intro ext) (simp add: omap_ok_remove)
  ultimately show ?thesis
    using mem assms(4) by (intro exI [of _ k] exI [of _ e]) (simp add: get_or_build_def room omap_get_in [OF assms(1)])
qed

lemma pool_registry_bounded_witness:
  "\<exists>ps. get_or_build 2 9 ''d1'' [] (Inr 7) [(''d1'', \<lparr>pe_pool = 1, pe_cred_keys = [], pe_last_used = 5\<rparr>)] = (ps, Inr 1)
     \<and> length ps \<le> max 1 2"
proof -
  let ?e = "\<lparr>pe_pool = 1, pe_cred_keys = [], pe_last_used = 5\<rparr> :: pool_entry"
  let ?init = "\<lparr>rr_pools = [], rr_built = {}\<rparr>"
  let ?r = "\<lparr>rr_pools = [(''d1'', ?e)], rr_built = {(''d1'', 1)}\<rparr>"
  have "pools_step 2 100 ?init ?r"
    using pools_step.call [of 2 100 ?init 5 "''d1''" "[]" "Inr 1"]
    by (simp add: get_or_build_def make_room.simps)
  then have "(pools_step 2 100)\<^sup>*\<^sup>* ?init ?r" by (rule r_into_rtranclp)
  moreover have "registry_init ?init" by (simp add: registry_init_def)
  moreover have eq: "get_or_build 2 9 ''d1'' [] (Inr 7) (rr_pools ?r) = ([(''d1'', ?e\<lparr>pe_last_used := 9\<rparr>)], Inr 1)"
    by (simp add: get_or_build_def omap_get_def)
  ultimately show ?thesis using pool_registry_bounded by fastforce
qed

lemma pool_registry_evicts_lru_witness:
  "\<exists>k. omap_get (fst (get_or_build 1 9 ''d2'' [] (Inr 7)
            [(''d1'', \<lparr>pe_pool = 1, pe_cred_keys = [], pe_last_used = 5\<rparr>)])) k = None
       \<and> k = ''d1''"
proof -
  let ?ps = "[(''d1'', \<lparr>pe_pool = 1, pe_cred_keys = [], pe_last_used = 5\<rparr> :: pool_entry)]"
  have "omap_ok ?ps" "omap_get ?ps ''d2'' = None" by code_simp+
  from pool_registry_evicts_lru [OF this(1) _ _ this(2), of 1 9 "[]" 7]
  obtain k e where "omap_get ?ps k = Some e"
    and "omap_get (fst (get_or_build 1 9 ''d2'' [] (Inr 7) ?ps)) =
           (omap_get ?ps)(k := None, ''d2'' \<mapsto> \<lparr>pe_pool = 7, pe_cred_keys = [], pe_last_used = 9\<rparr>)"
    by auto
  then show ?thesis by (auto simp: omap_get_def split: if_splits)
qed

section \<open>Revocation\<close>

lemma set_sort_dedup [simp]: "set (sort_dedup ks) = set ks"
  by (simp add: sort_dedup_def)

lemma set_collect_cred_refs:
  "set (refs_of (collect_cred_refs env s)) = {pt. \<exists>uri \<in> set (ce_tokens env s). ce_parse_ref env uri = Some pt}"
  by (auto simp: refs_of_def collect_cred_refs_def Let_def map_filter_def filter_empty_conv image_iff)

lemma resolved_keys_eq:
  "resolve_creds_for env cfg = Inr rc \<Longrightarrow>
   rc_cred_keys rc = sort_dedup (refs_of (collect_cred_refs env (cfg_url cfg)) @
     concat (map (\<lambda>(_, v). refs_of (collect_cred_refs env v)) (cfg_session_vars cfg)))"
  unfolding resolve_creds_for_def Let_def and_then_eq_Inr
  by (elim exE conjE) (auto split: json.splits)

lemma resolved_cred_keys:
  "resolve_creds_for env cfg = Inr rc \<Longrightarrow>
   set (rc_cred_keys rc) = {pt. \<exists>uri \<in> set (cred_uris env cfg). ce_parse_ref env uri = Some pt}"
  by (auto simp: resolved_keys_eq cred_uris_def set_collect_cred_refs)

lemma get_or_build_ok: "omap_ok ps \<Longrightarrow> omap_ok (fst (get_or_build mx now d keys build ps))"
  using make_room_props [of ps mx] by (simp add: get_or_build_def omap_ok_insert split: option.splits sum.splits)

lemma get_or_build_keys:
  assumes "omap_ok ps" and "\<And>d e. omap_get ps d = Some e \<Longrightarrow> pe_cred_keys e = keys"
    and "omap_get (fst (get_or_build mx now digest keys build ps)) d = Some e"
  shows "pe_cred_keys e = keys"
proof (cases "omap_get ps digest")
  case None
  then show ?thesis
    using assms make_room_props [of ps mx] by (auto simp: get_or_build_def split: sum.splits if_splits)
next
  case (Some e')
  then show ?thesis using assms by (auto simp: get_or_build_def split: if_splits)
qed

text \<open>
  C37. A revocation reaches every pool of a profile whose configuration names the credential: the keys
  a resolution stores with a pool are those of all the credential tokens of the URL and of the
  session variables, so after the revocation of any of them the profile's registry is empty and the
  next call opens a pool with fresh credentials.
\<close>

theorem revocation_reaches_pools:
  assumes "resolve_creds_for env cfg = Inr rc"
    and "uri \<in> set (cred_uris env cfg)" and "ce_parse_ref env uri = Some (plugin_id, target)"
    and "omap_ok ps" and "\<And>d e. omap_get ps d = Some e \<Longrightarrow> pe_cred_keys e = rc_cred_keys rc"
  shows "fst (evict_for plugin_id target
                (fst (get_or_build mx now (rc_digest rc) (rc_cred_keys rc) build ps))) = []"
proof (rule omap_empty)
  fix k
  let ?ps = "fst (get_or_build mx now (rc_digest rc) (rc_cred_keys rc) build ps)"
  have ok: "omap_ok ?ps" using assms(4) by (rule get_or_build_ok)
  have "(plugin_id, target) \<in> set (rc_cred_keys rc)"
    using resolved_cred_keys [OF assms(1)] assms(2,3) by blast
  then have "(plugin_id, target) \<in> set (pe_cred_keys e)" if "omap_get ?ps k = Some e" for e
    using get_or_build_keys [OF assms(4,5) that] by simp
  then show "omap_get (fst (evict_for plugin_id target ?ps)) k = None"
    unfolding evict_for_def evict_where_get [OF ok] by (force split: option.splits)
qed

text \<open>A URL with one token, resolved by the host to a password.\<close>

definition sample_cred_env :: cred_env where
  "sample_cred_env =
     \<lparr>ce_tokens = (\<lambda>s. if s = cfg_url sample_cfg then [''cred://vault/orders''] else []),
      ce_substitute = (\<lambda>s m. case m ''cred://vault/orders'' of Some v \<Rightarrow> v | None \<Rightarrow> s),
      ce_parse_ref = (\<lambda>uri. Some (''vault'', ''orders'')),
      ce_resolve = (\<lambda>_. Inr (JObj [(''cred://vault/orders'', JStr ''s3cret'')])),
      ce_hash = (\<lambda>s. s)\<rparr>"

lemma revocation_reaches_pools_witness:
  "\<exists>rc. resolve_creds_for sample_cred_env sample_cfg = Inr rc
     \<and> fst (evict_for ''vault'' ''orders'' (fst (get_or_build 4 1 (rc_digest rc) (rc_cred_keys rc) (Inr 3) []))) = []"
proof -
  have "\<exists>rc. resolve_creds_for sample_cred_env sample_cfg = Inr rc"
    by (simp add: resolve_creds_for_def sample_cred_env_def Let_def)
  then obtain rc where rc: "resolve_creds_for sample_cred_env sample_cfg = Inr rc" by blast
  have tok: "''cred://vault/orders'' \<in> set (cred_uris sample_cred_env sample_cfg)"
    "ce_parse_ref sample_cred_env ''cred://vault/orders'' = Some (''vault'', ''orders'')"
    by (simp_all add: cred_uris_def sample_cred_env_def)
  have "fst (evict_for ''vault'' ''orders'' (fst (get_or_build 4 1 (rc_digest rc) (rc_cred_keys rc) (Inr 3) []))) = []"
    by (rule revocation_reaches_pools [OF rc tok]) simp_all
  then show ?thesis using rc by blast
qed

end
