(* ===== verification/Redact.thy ===== *)
theory Redact
  imports Errors
begin

text \<open>
  \<open>src/redact.rs\<close>: passwords in URLs inside error texts.  The \<open>url\<close> crate is a \<open>url_lib\<close>: a parsed URL
  is an opaque handle with the four operations the module calls.  \<open>error_of\<close> closes the projection of
  \<open>src/errors.rs\<close> with it.
\<close>

section \<open>Tokens\<close>

fun next_token :: "str \<Rightarrow> str \<times> str" where
  "next_token [] = ([], [])"
| "next_token (c # s) =
     (if ws_len (c # s) \<noteq> 0 then ([], c # s)
      else case next_token s of (tok, rest) \<Rightarrow> (c # tok, rest))"

lemma next_token_append: "fst (next_token s) @ snd (next_token s) = s"
  by (induction s) (auto split: prod.splits)

lemma next_token_nonempty: "s \<noteq> [] \<Longrightarrow> ws_len s = 0 \<Longrightarrow> fst (next_token s) \<noteq> []"
  by (cases s) (auto split: prod.splits)

lemma next_token_shorter:
  assumes "trim_start s \<noteq> []"
  shows "length (snd (next_token (trim_start s))) < length s"
proof -
  have "length (trim_start s) = length (fst (next_token (trim_start s))) + length (snd (next_token (trim_start s)))"
    using next_token_append [of "trim_start s"] by (metis length_append)
  moreover have "fst (next_token (trim_start s)) \<noteq> []"
    using assms by (intro next_token_nonempty) simp_all
  ultimately show ?thesis using trim_start_length [of s] by (cases "fst (next_token (trim_start s))") auto
qed

function split_whitespace :: "str \<Rightarrow> str list" where
  "split_whitespace s =
     (if trim_start s = [] then []
      else fst (next_token (trim_start s)) # split_whitespace (snd (next_token (trim_start s))))"
  by auto
termination
  by (relation "measure length") (simp_all add: next_token_shorter)

declare split_whitespace.simps [simp del]

lemma split_whitespace_step:
  "split_whitespace s =
     (case trim_start s of [] \<Rightarrow> []
      | c # t \<Rightarrow> (case next_token (c # t) of (tok, rest) \<Rightarrow> tok # split_whitespace rest))"
  by (subst split_whitespace.simps) (simp split: list.splits prod.splits)

section \<open>Redaction\<close>

type_synonym url = nat

record url_lib =
  ul_parse :: "str \<Rightarrow> url option"
  ul_password :: "url \<Rightarrow> str option"
  ul_set_password :: "url \<Rightarrow> str \<Rightarrow> url option"
  ul_to_string :: "url \<Rightarrow> str"

text \<open>\<open>None\<close> is a borrowed result: the text stays as it is.\<close>

definition redact_password :: "url_lib \<Rightarrow> str \<Rightarrow> str option" where
  "redact_password lib s =
     (case ul_parse lib s of
        None \<Rightarrow> None
      | Some parsed \<Rightarrow>
          (case ul_password lib parsed of
             None \<Rightarrow> None
           | Some pw \<Rightarrow>
               if pw = [] then None
               else (case ul_set_password lib parsed ''***'' of
                       None \<Rightarrow> None
                     | Some parsed \<Rightarrow> Some (ul_to_string lib parsed))))"

definition trailing_punct :: "char \<Rightarrow> bool" where
  "trailing_punct c \<longleftrightarrow> c \<in> set ''.,;:)]}'' \<or> c = CHR 0x22 \<or> c = CHR 0x27"

definition split_trailing_punct :: "str \<Rightarrow> str \<times> str" where
  "split_trailing_punct tok =
     (rev (dropWhile trailing_punct (rev tok)), rev (takeWhile trailing_punct (rev tok)))"

definition redact_token :: "url_lib \<Rightarrow> str \<Rightarrow> str" where
  "redact_token lib tok =
     (case split_trailing_punct tok of (core, trail) \<Rightarrow>
        (case redact_password lib core of None \<Rightarrow> tok | Some r \<Rightarrow> r @ trail))"

definition redact_in_text :: "url_lib \<Rightarrow> str \<Rightarrow> str" where
  "redact_in_text lib t = join '' '' (map (redact_token lib) (split_whitespace t))"

definition error_of :: "(msg \<Rightarrow> str) \<Rightarrow> (sqlx_error \<Rightarrow> str) \<Rightarrow> url_lib \<Rightarrow> sql_error \<Rightarrow> backend_error" where
  "error_of render sqlx_text lib = to_backend_error render sqlx_text (redact_in_text lib)"

section \<open>What redaction hides\<close>

lemma split_trailing_punct_append: "fst (split_trailing_punct tok) @ snd (split_trailing_punct tok) = tok"
  by (simp add: split_trailing_punct_def flip: rev_append)

text \<open>Two URLs that differ in their password only: the second is the first with another one set.\<close>

definition same_but_password :: "url_lib \<Rightarrow> str \<Rightarrow> str \<Rightarrow> bool" where
  "same_but_password lib s t \<longleftrightarrow>
     (case (ul_parse lib s, ul_parse lib t) of
        (Some u, Some v) \<Rightarrow>
          (case (ul_password lib u, ul_password lib v) of
             (Some p, Some q) \<Rightarrow> p \<noteq> [] \<and> q \<noteq> [] \<and> ul_set_password lib u q = Some v
           | _ \<Rightarrow> False)
      | _ \<Rightarrow> False)"

definition tokens_agree :: "url_lib \<Rightarrow> str \<Rightarrow> str \<Rightarrow> bool" where
  "tokens_agree lib s t \<longleftrightarrow>
     s = t \<or> snd (split_trailing_punct s) = snd (split_trailing_punct t)
               \<and> same_but_password lib (fst (split_trailing_punct s)) (fst (split_trailing_punct t))"

lemma redact_password_agree:
  assumes "same_but_password lib s t"
    and "\<forall>u p v q. ul_set_password lib u p = Some v \<longrightarrow> ul_set_password lib v q = ul_set_password lib u q \<and> ul_set_password lib u q \<noteq> None"
  shows "\<exists>r. redact_password lib s = Some r \<and> redact_password lib t = Some r"
proof -
  obtain u v p q where "ul_parse lib s = Some u" "ul_parse lib t = Some v" "ul_password lib u = Some p"
    "ul_password lib v = Some q" "p \<noteq> []" "q \<noteq> []" and set: "ul_set_password lib u q = Some v"
    using assms(1) by (auto simp: same_but_password_def split: option.splits)
  moreover obtain w where "ul_set_password lib u ''***'' = Some w"
    using assms(2) set by blast
  moreover have "ul_set_password lib v ''***'' = ul_set_password lib u ''***''"
    using assms(2) set by blast
  ultimately show ?thesis by (simp add: redact_password_def)
qed

lemma redact_token_agree:
  assumes "tokens_agree lib s t"
    and "\<forall>u p v q. ul_set_password lib u p = Some v \<longrightarrow> ul_set_password lib v q = ul_set_password lib u q \<and> ul_set_password lib u q \<noteq> None"
  shows "redact_token lib s = redact_token lib t"
  using assms(1) redact_password_agree [OF _ assms(2)]
  by (fastforce simp: tokens_agree_def redact_token_def split: prod.splits)

text \<open>
  C29. What an error text says to the host does not depend on a password inside it: two texts whose words
  agree but for the passwords of the URLs among them (with the same punctuation behind) are redacted
  to the same text.  Of the URL library only this is assumed: setting a password replaces the one set
  before, and a URL that takes one password takes any.
\<close>

theorem redaction_hides_passwords:
  assumes "list_all2 (tokens_agree lib) (split_whitespace s) (split_whitespace t)"
    and "\<forall>u p v q. ul_set_password lib u p = Some v \<longrightarrow> ul_set_password lib v q = ul_set_password lib u q \<and> ul_set_password lib u q \<noteq> None"
  shows "redact_in_text lib s = redact_in_text lib t"
proof -
  have "map (redact_token lib) (split_whitespace s) = map (redact_token lib) (split_whitespace t)"
    using assms(1) by (induction rule: list_all2_induct) (simp_all add: redact_token_agree [OF _ assms(2)])
  then show ?thesis by (simp add: redact_in_text_def)
qed

text \<open>A URL library that knows two URLs, and the URL both redact to.\<close>

definition sample_url_lib :: url_lib where
  "sample_url_lib =
     \<lparr>ul_parse = (\<lambda>s. if s = ''pg://u:a@h'' then Some 2 else if s = ''pg://u:b@h'' then Some 3 else None),
      ul_password = (\<lambda>u. if u = 2 then Some ''a'' else Some ''b''),
      ul_set_password = (\<lambda>u p. if p = ''a'' then Some 2 else if p = ''b'' then Some 3 else Some 4),
      ul_to_string = (\<lambda>u. ''pg://u:***@h'')\<rparr>"

lemma split_whitespace_sample:
  "split_whitespace ''to pg://u:a@h, x'' = [''to'', ''pg://u:a@h,'', ''x'']"
  "split_whitespace ''to pg://u:b@h, x'' = [''to'', ''pg://u:b@h,'', ''x'']"
  by (simp_all add: split_whitespace_step trim_start.simps ws1_def ws2_def ws3_def)

lemma redaction_hides_passwords_witness:
  "redact_in_text sample_url_lib ''to pg://u:a@h, x'' = redact_in_text sample_url_lib ''to pg://u:b@h, x''
     \<and> redact_in_text sample_url_lib ''to pg://u:a@h, x'' = ''to pg://u:***@h, x''"
proof -
  have "redact_in_text sample_url_lib ''to pg://u:a@h, x'' = redact_in_text sample_url_lib ''to pg://u:b@h, x''"
    by (rule redaction_hides_passwords)
       (simp_all add: split_whitespace_sample tokens_agree_def split_trailing_punct_def trailing_punct_def
          same_but_password_def sample_url_lib_def)
  moreover have "redact_in_text sample_url_lib ''to pg://u:a@h, x'' = ''to pg://u:***@h, x''"
    by (simp add: redact_in_text_def redact_token_def split_whitespace_sample split_trailing_punct_def
        trailing_punct_def redact_password_def sample_url_lib_def)
  ultimately show ?thesis by blast
qed

end
