(* ===== verification/Dispatch.thy ===== *)
theory Dispatch
  imports Cost Cache Pools Redact
begin

text \<open>
  The request path of \<open>src/lib.rs\<close>: \<open>execute\<close>, \<open>execute_inner\<close>, \<open>resolve_pool_for_call\<close>,
  \<open>execute_inner_impl\<close> and \<open>execute_await_loop\<close>.  What the world answers to one call (the drivers, the
  host's cache and credential resolver, \<open>serde_json\<close>, the CEL evaluator) is an \<open>exec_env\<close>; what the call
  does to the world is a list of events beside its result, and the breaker and the pool registry of
  the binding are passed as state.
\<close>

section \<open>Requests, answers, events\<close>

record request =
  rq_id :: str
  rq_payload :: str
  rq_identity :: "plugin_identity option"
  rq_client :: "client_info option"
  rq_idempotency :: "(str \<times> str) option"

record response =
  br_payload :: str
  br_truncated :: bool

text \<open>The pool of a call: the static one of the binding or one of the registry.\<close>

datatype pool_ref = StaticPool | CredPool pool_handle

record driver_call =
  dc_pool :: pool_ref
  dc_stmt :: prepared_stmt
  dc_args :: "bound_param list"
  dc_session :: "str omap"

record exec_env =
  xe_from_slice :: "str \<Rightarrow> str + json"
  xe_to_vec :: "json \<Rightarrow> str + str"
  xe_run :: cel_run
  xe_b64 :: "str \<Rightarrow> str"
  xe_codec :: cursor_codec
  xe_hash_hex :: "str \<Rightarrow> str"
  xe_number_text :: "number \<Rightarrow> str"
  xe_mtext :: "msg \<Rightarrow> str"
  xe_sqlx_text :: "sqlx_error \<Rightarrow> str"
  xe_url :: url_lib
  xe_cred :: "nat \<Rightarrow> cred_env"
  xe_pool_max :: nat
  xe_build_pool :: "str \<Rightarrow> pool_handle sql_result"
  xe_now_ms :: u64
  xe_version :: u64
  xe_cache_get :: "str \<Rightarrow> str + str option"
  xe_cache_put :: "str \<Rightarrow> str \<Rightarrow> bool"
  xe_execute :: "nat \<Rightarrow> driver_call \<Rightarrow> row_batch sql_result timed"
  xe_affected :: "nat \<Rightarrow> driver_call \<Rightarrow> u64 sql_result timed"
  xe_multi :: "driver_call \<Rightarrow> json list list sql_result timed"
  xe_await_now :: "nat \<Rightarrow> nat"
  xe_await_drained :: "nat \<Rightarrow> bool"

text \<open>\<open>BackendError::from\<close>.\<close>

definition xe_backend_error :: "exec_env \<Rightarrow> sql_error \<Rightarrow> backend_error" where
  "xe_backend_error xe = error_of (xe_mtext xe) (xe_sqlx_text xe) (xe_url xe)"

datatype exec_event =
    InFlight str
  | Finished str
  | CacheHit str
  | CacheMiss str
  | CacheWrite str str u64
  | Submitted driver_call
  | PrepareRetry
  | Billed cost_event

type_synonym 'a traced = "exec_event list \<times> 'a backend_result"

definition tbind :: "'a traced \<Rightarrow> ('a \<Rightarrow> 'b traced) \<Rightarrow> 'b traced" where
  "tbind m f =
     (case m of
        (evs, Inl e) \<Rightarrow> (evs, Inl e)
      | (evs, Inr x) \<Rightarrow> (case f x of (evs', r) \<Rightarrow> (evs @ evs', r)))"

definition quiet :: "'a backend_result \<Rightarrow> 'a traced" where
  "quiet r = ([], r)"

definition emit :: "exec_event list \<Rightarrow> unit traced" where
  "emit evs = (evs, Inr ())"

abbreviation lift_sql :: "exec_env \<Rightarrow> 'a sql_result \<Rightarrow> 'a traced" where
  "lift_sql xe r \<equiv> quiet (map_err (xe_backend_error xe) r)"

section \<open>Arguments\<close>

definition parse_payload :: "exec_env \<Rightarrow> request \<Rightarrow> json backend_result" where
  "parse_payload xe req =
     (if rq_payload req = [] then Inr JNull
      else map_err (\<lambda>e. BInvalidSpec (xe_mtext xe (Msg ''request payload is not valid JSON'' [e])))
             (xe_from_slice xe (rq_payload req)))"

definition inject_idempotency :: "(str \<times> str) option \<Rightarrow> json \<Rightarrow> json" where
  "inject_idempotency hint args =
     (case hint of
        None \<Rightarrow> args
      | Some (key, scope_hash) \<Rightarrow>
          (case (case args of JNull \<Rightarrow> JObj [] | other \<Rightarrow> other) of
             JObj obj \<Rightarrow>
               JObj (omap_insert ''idempotency_scope_hash'' (JStr scope_hash)
                       (omap_insert ''idempotency_key'' (JStr key) obj))
           | other \<Rightarrow> other))"

text \<open>From the payload to the argument map the placeholders are bound from.\<close>

definition prepare_args :: "exec_env \<Rightarrow> str \<Rightarrow> request \<Rightarrow> profile_runtime \<Rightarrow> json backend_result" where
  "prepare_args xe backend_name req rt =
     and_then (parse_payload xe req) (\<lambda>args.
     and_then (map_err (xe_backend_error xe)
        (evaluate_with_client (xe_run xe) (xe_b64 xe) args (rt_param_exprs rt) (rq_identity req) (rq_client req)))
        (\<lambda>args.
     and_then
       (case rt_stream rt of
          None \<Rightarrow> Inr args
        | Some stream_rt \<Rightarrow>
            map_err (xe_backend_error xe) (apply_stream_cursor (xe_codec xe) args stream_rt backend_name))
       (\<lambda>args. Inr (inject_idempotency (rq_idempotency req) args))))"

section \<open>Pools\<close>

definition resolve_pool_for_call ::
    "exec_env \<Rightarrow> profile_runtime \<Rightarrow> pools \<Rightarrow> pools \<times> pool_ref backend_result" where
  "resolve_pool_for_call xe rt ps =
     (if \<not> rt_has_cred_refs rt then (ps, Inr StaticPool)
      else
        (case resolve_creds_for (xe_cred xe 0) (rt_cfg rt) of
           Inl e \<Rightarrow> (ps, Inl e)
         | Inr rc \<Rightarrow>
             apsnd (\<lambda>r. map_err (xe_backend_error xe) (and_then r (\<lambda>p. Inr (CredPool p))))
               (get_or_build (xe_pool_max xe) (xe_now_ms xe) (rc_digest rc) (rc_cred_keys rc)
                  (xe_build_pool xe (rc_url rc)) ps)))"

definition call_session_vars :: "exec_env \<Rightarrow> profile_runtime \<Rightarrow> str omap backend_result" where
  "call_session_vars xe rt =
     (if rt_has_cred_refs rt
      then and_then (resolve_creds_for (xe_cred xe 1) (rt_cfg rt)) (\<lambda>rc. Inr (rc_session_vars rc))
      else Inr (rt_session_vars rt))"

section \<open>Execution\<close>

definition fail_refunded ::
    "exec_env \<Rightarrow> profile_runtime \<Rightarrow> str \<Rightarrow> json \<Rightarrow> backend_error \<Rightarrow> 'a traced" where
  "fail_refunded xe rt backend_name args be =
     (map Billed (try_emit_refund (xe_run xe) rt backend_name args (refund_reason_for be)), Inl be)"

definition timeout_error :: "profile_runtime \<Rightarrow> backend_error" where
  "timeout_error rt = BTimeout (rt_timeout_ms rt)"

text \<open>The two attempts of a statement; \<open>last_err\<close> is the error of the first.\<close>

fun attempt_loop ::
    "exec_env \<Rightarrow> profile_runtime \<Rightarrow> str \<Rightarrow> json \<Rightarrow> driver_call \<Rightarrow> (nat \<Rightarrow> 'a sql_result timed) \<Rightarrow> nat list \<Rightarrow>
     sql_error option \<Rightarrow> 'a traced" where
  "attempt_loop xe rt backend_name args c run [] last_err =
     fail_refunded xe rt backend_name args
       (case last_err of Some e \<Rightarrow> xe_backend_error xe e | None \<Rightarrow> BTransport [] ''retry failed without error'')"
| "attempt_loop xe rt backend_name args c run (attempt # attempts) last_err =
     tbind (emit [Submitted c]) (\<lambda>_.
       case run attempt of
         Answered (Inr b) \<Rightarrow> quiet (Inr b)
       | Answered (Inl e) \<Rightarrow>
           if attempt = 0 \<and> is_retryable_stale e
           then tbind (emit [PrepareRetry])
                  (\<lambda>_. attempt_loop xe rt backend_name args c run attempts (Some e))
           else fail_refunded xe rt backend_name args (xe_backend_error xe e)
       | Elapsed \<Rightarrow> fail_refunded xe rt backend_name args (timeout_error rt))"

definition affected_batch :: "u64 \<Rightarrow> row_batch" where
  "affected_batch n =
     \<lparr>rb_columns = [], rb_rows = [], rb_rows_affected = Some n, rb_truncated = False, rb_has_more = False\<rparr>"

definition fetch_batch ::
    "exec_env \<Rightarrow> profile_runtime \<Rightarrow> str \<Rightarrow> json \<Rightarrow> driver_call \<Rightarrow> row_batch traced" where
  "fetch_batch xe rt backend_name args c =
     (if rt_row_mode rt = AffectedRows
      then tbind (attempt_loop xe rt backend_name args c (\<lambda>i. xe_affected xe i c) [0, 1] None)
             (\<lambda>n. quiet (Inr (affected_batch n)))
      else attempt_loop xe rt backend_name args c (\<lambda>i. xe_execute xe i c) [0, 1] None)"

definition charge ::
    "exec_env \<Rightarrow> profile_runtime \<Rightarrow> str \<Rightarrow> json \<Rightarrow> nat \<Rightarrow> nat \<Rightarrow> unit traced" where
  "charge xe rt backend_name args rows bytes =
     apfst (map Billed)
       (try_emit_charge (xe_run xe) (xe_backend_error xe) rt backend_name args (of_nat rows) (of_nat bytes))"

definition to_bytes :: "exec_env \<Rightarrow> profile_runtime \<Rightarrow> str \<Rightarrow> json \<Rightarrow> json \<Rightarrow> str traced" where
  "to_bytes xe rt backend_name args payload =
     (case xe_to_vec xe payload of
        Inr bytes \<Rightarrow> quiet (Inr bytes)
      | Inl e \<Rightarrow> fail_refunded xe rt backend_name args (BTransport ''serialize response: '' e))"

definition run_result_sets ::
    "exec_env \<Rightarrow> profile_runtime \<Rightarrow> str \<Rightarrow> json \<Rightarrow> driver_call \<Rightarrow> response traced" where
  "run_result_sets xe rt backend_name args c =
     tbind (emit [Submitted c]) (\<lambda>_.
       case xe_multi xe c of
         Elapsed \<Rightarrow> fail_refunded xe rt backend_name args (timeout_error rt)
       | Answered (Inl e) \<Rightarrow> fail_refunded xe rt backend_name args (xe_backend_error xe e)
       | Answered (Inr sets) \<Rightarrow>
           (case shape_result_sets sets (rt_max_rows rt) of (payload, truncated, total_rows) \<Rightarrow>
              tbind (to_bytes xe rt backend_name args payload) (\<lambda>bytes.
              tbind (charge xe rt backend_name args total_rows (length bytes)) (\<lambda>_.
              quiet (Inr \<lparr>br_payload = bytes, br_truncated = truncated\<rparr>)))))"

definition with_next_cursor :: "exec_env \<Rightarrow> profile_runtime \<Rightarrow> str \<Rightarrow> json \<Rightarrow> json" where
  "with_next_cursor xe rt backend_name payload =
     (case rt_stream rt of
        Some stream_rt \<Rightarrow>
          if rt_row_mode rt = StreamMode then
            (case payload of
               JObj obj \<Rightarrow> JObj (omap_insert ''next_cursor'' (mint_next_cursor (xe_codec xe) payload stream_rt backend_name) obj)
             | other \<Rightarrow> other)
          else payload
      | None \<Rightarrow> payload)"

definition batch_row_count :: "profile_runtime \<Rightarrow> row_batch \<Rightarrow> nat" where
  "batch_row_count rt batch =
     (if rt_row_mode rt = AffectedRows then (case rb_rows_affected batch of Some n \<Rightarrow> unat n | None \<Rightarrow> 0)
      else length (rb_rows batch))"

text \<open>A cache entry is the truncation flag as one byte, then the payload.\<close>

definition cache_entry :: "response \<Rightarrow> str" where
  "cache_entry r = (if br_truncated r then CHR 0x01 else CHR 0x00) # br_payload r"

definition entry_response :: "str \<Rightarrow> response option" where
  "entry_response bytes =
     (case bytes of [] \<Rightarrow> None | b # payload \<Rightarrow> Some \<lparr>br_payload = payload, br_truncated = (b \<noteq> CHR 0x00)\<rparr>)"

definition cache_write :: "exec_env \<Rightarrow> profile_runtime \<Rightarrow> str option \<Rightarrow> response \<Rightarrow> unit traced" where
  "cache_write xe rt key_opt r =
     (case (key_opt, rt_cache rt) of
        (Some key, Some cache) \<Rightarrow>
          if xe_cache_put xe key (cache_entry r)
          then emit [CacheWrite key (cache_entry r) (cache_ttl_seconds cache)] else emit []
      | _ \<Rightarrow> emit [])"

definition run_batch ::
    "exec_env \<Rightarrow> profile_runtime \<Rightarrow> str \<Rightarrow> json \<Rightarrow> driver_call \<Rightarrow> str option \<Rightarrow> response traced" where
  "run_batch xe rt backend_name args c key_opt =
     tbind (fetch_batch xe rt backend_name args c) (\<lambda>batch.
     tbind (quiet (shape_response (xe_mtext xe) batch (rt_row_mode rt) (rt_max_rows rt))) (\<lambda>(payload, truncated).
     tbind (to_bytes xe rt backend_name args (with_next_cursor xe rt backend_name payload)) (\<lambda>bytes.
     tbind (charge xe rt backend_name args (batch_row_count rt batch) (length bytes)) (\<lambda>_.
     let r = \<lparr>br_payload = bytes, br_truncated = truncated\<rparr>
     in tbind (cache_write xe rt key_opt r) (\<lambda>_. quiet (Inr r))))))"

text \<open>The lookup: an answer from the cache, or the key to write under (\<open>None\<close> for no write).\<close>

definition cache_lookup ::
    "exec_env \<Rightarrow> profile_runtime \<Rightarrow> str \<Rightarrow> bound_param list \<Rightarrow> str omap \<Rightarrow> (response + str option) traced" where
  "cache_lookup xe rt backend_name bound session =
     (case rt_cache rt of
        Some cache \<Rightarrow>
          if cache_enabled cache then
            (let key = build_cache_key (xe_hash_hex xe) (xe_number_text xe) backend_name (ps_sql (rt_stmt rt)) bound session
                         (if rt_tracking rt = None then 0 else xe_version xe)
             in case xe_cache_get xe key of
                  Inr (Some bytes) \<Rightarrow>
                    (case entry_response bytes of
                       Some r \<Rightarrow> ([CacheHit key], Inr (Inl r))
                     | None \<Rightarrow> quiet (Inr (Inr (Some key))))
                | Inr None \<Rightarrow> ([CacheMiss key], Inr (Inr (Some key)))
                | Inl _ \<Rightarrow> quiet (Inr (Inr None)))
          else quiet (Inr (Inr None))
      | None \<Rightarrow> quiet (Inr (Inr None)))"

definition execute_call ::
    "exec_env \<Rightarrow> str \<Rightarrow> request \<Rightarrow> profile_runtime \<Rightarrow> pool_ref \<Rightarrow> response traced" where
  "execute_call xe backend_name req rt pool =
     tbind (quiet (call_session_vars xe rt)) (\<lambda>session.
     tbind (quiet (prepare_args xe backend_name req rt)) (\<lambda>args.
     tbind (lift_sql xe (collect_bound_params args (ps_param_order (rt_stmt rt)))) (\<lambda>bound.
     tbind (cache_lookup xe rt backend_name bound session) (\<lambda>found.
       case found of
         Inl r \<Rightarrow> quiet (Inr r)
       | Inr key_opt \<Rightarrow>
           (let c = \<lparr>dc_pool = pool, dc_stmt = rt_stmt rt, dc_args = bound, dc_session = session\<rparr>
            in if rt_row_mode rt = ResultSets then run_result_sets xe rt backend_name args c
               else run_batch xe rt backend_name args c key_opt)))))"

section \<open>Fire and wait\<close>

definition evaluate_await_predicate :: "cel_run \<Rightarrow> str \<Rightarrow> json \<Rightarrow> json \<Rightarrow> bool" where
  "evaluate_await_predicate run program row arguments =
     (case run program [(''row'', cel_value_from_json row), (''arguments'', cel_value_from_json arguments)] of
        Inr (CBool b) \<Rightarrow> b
      | _ \<Rightarrow> False)"

definition after :: "exec_event list \<Rightarrow> 'a traced \<Rightarrow> 'a traced" where
  "after evs m = (evs @ fst m, snd m)"

text \<open>The answer to an awaited row: serialised, charged as one row (none for a null).\<close>

definition await_answer ::
    "exec_env \<Rightarrow> profile_runtime \<Rightarrow> str \<Rightarrow> json \<Rightarrow> json \<Rightarrow> response traced" where
  "await_answer xe rt backend_name args row =
     tbind (case xe_to_vec xe row of
              Inr bytes \<Rightarrow> quiet (Inr bytes)
            | Inl e \<Rightarrow> fail_refunded xe rt backend_name args (BTransport ''await check row serialization: '' e)) (\<lambda>bytes.
     tbind (charge xe rt backend_name args (if row = JNull then 0 else 1) (length bytes)) (\<lambda>_.
     quiet (Inr \<lparr>br_payload = bytes, br_truncated = False\<rparr>)))"

text \<open>
  One poll: how the wait ends, or \<open>None\<close> to sleep and poll again.  \<open>xe_await_now xe i\<close> is the time since
  the deadline was set, in milliseconds, after poll \<open>i\<close>, and \<open>xe_await_drained xe i\<close> whether the drain
  notification ends the sleep that follows.  The driver's answer \<open>0\<close> is the trigger's, \<open>Suc i\<close> that of
  poll \<open>i\<close>.
\<close>

definition await_poll ::
    "exec_env \<Rightarrow> profile_runtime \<Rightarrow> str \<Rightarrow> json \<Rightarrow> await_runtime \<Rightarrow> driver_call \<Rightarrow> nat \<Rightarrow> response traced option" where
  "await_poll xe rt backend_name args ar c i =
     (case xe_execute xe (Suc i) c of
        Elapsed \<Rightarrow> Some (fail_refunded xe rt backend_name args (timeout_error rt))
      | Answered (Inl e) \<Rightarrow> Some (fail_refunded xe rt backend_name args (xe_backend_error xe e))
      | Answered (Inr batch) \<Rightarrow>
          (let row = first_row (rb_rows batch);
               expired = fail_refunded xe rt backend_name args (BTimeout (await_timeout_ms (ar_cfg ar)))
           in if evaluate_await_predicate (xe_run xe) (await_predicate (ar_cfg ar)) row args
              then Some (await_answer xe rt backend_name args row)
              else if unat (await_timeout_ms (ar_cfg ar)) \<le> xe_await_now xe i then Some expired
              else if xe_await_drained xe i then Some expired
              else None))"

definition check_call :: "profile_runtime \<Rightarrow> await_runtime \<Rightarrow> bound_param list \<Rightarrow> driver_call" where
  "check_call rt ar check_args =
     \<lparr>dc_pool = StaticPool, dc_stmt = ar_check_stmt ar, dc_args = check_args, dc_session = rt_session_vars rt\<rparr>"

text \<open>The loop; \<open>None\<close> is a loop cut off by the fuel.\<close>

fun await_loop ::
    "nat \<Rightarrow> exec_env \<Rightarrow> profile_runtime \<Rightarrow> str \<Rightarrow> json \<Rightarrow> await_runtime \<Rightarrow> nat \<Rightarrow> response traced option" where
  "await_loop 0 xe rt backend_name args ar i = None"
| "await_loop (Suc fuel) xe rt backend_name args ar i =
     (case collect_bound_params args (ps_param_order (ar_check_stmt ar)) of
        Inl e \<Rightarrow> Some (quiet (Inl (xe_backend_error xe e)))
      | Inr check_args \<Rightarrow>
          map_option (after [Submitted (check_call rt ar check_args)])
            (case await_poll xe rt backend_name args ar (check_call rt ar check_args) i of
               Some m \<Rightarrow> Some m
             | None \<Rightarrow> await_loop fuel xe rt backend_name args ar (Suc i)))"

definition await_trigger_call ::
    "exec_env \<Rightarrow> profile_runtime \<Rightarrow> str \<Rightarrow> json \<Rightarrow> await_runtime \<Rightarrow> unit traced" where
  "await_trigger_call xe rt backend_name args ar =
     (case ar_trigger_stmt ar of
        None \<Rightarrow> emit []
      | Some trigger_stmt \<Rightarrow>
          tbind (lift_sql xe (collect_bound_params args (ps_param_order trigger_stmt))) (\<lambda>trig_args.
          let c = \<lparr>dc_pool = StaticPool, dc_stmt = trigger_stmt, dc_args = trig_args,
                   dc_session = rt_session_vars rt\<rparr>
          in tbind (emit [Submitted c]) (\<lambda>_.
               case xe_execute xe 0 c of
                 Answered (Inr _) \<Rightarrow> emit []
               | Answered (Inl e) \<Rightarrow> fail_refunded xe rt backend_name args (xe_backend_error xe e)
               | Elapsed \<Rightarrow> fail_refunded xe rt backend_name args (timeout_error rt))))"

text \<open>One poll per millisecond of the deadline and two more are enough fuel.\<close>

definition await_fuel :: "await_runtime \<Rightarrow> nat" where
  "await_fuel ar = unat (await_timeout_ms (ar_cfg ar)) + 2"

definition execute_await_loop ::
    "exec_env \<Rightarrow> str \<Rightarrow> request \<Rightarrow> profile_runtime \<Rightarrow> await_runtime \<Rightarrow> response traced option" where
  "execute_await_loop xe backend_name req rt ar =
     (let wrap = (\<lambda>m. after [InFlight (rq_id req)] (fst m @ [Finished (rq_id req)], snd m));
          args_r = and_then (parse_payload xe req) (\<lambda>args. map_err (xe_backend_error xe)
             (evaluate_with_client (xe_run xe) (xe_b64 xe) args (rt_param_exprs rt) (rq_identity req) (rq_client req)))
      in map_option wrap
           (case args_r of
              Inl e \<Rightarrow> Some (quiet (Inl e))
            | Inr args \<Rightarrow>
                (case await_trigger_call xe rt backend_name args ar of
                   (evs, Inl e) \<Rightarrow> Some (evs, Inl e)
                 | (evs, Inr _) \<Rightarrow>
                     map_option (after evs) (await_loop (await_fuel ar) xe rt backend_name args ar 0))))"

section \<open>The call\<close>

definition execute_inner_impl ::
    "exec_env \<Rightarrow> str \<Rightarrow> request \<Rightarrow> profile_runtime \<Rightarrow> pools \<Rightarrow> (pools \<times> response traced) option" where
  "execute_inner_impl xe backend_name req rt ps =
     (case rt_await rt of
        Some ar \<Rightarrow> map_option (Pair ps) (execute_await_loop xe backend_name req rt ar)
      | None \<Rightarrow>
          (case resolve_pool_for_call xe rt ps of
             (ps1, pool_r) \<Rightarrow>
               Some (ps1,
                 tbind (emit [InFlight (rq_id req)]) (\<lambda>_.
                   case tbind (quiet pool_r) (execute_call xe backend_name req rt) of
                     (evs, r) \<Rightarrow> (evs @ [Finished (rq_id req)], r)))))"

text \<open>
  The breaker around it: \<open>t0\<close> and \<open>t1\<close> are the instants of admission and of the outcome.  The result
  is the plugin with the binding's new breaker, the registry, the events and the answer.
\<close>

definition set_breaker :: "str \<Rightarrow> profile_runtime \<Rightarrow> breaker \<Rightarrow> plugin_state \<Rightarrow> plugin_state" where
  "set_breaker backend_name rt b plugin =
     plugin\<lparr>profiles := (profiles plugin)(backend_name \<mapsto> rt\<lparr>rt_breaker := Some b\<rparr>)\<rparr>"

type_synonym outcome = "plugin_state \<times> pools \<times> response traced"

definition execute_inner ::
    "exec_env \<Rightarrow> nat \<Rightarrow> nat \<Rightarrow> str \<Rightarrow> request \<Rightarrow> pools \<Rightarrow> plugin_state \<Rightarrow> outcome option" where
  "execute_inner xe t0 t1 backend_name req ps plugin =
     (case profiles plugin backend_name of
        None \<Rightarrow> Some (plugin, ps, quiet (Inl (BProfileNotFound backend_name)))
      | Some rt \<Rightarrow>
          (case rt_breaker rt of
             None \<Rightarrow> map_option (Pair plugin) (execute_inner_impl xe backend_name req rt ps)
           | Some b \<Rightarrow>
               (case try_admit t0 b of
                  (b1, Inl e) \<Rightarrow>
                    Some (set_breaker backend_name rt b1 plugin, ps, quiet (Inl (xe_backend_error xe e)))
                | (b1, Inr probe) \<Rightarrow>
                    map_option
                      (\<lambda>(ps1, m).
                         (set_breaker backend_name rt
                            (guard_record t1 probe (\<not> is_driver_failure (snd m)) b1) plugin, ps1, m))
                      (execute_inner_impl xe backend_name req rt ps))))"

definition draining_error :: backend_error where
  "draining_error = BTransport [] ''sql binding plugin is draining; refusing new requests''"

definition execute ::
    "exec_env \<Rightarrow> nat \<Rightarrow> nat \<Rightarrow> str \<Rightarrow> request \<Rightarrow> pools \<Rightarrow> plugin_state \<Rightarrow> outcome option" where
  "execute xe t0 t1 backend_name req ps plugin =
     (if draining plugin then Some (plugin, ps, quiet (Inl draining_error))
      else execute_inner xe t0 t1 backend_name req ps plugin)"

text \<open>A binding that runs one statement, and a world in which every call answers.\<close>

definition sample_rt :: profile_runtime where
  "sample_rt =
     \<lparr>rt_driver_kind = Postgres, rt_cfg = sample_cfg, rt_has_cred_refs = False,
      rt_stmt = \<lparr>ps_sql = ''SELECT 1'', ps_param_order = [], ps_driver = Postgres\<rparr>,
      rt_row_mode = Many, rt_max_rows = 10, rt_timeout_ms = 5000, rt_session_vars = [],
      rt_progress_heartbeat = None, rt_input_schema = None, rt_output_schema = None, rt_param_exprs = [],
      rt_breaker = None, rt_list = None, rt_await = None, rt_stream = None, rt_isolation_level = None,
      rt_cache = Some \<lparr>cache_enabled = True, cache_ttl_seconds = 60, cache_invalidate_on = None\<rparr>,
      rt_tracking = None, rt_cost = Some sample_backend_cost\<rparr>"

definition sample_codec :: cursor_codec where
  "sample_codec =
     \<lparr>b64_encode = (\<lambda>s. s), b64_decode = Some, hmac = (\<lambda>s k. k), payload_to_vec = (\<lambda>_. []),
      payload_from_slice = (\<lambda>_. None)\<rparr>"

definition sample_xe :: exec_env where
  "sample_xe =
     \<lparr>xe_from_slice = (\<lambda>s. if s = ''{}'' then Inr (JObj []) else Inl ''expected value''),
      xe_to_vec = (\<lambda>_. Inr ''[]''), xe_run = sample_run, xe_b64 = (\<lambda>s. s), xe_codec = sample_codec,
      xe_hash_hex = (\<lambda>s. s), xe_number_text = (\<lambda>_. []), xe_mtext = (\<lambda>_. []),
      xe_sqlx_text = (\<lambda>_. []), xe_url = sample_url_lib, xe_cred = (\<lambda>_. sample_cred_env), xe_pool_max = 4,
      xe_build_pool = (\<lambda>_. Inr 1), xe_now_ms = 0, xe_version = 0, xe_cache_get = (\<lambda>_. Inr None),
      xe_cache_put = (\<lambda>_ _. True), xe_execute = (\<lambda>_ _. Answered (Inr (batch_of [] []))),
      xe_affected = (\<lambda>_ _. Answered (Inr 1)), xe_multi = (\<lambda>_. Answered (Inr [])),
      xe_await_now = (\<lambda>i. i), xe_await_drained = (\<lambda>_. False)\<rparr>"

definition sample_request :: request where
  "sample_request =
     \<lparr>rq_id = ''r1'', rq_payload = ''{}'', rq_identity = None, rq_client = None, rq_idempotency = None\<rparr>"

definition sample_plugin :: "profile_runtime \<Rightarrow> plugin_state" where
  "sample_plugin rt = \<lparr>draining = False, profiles = [''orders'' \<mapsto> rt]\<rparr>"

section \<open>Events of a call\<close>

definition submissions :: "exec_event list \<Rightarrow> driver_call list" where
  "submissions evs = List.map_filter (\<lambda>e. case e of Submitted c \<Rightarrow> Some c | _ \<Rightarrow> None) evs"

definition billing :: "exec_event list \<Rightarrow> cost_event list" where
  "billing evs = List.map_filter (\<lambda>e. case e of Billed b \<Rightarrow> Some b | _ \<Rightarrow> None) evs"

lemma submissions_simps [simp]:
  "submissions [] = []"
  "submissions (Submitted c # evs) = c # submissions evs"
  "submissions (evs @ evs') = submissions evs @ submissions evs'"
  by (simp_all add: submissions_def map_filter_def)

lemma submissions_other [simp]:
  "submissions (InFlight i # evs) = submissions evs" "submissions (Finished i # evs) = submissions evs"
  "submissions (CacheHit k # evs) = submissions evs" "submissions (CacheMiss k # evs) = submissions evs"
  "submissions (CacheWrite k v t # evs) = submissions evs" "submissions (PrepareRetry # evs) = submissions evs"
  "submissions (Billed b # evs) = submissions evs" "submissions (map Billed bs) = []"
  by (simp_all add: submissions_def map_filter_def filter_empty_conv)

lemma billing_simps [simp]:
  "billing [] = []" "billing (Billed b # evs) = b # billing evs"
  "billing (evs @ evs') = billing evs @ billing evs'" "billing (map Billed bs) = bs"
  by (simp_all add: billing_def map_filter_def comp_def)

lemma billing_other [simp]:
  "billing (InFlight i # evs) = billing evs" "billing (Finished i # evs) = billing evs"
  "billing (CacheHit k # evs) = billing evs" "billing (CacheMiss k # evs) = billing evs"
  "billing (CacheWrite k v t # evs) = billing evs" "billing (PrepareRetry # evs) = billing evs"
  "billing (Submitted c # evs) = billing evs"
  by (simp_all add: billing_def map_filter_def)

lemma tbind_simps [simp]:
  "tbind (evs, Inl e) f = (evs, Inl e)"
  "tbind (evs, Inr x) f = (evs @ fst (f x), snd (f x))"
  by (simp_all add: tbind_def split: prod.splits)

lemma quiet_simps [simp]:
  "fst (quiet r) = []" "snd (quiet r) = r" "tbind (quiet (Inr x)) f = f x" "tbind (quiet (Inl e)) f = quiet (Inl e)"
  by (simp_all add: quiet_def)

lemma tbind_emit [simp]: "tbind (emit evs) f = after evs (f ())"
  by (simp add: emit_def after_def)

lemma after_simps [simp]: "fst (after evs m) = evs @ fst m" "snd (after evs m) = snd m"
  by (simp_all add: after_def)

declare attempt_loop.simps [simp del]

section \<open>Billing\<close>

definition is_charge :: "cost_event \<Rightarrow> bool" where
  "is_charge b = (case b of Charged _ _ _ _ \<Rightarrow> True | Refunded _ _ _ \<Rightarrow> False)"

text \<open>A finished call bills at most once: a charge when it answers, a refund when it fails.\<close>

definition billed_once :: "'a traced \<Rightarrow> bool" where
  "billed_once m \<longleftrightarrow>
     length (billing (fst m)) \<le> 1 \<and> (\<forall>b \<in> set (billing (fst m)). is_charge b = is_ok (snd m))"

text \<open>A stage before the charge: it bills only when it fails.\<close>

definition bills_on_failure :: "'a traced \<Rightarrow> bool" where
  "bills_on_failure m \<longleftrightarrow> billed_once m \<and> (is_ok (snd m) \<longrightarrow> billing (fst m) = [])"

named_theorems billing_rules

lemma tbind_billed:
  "bills_on_failure m \<Longrightarrow> (\<And>x. billed_once (f x)) \<Longrightarrow> billed_once (tbind m f)"
  by (cases m; cases "snd m") (auto simp: bills_on_failure_def billed_once_def)

lemma tbind_on_failure [billing_rules]:
  "bills_on_failure m \<Longrightarrow> (\<And>x. bills_on_failure (f x)) \<Longrightarrow> bills_on_failure (tbind m f)"
  by (cases m; cases "snd m") (auto simp: bills_on_failure_def billed_once_def)

lemma on_failure_billed: "bills_on_failure m \<Longrightarrow> billed_once m"
  by (simp add: bills_on_failure_def)

lemma quiet_on_failure [billing_rules]: "bills_on_failure (quiet r)"
  by (simp add: bills_on_failure_def billed_once_def)

lemma refunded_on_failure [billing_rules]: "bills_on_failure (fail_refunded xe rt b args be)"
  by (simp add: bills_on_failure_def billed_once_def fail_refunded_def try_emit_refund_def is_charge_def
      split: option.splits)

lemma emit_on_failure:
  "billing evs = [] \<Longrightarrow> bills_on_failure (emit evs)"
  by (simp add: bills_on_failure_def billed_once_def emit_def)

lemma after_billed: "billing evs = [] \<Longrightarrow> billed_once (after evs m) \<longleftrightarrow> billed_once m"
  by (simp add: billed_once_def)

lemma after_on_failure: "billing evs = [] \<Longrightarrow> bills_on_failure (after evs m) \<longleftrightarrow> bills_on_failure m"
  by (simp add: bills_on_failure_def billed_once_def)

lemma attempt_on_failure [billing_rules]: "bills_on_failure (attempt_loop xe rt b args c run attempts last_err)"
  by (induction attempts arbitrary: last_err)
     (auto simp: attempt_loop.simps after_on_failure intro!: billing_rules split: timed.splits sum.splits)

lemma fetch_on_failure [billing_rules]: "bills_on_failure (fetch_batch xe rt b args c)"
  by (auto simp: fetch_batch_def intro!: billing_rules)

lemma to_bytes_on_failure [billing_rules]: "bills_on_failure (to_bytes xe rt b args payload)"
  by (auto simp: to_bytes_def intro!: billing_rules split: sum.splits)

lemma charge_then_answer:
  "billing (fst (g ())) = [] \<Longrightarrow> is_ok (snd (g ())) \<Longrightarrow> billed_once (tbind (charge xe rt b args rows bytes) g)"
  by (auto simp: charge_def try_emit_charge_def billed_once_def is_charge_def is_ok_def split: option.splits sum.splits)

text \<open>The tail of every path that answers: serialise, charge, then nothing that bills or fails.\<close>

lemma serialise_charge_answer:
  "bills_on_failure m \<Longrightarrow> (\<And>bytes. billing (fst (g bytes)) = [] \<and> is_ok (snd (g bytes))) \<Longrightarrow>
   billed_once (tbind m (\<lambda>bytes. tbind (charge xe rt b args rows (length bytes)) (\<lambda>_. g bytes)))"
  by (intro tbind_billed charge_then_answer) auto

lemma result_sets_billed: "billed_once (run_result_sets xe rt b args c)"
proof -
  have "billed_once (tbind (to_bytes xe rt b args payload) (\<lambda>bytes.
          tbind (charge xe rt b args rows (length bytes)) (\<lambda>_. quiet (Inr \<lparr>br_payload = bytes, br_truncated = t\<rparr>))))"
    for payload rows t
    by (rule serialise_charge_answer) (simp_all add: to_bytes_on_failure)
  then show ?thesis
    by (simp add: run_result_sets_def after_billed on_failure_billed refunded_on_failure
             split: timed.splits sum.splits prod.splits)
qed

lemma cache_write_quiet: "billing (fst (cache_write xe rt key r)) = [] \<and> is_ok (snd (cache_write xe rt key r))"
  by (simp add: cache_write_def emit_def split: option.splits)

lemma cache_write_answer:
  "billing (fst (tbind (cache_write xe rt key r) (\<lambda>_. quiet (Inr r)))) = [] \<and>
   is_ok (snd (tbind (cache_write xe rt key r) (\<lambda>_. quiet (Inr r))))"
  using cache_write_quiet [of xe rt key r]
  by (cases "cache_write xe rt key r"; cases "snd (cache_write xe rt key r)") auto

lemma run_batch_billed: "billed_once (run_batch xe rt b args c key)"
  unfolding run_batch_def Let_def
  by (intro tbind_billed fetch_on_failure quiet_on_failure)
     (auto intro!: serialise_charge_answer to_bytes_on_failure simp: cache_write_answer)

lemma cache_lookup_on_failure: "bills_on_failure (cache_lookup xe rt b bound session)"
  by (simp add: cache_lookup_def bills_on_failure_def billed_once_def Let_def split: option.splits sum.splits)

lemma execute_call_billed: "billed_once (execute_call xe b req rt pool)"
  unfolding execute_call_def
  by (intro tbind_billed quiet_on_failure cache_lookup_on_failure)
     (auto simp: Let_def result_sets_billed run_batch_billed on_failure_billed quiet_on_failure split: sum.splits)

lemma await_answer_billed: "billed_once (await_answer xe rt b args row)"
  unfolding await_answer_def
  by (rule serialise_charge_answer) (simp_all add: quiet_on_failure refunded_on_failure split: sum.splits)

lemma await_poll_billed: "await_poll xe rt b args ar c i = Some m \<Longrightarrow> billed_once m"
  by (auto simp: await_poll_def Let_def await_answer_billed on_failure_billed refunded_on_failure
           simp del: split_paired_All split_paired_Ex split: timed.splits sum.splits if_splits)

lemma await_loop_billed: "await_loop fuel xe rt b args ar i = Some m \<Longrightarrow> billed_once m"
proof (induction fuel arbitrary: i m)
  case (Suc fuel)
  then show ?case
    using await_poll_billed [of xe rt b args ar]
    by (auto simp: after_billed on_failure_billed quiet_on_failure split: sum.splits option.splits)
qed simp

lemma trigger_on_failure: "bills_on_failure (await_trigger_call xe rt b args ar)"
  by (auto simp: await_trigger_call_def Let_def after_on_failure intro!: billing_rules emit_on_failure
           split: option.splits timed.splits sum.splits)

lemma bills_prefix: "bills_on_failure (evs, Inr x) \<Longrightarrow> billing evs = []"
  by (simp add: bills_on_failure_def)

lemma await_billed: "execute_await_loop xe b req rt ar = Some m \<Longrightarrow> billed_once m"
proof -
  assume m: "execute_await_loop xe b req rt ar = Some m"
  let ?wrap = "\<lambda>m. after [InFlight (rq_id req)] (fst m @ [Finished (rq_id req)], snd m)"
  have wrap: "billed_once (?wrap n) \<longleftrightarrow> billed_once n" for n :: "response traced"
    by (simp add: billed_once_def)
  have args: "billed_once n"
    if "(case await_trigger_call xe rt b args ar of
           (evs, Inl e) \<Rightarrow> Some (evs, Inl e)
         | (evs, Inr _) \<Rightarrow> map_option (after evs) (await_loop (await_fuel ar) xe rt b args ar 0)) = Some n" for args n
    using that trigger_on_failure [of xe rt b args ar] await_loop_billed [of "await_fuel ar" xe rt b args ar 0]
    by (auto simp: after_billed dest: bills_prefix on_failure_billed split: prod.splits sum.splits)
       (simp add: billed_once_def bills_on_failure_def)
  obtain n where n: "m = ?wrap n"
    and inner: "(case and_then (parse_payload xe req) (\<lambda>args. map_err (xe_backend_error xe)
             (evaluate_with_client (xe_run xe) (xe_b64 xe) args (rt_param_exprs rt) (rq_identity req) (rq_client req))) of
              Inl e \<Rightarrow> Some (quiet (Inl e))
            | Inr args \<Rightarrow>
                (case await_trigger_call xe rt b args ar of
                   (evs, Inl e) \<Rightarrow> Some (evs, Inl e)
                 | (evs, Inr _) \<Rightarrow>
                     map_option (after evs) (await_loop (await_fuel ar) xe rt b args ar 0))) = Some n"
    using m unfolding execute_await_loop_def Let_def map_option_eq_Some by blast
  have "billed_once n"
    using inner args on_failure_billed [OF quiet_on_failure] by (simp split: sum.splits) blast+
  then show ?thesis unfolding n wrap .
qed

lemma impl_billed: "execute_inner_impl xe b req rt ps = Some (ps1, m) \<Longrightarrow> billed_once m"
proof -
  assume m: "execute_inner_impl xe b req rt ps = Some (ps1, m)"
  show ?thesis
  proof (cases "rt_await rt")
    case None
    obtain pool_r where pool: "resolve_pool_for_call xe rt ps = (ps1, pool_r)"
      and eq: "m = after [InFlight (rq_id req)]
        (case tbind (quiet pool_r) (execute_call xe b req rt) of (evs, r) \<Rightarrow> (evs @ [Finished (rq_id req)], r))"
      using m None by (auto simp: execute_inner_impl_def split: prod.splits)
    obtain evs r where er: "tbind (quiet pool_r) (execute_call xe b req rt) = (evs, r)" by fastforce
    have "billed_once (evs, r)"
      unfolding er [symmetric] by (rule tbind_billed [OF quiet_on_failure execute_call_billed])
    then show ?thesis unfolding eq er by (simp add: billed_once_def)
  next
    case (Some ar)
    then show ?thesis using m await_billed by (auto simp: execute_inner_impl_def)
  qed
qed

lemma refused_billed: "billed_once (quiet r)"
  by (rule on_failure_billed [OF quiet_on_failure])

lemma inner_billed: "execute_inner xe t0 t1 b req ps plugin = Some (plugin1, ps1, m) \<Longrightarrow> billed_once m"
  using impl_billed [of xe b req _ ps ps1 m]
  by (auto simp: execute_inner_def refused_billed simp del: split_paired_All split_paired_Ex
           split: option.splits prod.splits sum.splits)

lemma execute_billed: "execute xe t0 t1 b req ps plugin = Some (plugin1, ps1, m) \<Longrightarrow> billed_once m"
  using inner_billed [of xe t0 t1 b req ps plugin plugin1 ps1 m]
  by (auto simp: execute_def refused_billed simp del: split_paired_All split_paired_Ex split: if_splits)

lemma sample_compute: "compute sample_run sample_backend_cost args rows bytes = Inr 0x3FE0000000000000"
  by (simp add: compute_def sample_backend_cost_def resolve_base_def sample_bits f64_is_finite_def f64_less_def
      f64_key_def f64_sign_def f64_mag_def)

lemmas sample_defs = sample_rt_def sample_xe_def sample_request_def sample_plugin_def

lemma sample_call:
  "\<exists>evs. execute sample_xe 0 0 ''orders'' sample_request [] (sample_plugin sample_rt)
       = Some (sample_plugin sample_rt, [], evs, Inr \<lparr>br_payload = ''[]'', br_truncated = False\<rparr>)"
  by (simp add: execute_def execute_inner_def execute_inner_impl_def execute_call_def resolve_pool_for_call_def
      call_session_vars_def prepare_args_def parse_payload_def evaluate_with_client_def inject_idempotency_def
      collect_bound_params_def cache_lookup_def run_batch_def fetch_batch_def attempt_loop.simps shape_response_def
      to_bytes_def with_next_cursor_def charge_def try_emit_charge_def sample_compute cache_write_def emit_def
      batch_of_def Let_def sample_defs)

text \<open>
  C6. A call bills at most once, whatever path it takes (cache hit, retry, result sets, fire-and-wait,
  timeout, error while shaping or serialising): it records a charge only when it answers and a refund
  only when it fails, never both.
\<close>

theorem call_billed_once:
  assumes "execute xe t0 t1 backend_name req ps plugin = Some (plugin1, ps1, evs, r)"
  shows "length (billing evs) \<le> 1 \<and> (\<forall>b \<in> set (billing evs). is_charge b = is_ok r)"
  using execute_billed [OF assms] by (simp add: billed_once_def)

lemma call_billed_once_witness:
  "\<exists>evs. execute sample_xe 0 0 ''orders'' sample_request [] (sample_plugin sample_rt)
       = Some (sample_plugin sample_rt, [], evs, Inr \<lparr>br_payload = ''[]'', br_truncated = False\<rparr>)
     \<and> length (billing evs) \<le> 1 \<and> (\<forall>b \<in> set (billing evs). is_charge b)"
proof -
  obtain evs where ex: "execute sample_xe 0 0 ''orders'' sample_request [] (sample_plugin sample_rt)
      = Some (sample_plugin sample_rt, [], evs, Inr \<lparr>br_payload = ''[]'', br_truncated = False\<rparr>)"
    using sample_call by blast
  then show ?thesis using call_billed_once [OF ex] by simp
qed

section \<open>Submissions\<close>

text \<open>The submissions of a stage: none, one, or two of one call, the second after a stale statement.\<close>

definition stale_first :: "exec_env \<Rightarrow> driver_call \<Rightarrow> bool" where
  "stale_first xe c \<longleftrightarrow>
     (\<exists>e. is_retryable_stale e \<and> (xe_execute xe 0 c = Answered (Inl e) \<or> xe_affected xe 0 c = Answered (Inl e)))"

definition submits_ok :: "exec_env \<Rightarrow> exec_event list \<Rightarrow> bool" where
  "submits_ok xe evs \<longleftrightarrow>
     submissions evs = [] \<or> (\<exists>c. submissions evs = [c]) \<or> (\<exists>c. submissions evs = [c, c] \<and> stale_first xe c)"

lemma no_submissions [simp]:
  "submissions (fst (fail_refunded xe rt b args be)) = []"
  "submissions (fst (charge xe rt b args rows bytes)) = []"
  "submissions (fst (to_bytes xe rt b args payload)) = []"
  "submissions (fst (cache_write xe rt key r)) = []"
  "submissions (fst (cache_lookup xe rt b bound session)) = []"
  by (simp_all add: fail_refunded_def charge_def to_bytes_def cache_write_def cache_lookup_def emit_def Let_def
      split: option.splits sum.splits)

lemma tbind_submissions:
  "submissions (fst (tbind m f)) =
     submissions (fst m) @ (case snd m of Inl _ \<Rightarrow> [] | Inr x \<Rightarrow> submissions (fst (f x)))"
  by (cases m; cases "snd m") auto

lemma attempt_submissions:
  "submissions (fst (attempt_loop xe rt b args c run [0, 1] None)) = [c] \<or>
   submissions (fst (attempt_loop xe rt b args c run [0, 1] None)) = [c, c]
     \<and> (\<exists>e. is_retryable_stale e \<and> run 0 = Answered (Inl e))"
  by (auto simp: attempt_loop.simps split: timed.splits sum.splits)

lemma fetch_submissions: "submits_ok xe (fst (fetch_batch xe rt b args c))"
  using attempt_submissions [of xe rt b args c "\<lambda>i. xe_affected xe i c"]
    attempt_submissions [of xe rt b args c "\<lambda>i. xe_execute xe i c"]
  by (auto simp: fetch_batch_def tbind_submissions submits_ok_def stale_first_def split: sum.splits)

lemma run_batch_submissions:
  "submissions (fst (run_batch xe rt b args c key)) = submissions (fst (fetch_batch xe rt b args c))"
  by (simp add: run_batch_def tbind_submissions Let_def split: sum.splits prod.splits)

lemma result_sets_submissions: "submissions (fst (run_result_sets xe rt b args c)) = [c]"
  by (simp add: run_result_sets_def tbind_submissions split: timed.splits sum.splits prod.splits)

lemma execute_call_submissions: "submits_ok xe (fst (execute_call xe b req rt pool))"
  using fetch_submissions
  by (auto simp: execute_call_def tbind_submissions Let_def result_sets_submissions run_batch_submissions submits_ok_def
           split: sum.splits)

lemma impl_submissions:
  assumes "execute_inner_impl xe b req rt ps = Some (ps1, evs, r)" and "rt_await rt = None"
  shows "submits_ok xe evs"
proof -
  obtain pool_r evs1 where t: "tbind (quiet pool_r) (execute_call xe b req rt) = (evs1, r)"
    and evs: "evs = InFlight (rq_id req) # evs1 @ [Finished (rq_id req)]"
    using assms by (auto simp: execute_inner_impl_def after_def split: prod.splits)
  have "submits_ok xe (fst (tbind (quiet pool_r) (execute_call xe b req rt)))"
    using execute_call_submissions [of xe b req rt]
    by (cases pool_r) (simp_all add: submits_ok_def tbind_submissions)
  then show ?thesis unfolding t by (simp add: submits_ok_def evs)
qed

text \<open>
  C22. Outside fire-and-wait, a call submits its statement to the driver at most twice, and the second
  submission is the same statement with the same arguments on the same pool, made only when the
  first failed with a stale prepared statement, never after a timeout or any other error: a write is
  not repeated for them.
\<close>

theorem call_submits_at_most_twice:
  assumes "execute xe t0 t1 backend_name req ps plugin = Some (plugin1, ps1, evs, r)"
    and "profiles plugin backend_name = Some rt" and "rt_await rt = None"
  shows "length (submissions evs) \<le> 2
           \<and> (\<forall>c c'. submissions evs = [c, c'] \<longrightarrow> c' = c \<and> stale_first xe c)"
proof -
  have "submissions evs = [] \<or> execute_inner_impl xe backend_name req rt ps = Some (ps1, evs, r)"
    using assms
    by (auto simp: execute_def execute_inner_def quiet_def split: if_splits option.splits prod.splits sum.splits)
  then have "submits_ok xe evs" using impl_submissions [OF _ assms(3)] unfolding submits_ok_def by blast
  then show ?thesis by (auto simp: submits_ok_def)
qed

definition stale_xe :: exec_env where
  "stale_xe = sample_xe\<lparr>xe_execute := (\<lambda>i _. Answered (if i = 0 then Inl (Execute (Database (Some ''26000'') [])) else Inr (batch_of [] [])))\<rparr>"

lemmas run_defs = execute_def execute_inner_def execute_inner_impl_def execute_call_def resolve_pool_for_call_def
  call_session_vars_def prepare_args_def parse_payload_def evaluate_with_client_def inject_idempotency_def
  collect_bound_params_def cache_lookup_def run_batch_def fetch_batch_def attempt_loop.simps shape_response_def
  to_bytes_def with_next_cursor_def charge_def try_emit_charge_def sample_compute cache_write_def emit_def
  batch_of_def Let_def

lemma call_submits_at_most_twice_witness:
  "\<exists>p1 ps1 evs r c. execute stale_xe 0 0 ''orders'' sample_request [] (sample_plugin sample_rt) = Some (p1, ps1, evs, r)
     \<and> submissions evs = [c, c] \<and> stale_first stale_xe c"
proof -
  obtain p1 ps1 evs r c where ex: "execute stale_xe 0 0 ''orders'' sample_request [] (sample_plugin sample_rt) = Some (p1, ps1, evs, r)"
    and two: "submissions evs = [c, c]"
    by (simp add: run_defs sample_defs stale_xe_def is_retryable_stale_def is_stale_statement_error_def database_code_def)
  have "stale_first stale_xe c"
    using call_submits_at_most_twice [OF ex, of sample_rt] two by (simp add: sample_plugin_def sample_rt_def)
  with ex two show ?thesis by blast
qed

section \<open>The cache\<close>

definition writes :: "exec_event list \<Rightarrow> (str \<times> str) list" where
  "writes evs = List.map_filter (\<lambda>e. case e of CacheWrite k v _ \<Rightarrow> Some (k, v) | _ \<Rightarrow> None) evs"

lemma writes_simps [simp]:
  "writes [] = []" "writes (evs @ evs') = writes evs @ writes evs'" "writes (CacheWrite k v t # evs) = (k, v) # writes evs"
  "writes (map Billed bs) = []" "writes (Submitted c # evs) = writes evs" "writes (PrepareRetry # evs) = writes evs"
  by (simp_all add: writes_def map_filter_def filter_empty_conv)

lemma write_in_writes: "CacheWrite k v t \<in> set evs \<Longrightarrow> (k, v) \<in> set (writes evs)"
  by (force simp: writes_def map_filter_def)

lemma no_writes [simp]:
  "writes (fst (fail_refunded xe rt b args be)) = []"
  "writes (fst (charge xe rt b args rows bytes)) = []"
  "writes (fst (to_bytes xe rt b args payload)) = []"
  "writes (fst (cache_lookup xe rt b bound session)) = []"
  by (simp_all add: fail_refunded_def charge_def to_bytes_def cache_lookup_def Let_def writes_def map_filter_def filter_empty_conv
      split: option.splits sum.splits)

lemma tbind_writes:
  "writes (fst (tbind m f)) = writes (fst m) @ (case snd m of Inl _ \<Rightarrow> [] | Inr x \<Rightarrow> writes (fst (f x)))"
  by (cases m; cases "snd m") auto

lemma attempt_writes [simp]: "writes (fst (attempt_loop xe rt b args c run attempts last_err)) = []"
  by (induction attempts arbitrary: last_err)
     (auto simp: attempt_loop.simps split: timed.splits sum.splits)

lemma fetch_writes [simp]: "writes (fst (fetch_batch xe rt b args c)) = []"
  by (simp add: fetch_batch_def tbind_writes split: sum.splits)

lemma result_sets_writes [simp]: "writes (fst (run_result_sets xe rt b args c)) = []"
  by (simp add: run_result_sets_def tbind_writes split: timed.splits sum.splits prod.splits)

lemma tbind_Inr: "snd (tbind m f) = Inr y \<longleftrightarrow> (\<exists>x. snd m = Inr x \<and> snd (f x) = Inr y)"
  by (cases m; cases "snd m") auto

text \<open>A stage that writes at most its own answer, under the key it was given.\<close>

definition stores_answer :: "str option \<Rightarrow> response traced \<Rightarrow> bool" where
  "stores_answer key_opt m \<longleftrightarrow>
     (\<forall>r k v. snd m = Inr r \<longrightarrow> (k, v) \<in> set (writes (fst m)) \<longrightarrow> key_opt = Some k \<and> v = cache_entry r)"

lemma tbind_stores:
  "writes (fst m) = [] \<Longrightarrow> (\<And>x. stores_answer key_opt (f x)) \<Longrightarrow> stores_answer key_opt (tbind m f)"
  unfolding stores_answer_def by (cases "snd m") (simp_all add: tbind_Inr tbind_writes)

lemma write_stores: "stores_answer key_opt (tbind (cache_write xe rt key_opt r) (\<lambda>_. quiet (Inr r)))"
  by (simp add: stores_answer_def cache_write_def emit_def after_def split: option.splits)

lemma run_batch_stores: "stores_answer key_opt (run_batch xe rt b args c key_opt)"
  unfolding run_batch_def Let_def case_prod_beta
  by (intro tbind_stores write_stores) simp_all

lemma run_batch_writes:
  assumes "snd (run_batch xe rt b args c key_opt) = Inr r" and "(k, v) \<in> set (writes (fst (run_batch xe rt b args c key_opt)))"
  shows "key_opt = Some k \<and> v = cache_entry r"
  using assms run_batch_stores unfolding stores_answer_def by blast

lemma entry_roundtrip [simp]: "entry_response (cache_entry r) = Some r"
  by (simp add: entry_response_def cache_entry_def)

lemma cache_get_irrelevant:
  "call_session_vars (xe\<lparr>xe_cache_get := g\<rparr>) rt = call_session_vars xe rt"
  "prepare_args (xe\<lparr>xe_cache_get := g\<rparr>) b req rt = prepare_args xe b req rt"
  by (simp_all add: call_session_vars_def prepare_args_def parse_payload_def xe_backend_error_def cong: if_cong option.case_cong)

text \<open>
  C26. What a call stores in the response cache is what a repetition of it is answered from: if the host
  returns the stored entry for that key, the same request gets the same payload and the same
  truncation flag, with no statement submitted and nothing billed.
\<close>

theorem cached_answer_replayed:
  assumes "execute_call xe backend_name req rt pool = (evs, Inr r)" and "CacheWrite key entry ttl \<in> set evs"
    and "xe2 = xe\<lparr>xe_cache_get := (\<lambda>k. if k = key then Inr (Some entry) else xe_cache_get xe k)\<rparr>"
  shows "execute_call xe2 backend_name req rt pool2 = ([CacheHit key], Inr r)"
proof -
  have ok: "snd (execute_call xe backend_name req rt pool) = Inr r"
    and w: "(key, entry) \<in> set (writes (fst (execute_call xe backend_name req rt pool)))"
    using assms(1,2) write_in_writes by auto
  then obtain session args bound found where s: "call_session_vars xe rt = Inr session"
    and a: "prepare_args xe backend_name req rt = Inr args"
    and b: "collect_bound_params args (ps_param_order (rt_stmt rt)) = Inr bound"
    and l: "snd (cache_lookup xe rt backend_name bound session) = Inr found"
    by (auto simp: execute_call_def tbind_Inr)
  let ?c = "\<lparr>dc_pool = pool, dc_stmt = rt_stmt rt, dc_args = bound, dc_session = session\<rparr>"
  obtain key_opt where f: "found = Inr key_opt" and batch: "snd (run_batch xe rt backend_name args ?c key_opt) = Inr r"
    and wb: "(key, entry) \<in> set (writes (fst (run_batch xe rt backend_name args ?c key_opt)))"
    using ok w s a b l by (cases found) (auto simp: execute_call_def tbind_Inr tbind_writes Let_def split: if_splits)
  have k: "key_opt = Some key" "entry = cache_entry r"
    using run_batch_writes [OF batch wb] by simp_all
  have same: "call_session_vars xe2 rt = Inr session" "prepare_args xe2 backend_name req rt = Inr args"
    using s a by (simp_all add: assms(3) cache_get_irrelevant)
  have "cache_lookup xe2 rt backend_name bound session = ([CacheHit key], Inr (Inl r))"
    using l k f by (auto simp: cache_lookup_def Let_def assms(3) split: option.splits sum.splits if_splits)
  then show ?thesis by (simp add: execute_call_def same b)
qed

lemma cached_answer_replayed_witness:
  "\<exists>key entry. execute_call
      (sample_xe\<lparr>xe_cache_get := (\<lambda>k. if k = key then Inr (Some entry) else xe_cache_get sample_xe k)\<rparr>)
      ''orders'' sample_request sample_rt StaticPool
    = ([CacheHit key], Inr \<lparr>br_payload = ''[]'', br_truncated = False\<rparr>)"
proof -
  obtain evs key entry where ex: "execute_call sample_xe ''orders'' sample_request sample_rt StaticPool
      = (evs, Inr \<lparr>br_payload = ''[]'', br_truncated = False\<rparr>)" and w: "CacheWrite key entry 60 \<in> set evs"
    by (simp add: run_defs sample_defs)
  show ?thesis using cached_answer_replayed [OF ex w refl] by blast
qed

section \<open>The breaker around a call\<close>

text \<open>
  While the breaker of a binding is open and its cooldown has not passed, a call is refused before
  anything happens: no statement reaches the driver, nothing is billed, no pool is opened, and the
  breaker is left as it was.
\<close>

theorem open_breaker_refuses:
  assumes "draining plugin = False" and "profiles plugin backend_name = Some rt" and "rt_breaker rt = Some b"
    and "state_of b = Open" and "\<not> cooldown_elapsed t0 b"
  shows "\<exists>plugin1. execute xe t0 t1 backend_name req ps plugin =
           Some (plugin1, ps, [], Inl (xe_backend_error xe (Driver PoolClosed))) \<and> profiles plugin1 = profiles plugin"
  using assms by (auto simp: execute_def execute_inner_def try_admit_def quiet_def set_breaker_def fast_fail_error_def)

definition open_breaker :: breaker where
  "open_breaker = (breaker_new default_breaker_config)\<lparr>cb_state := circuit_store Open, opened_at := Some 0\<rparr>"

lemma open_breaker_refuses_witness:
  "\<exists>plugin1. execute sample_xe 5 6 ''orders'' sample_request [] (sample_plugin (sample_rt\<lparr>rt_breaker := Some open_breaker\<rparr>)) =
     Some (plugin1, [], [], Inl (xe_backend_error sample_xe (Driver PoolClosed)))"
  using open_breaker_refuses [of "sample_plugin (sample_rt\<lparr>rt_breaker := Some open_breaker\<rparr>)" "''orders''"
      "sample_rt\<lparr>rt_breaker := Some open_breaker\<rparr>" open_breaker 5 sample_xe 6 sample_request "[]"]
  by (auto simp: sample_plugin_def open_breaker_def breaker_new_def circuit_load_def circuit_store_def cooldown_elapsed_def
      default_breaker_config_def sample_xe_def)

lemma invalid_payload_answer:
  assumes "rt_await rt = None" and "rt_has_cred_refs rt = False"
    and "rq_payload req \<noteq> []" and "xe_from_slice xe (rq_payload req) = Inl e"
  shows "\<exists>message. execute_inner_impl xe backend_name req rt ps =
           Some (ps, [InFlight (rq_id req), Finished (rq_id req)], Inl (BInvalidSpec message))"
  using assms
  by (simp add: execute_inner_impl_def resolve_pool_for_call_def execute_call_def call_session_vars_def
      prepare_args_def parse_payload_def quiet_def after_def)

text \<open>
  A call that fails for the caller's or the operator's fault is not ignored by the breaker but
  counted as a success: once the cooldown has passed, one request whose payload is not JSON closes
  an open breaker and clears its failure count, although no statement was sent to the database.
\<close>

theorem invalid_request_closes_breaker:
  assumes "draining plugin = False" and "profiles plugin backend_name = Some rt" and "rt_breaker rt = Some b"
    and "state_of b = Open" and "cooldown_elapsed t0 b"
    and "rt_await rt = None" and "rt_has_cred_refs rt = False"
    and "rq_payload req \<noteq> []" and "xe_from_slice xe (rq_payload req) = Inl e"
  shows "\<exists>plugin1 evs message rt1 b1. execute xe t0 t1 backend_name req ps plugin = Some (plugin1, ps, evs, Inl (BInvalidSpec message))
           \<and> submissions evs = [] \<and> profiles plugin1 backend_name = Some rt1 \<and> rt_breaker rt1 = Some b1
           \<and> state_of b1 = Closed \<and> consecutive_failures b1 = 0"
proof -
  obtain message where impl: "execute_inner_impl xe backend_name req rt ps =
      Some (ps, [InFlight (rq_id req), Finished (rq_id req)], Inl (BInvalidSpec message))"
    using assms invalid_payload_answer by blast
  have "try_admit t0 b = (b\<lparr>cb_state := circuit_store HalfOpen, probe_in_flight := True\<rparr>, Inr True)"
    using assms by (simp add: try_admit_def)
  then have "execute xe t0 t1 backend_name req ps plugin =
      Some (set_breaker backend_name rt
              (record_success True (b\<lparr>cb_state := circuit_store HalfOpen, probe_in_flight := True\<rparr>)) plugin,
            ps, [InFlight (rq_id req), Finished (rq_id req)], Inl (BInvalidSpec message))"
    using assms by (simp add: execute_def execute_inner_def impl guard_record_def is_driver_failure_def)
  then show ?thesis
    by (simp add: set_breaker_def record_success_def Let_def circuit_load_def circuit_store_def)
qed

lemma invalid_request_closes_breaker_witness:
  "\<exists>plugin1 evs message rt1 b1. execute sample_xe 30000000000 30000000001 ''orders''
         (sample_request\<lparr>rq_payload := ''x''\<rparr>) [] (sample_plugin (sample_rt\<lparr>rt_breaker := Some open_breaker\<rparr>))
       = Some (plugin1, [], evs, Inl (BInvalidSpec message))
     \<and> profiles plugin1 ''orders'' = Some rt1 \<and> rt_breaker rt1 = Some b1 \<and> state_of b1 = Closed"
proof -
  let ?rt = "sample_rt\<lparr>rt_breaker := Some open_breaker\<rparr>"
  have "\<exists>plugin1 evs message rt1 b1. execute sample_xe 30000000000 30000000001 ''orders''
         (sample_request\<lparr>rq_payload := ''x''\<rparr>) [] (sample_plugin ?rt) = Some (plugin1, [], evs, Inl (BInvalidSpec message))
     \<and> submissions evs = [] \<and> profiles plugin1 ''orders'' = Some rt1 \<and> rt_breaker rt1 = Some b1
     \<and> state_of b1 = Closed \<and> consecutive_failures b1 = 0"
    by (rule invalid_request_closes_breaker [where rt = ?rt and b = open_breaker and e = "''expected value''"])
       (simp_all add: sample_plugin_def sample_rt_def open_breaker_def breaker_new_def circuit_load_def circuit_store_def
         cooldown_elapsed_def default_breaker_config_def sample_xe_def)
  then show ?thesis by blast
qed

section \<open>Server-controlled parameters\<close>

lemma collect_from_value:
  "collect_from obj names = Inr bound \<Longrightarrow> p \<in> set bound \<Longrightarrow> omap_get obj (bp_name p) = Some (bp_value p)"
  by (induction obj names arbitrary: bound rule: collect_from.induct) (auto split: option.splits)

lemma collect_bound_value:
  "collect_bound_params args names = Inr bound \<Longrightarrow> p \<in> set bound \<Longrightarrow> json_get args (bp_name p) = Some (bp_value p)"
  by (auto simp: collect_bound_params_def collect_from_value split: json.splits list.splits)

lemma fetch_submits: "set (submissions (fst (fetch_batch xe rt b args c))) \<subseteq> {c}"
  using attempt_submissions [of xe rt b args c "\<lambda>i. xe_affected xe i c"]
    attempt_submissions [of xe rt b args c "\<lambda>i. xe_execute xe i c"]
  by (auto simp: fetch_batch_def tbind_submissions split: sum.splits)

text \<open>A call outside of fire-and-wait: what it submits is the statement of the profile with what was bound.\<close>

lemma execute_call_sends:
  assumes "c \<in> set (submissions (fst (execute_call xe b req rt pool)))"
  shows "\<exists>args. prepare_args xe b req rt = Inr args \<and> collect_bound_params args (ps_param_order (rt_stmt rt)) = Inr (dc_args c)
    \<and> dc_stmt c = rt_stmt rt \<and> call_session_vars xe rt = Inr (dc_session c)"
proof -
  obtain session where s: "call_session_vars xe rt = Inr session"
    using assms by (cases "call_session_vars xe rt") (auto simp: execute_call_def)
  obtain args where args: "prepare_args xe b req rt = Inr args"
    using assms s by (cases "prepare_args xe b req rt") (auto simp: execute_call_def)
  obtain bound where b: "collect_bound_params args (ps_param_order (rt_stmt rt)) = Inr bound"
    using assms s args
    by (cases "collect_bound_params args (ps_param_order (rt_stmt rt))") (auto simp: execute_call_def)
  obtain key_opt where k: "snd (cache_lookup xe rt b bound session) = Inr (Inr key_opt)"
    using assms s args b
    by (cases "snd (cache_lookup xe rt b bound session)" rule: sum.exhaust [case_names Error Found])
       (auto simp: execute_call_def tbind_submissions split: sum.split_asm)
  let ?c = "\<lparr>dc_pool = pool, dc_stmt = rt_stmt rt, dc_args = bound, dc_session = session\<rparr>"
  have "c \<in> {?c}"
    using assms s args b k subsetD [OF fetch_submits, of c xe rt]
    by (simp add: execute_call_def tbind_submissions result_sets_submissions run_batch_submissions Let_def
        split: if_split_asm)
  then show ?thesis using args b s by simp
qed

lemma impl_sends:
  assumes "execute_inner_impl xe b req rt ps = Some (ps1, m)" and "rt_await rt = None" and "c \<in> set (submissions (fst m))"
  shows "\<exists>pool. c \<in> set (submissions (fst (execute_call xe b req rt pool)))"
  using assms
  by (auto simp: execute_inner_impl_def after_def tbind_submissions split: prod.splits sum.splits
      dest!: arg_cong [of _ "(_, _)" fst]) blast

lemma execute_runs_impl:
  assumes "execute xe t0 t1 b req ps plugin = Some (plugin1, ps1, evs, r)" and "submissions evs \<noteq> []"
  shows "\<exists>rt. profiles plugin b = Some rt \<and> execute_inner_impl xe b req rt ps = Some (ps1, evs, r)"
  using assms
  by (auto simp: execute_def execute_inner_def quiet_def split: if_splits option.splits prod.splits sum.splits)

lemma hint_wins:
  assumes "prepare_args xe b req rt = Inr args" and "rq_idempotency req = Some (key, scope_hash)" and "json_get args name = Some v"
  shows "(name = ''idempotency_key'' \<longrightarrow> v = JStr key) \<and> (name = ''idempotency_scope_hash'' \<longrightarrow> v = JStr scope_hash)"
proof -
  obtain args0 where "args = inject_idempotency (Some (key, scope_hash)) args0"
    using assms(1,2) by (auto simp: prepare_args_def)
  then show ?thesis
    using assms(3)
    by (auto simp: inject_idempotency_def json_get_def simp del: omap_insert.simps split: json.splits if_splits)
qed

text \<open>
  C38. The idempotency key a call binds is the gateway's, for a binding that does not wait: when the
  request carries a hint, every statement the call hands to a driver binds the hint's values to the
  parameters \<open>idempotency_key\<close> and \<open>idempotency_scope_hash\<close>, whatever the caller sent under these names,
  whatever the computed parameters and the cursor of a stream are, and whatever the database and the
  host answer.  A binding with an \<open>await\<close> block is outside of it (\<open>await_binds_callers_key\<close> below).
\<close>

theorem idempotency_not_spoofable:
  assumes "execute xe t0 t1 backend_name req ps plugin = Some (plugin1, ps1, evs, r)"
    and "profiles plugin backend_name = Some rt" and "rt_await rt = None"
    and "rq_idempotency req = Some (key, scope_hash)"
    and "c \<in> set (submissions evs)" and "p \<in> set (dc_args c)"
  shows "(bp_name p = ''idempotency_key'' \<longrightarrow> bp_value p = JStr key)
           \<and> (bp_name p = ''idempotency_scope_hash'' \<longrightarrow> bp_value p = JStr scope_hash)"
proof -
  have "submissions evs \<noteq> []" using assms(5) by auto
  with execute_runs_impl [OF assms(1)] assms(2)
  have "execute_inner_impl xe backend_name req rt ps = Some (ps1, evs, r)" by auto
  then obtain args where args: "prepare_args xe backend_name req rt = Inr args"
    "collect_bound_params args (ps_param_order (rt_stmt rt)) = Inr (dc_args c)"
    using impl_sends [of xe backend_name req rt ps ps1 "(evs, r)" c] execute_call_sends [of c xe backend_name req rt] assms(3,5)
    by (auto simp del: split_paired_All split_paired_Ex)
  show ?thesis by (rule hint_wins [OF args(1) assms(4) collect_bound_value [OF args(2) assms(6)]])
qed

definition keyed_stmt :: prepared_stmt where
  "keyed_stmt = \<lparr>ps_sql = ''INSERT INTO t VALUES ($1)'', ps_param_order = [''idempotency_key''], ps_driver = Postgres\<rparr>"

text \<open>A caller that sends a key of its own.\<close>

definition spoofed_xe :: exec_env where
  "spoofed_xe = sample_xe\<lparr>xe_from_slice := (\<lambda>_. Inr (JObj [(''idempotency_key'', JStr ''mine'')]))\<rparr>"

definition hinted_request :: request where
  "hinted_request = sample_request\<lparr>rq_idempotency := Some (''k'', ''h'')\<rparr>"

lemma idempotency_not_spoofable_witness:
  "\<exists>p1 ps1 evs r c p. execute spoofed_xe 0 0 ''orders'' hinted_request [] (sample_plugin (sample_rt\<lparr>rt_stmt := keyed_stmt\<rparr>))
       = Some (p1, ps1, evs, r)
     \<and> submissions evs = [c] \<and> dc_args c = [p] \<and> bp_name p = ''idempotency_key'' \<and> bp_value p = JStr ''k''"
proof -
  let ?rt = "sample_rt\<lparr>rt_stmt := keyed_stmt\<rparr>"
  obtain p1 ps1 evs r c p where ex: "execute spoofed_xe 0 0 ''orders'' hinted_request [] (sample_plugin ?rt) = Some (p1, ps1, evs, r)"
    and sent: "submissions evs = [c]" "dc_args c = [p]" "bp_name p = ''idempotency_key''"
    by (simp add: keyed_stmt_def hinted_request_def spoofed_xe_def run_defs sample_defs omap_get_def)
  have "bp_value p = JStr ''k''"
    using idempotency_not_spoofable [OF ex, of ?rt "''k''" "''h''" c p] sent
    by (simp add: sample_plugin_def sample_rt_def hinted_request_def)
  with ex sent show ?thesis by blast
qed

section \<open>A wait ends\<close>

lemma poll_submits_nothing: "await_poll xe rt b args ar c i = Some m \<Longrightarrow> submissions (fst m) = []"
  by (auto simp: await_poll_def await_answer_def Let_def tbind_submissions split: timed.splits sum.splits if_splits)

lemma trigger_submits_once: "length (submissions (fst (await_trigger_call xe rt b args ar))) \<le> 1"
  by (auto simp: await_trigger_call_def fail_refunded_def Let_def emit_def after_def tbind_def quiet_def
           split: option.splits timed.splits sum.splits)

lemma poll_expires:
  "unat (await_timeout_ms (ar_cfg ar)) \<le> xe_await_now xe i \<Longrightarrow> await_poll xe rt b args ar c i \<noteq> None"
  by (auto simp: await_poll_def Let_def split: timed.splits sum.splits)

text \<open>One turn of the loop: it ends within \<open>Suc n\<close> statements when its poll ends it or what follows does within \<open>n\<close>.\<close>

lemma await_loop_turn:
  assumes "\<And>c. await_poll xe rt b args ar c i = None \<Longrightarrow>
             \<exists>m. await_loop fuel xe rt b args ar (Suc i) = Some m \<and> length (submissions (fst m)) \<le> n"
  shows "\<exists>m. await_loop (Suc fuel) xe rt b args ar i = Some m \<and> length (submissions (fst m)) \<le> Suc n"
proof (cases "collect_bound_params args (ps_param_order (ar_check_stmt ar))")
  case (Inr check_args)
  let ?c = "check_call rt ar check_args"
  show ?thesis
  proof (cases "await_poll xe rt b args ar ?c i")
    case None
    with assms [OF None] Inr show ?thesis by (auto simp del: split_paired_Ex)
  next
    case (Some m)
    with Inr show ?thesis by (simp add: poll_submits_nothing [OF Some] del: split_paired_Ex)
  qed
qed (simp del: split_paired_Ex)

lemma await_loop_returns:
  assumes clock: "\<And>i. min (unat (await_timeout_ms (ar_cfg ar))) (xe_await_now xe i + p) \<le> xe_await_now xe (Suc i)"
    and "unat (await_timeout_ms (ar_cfg ar)) \<le> (i + n) * p" and "n < fuel"
    and "min (unat (await_timeout_ms (ar_cfg ar))) (i * p) \<le> xe_await_now xe i"
  shows "\<exists>m. await_loop fuel xe rt b args ar i = Some m \<and> length (submissions (fst m)) \<le> Suc n"
  using assms(2-)
proof (induction n arbitrary: i fuel)
  case (0 i fuel)
  then obtain fuel' where fuel: "fuel = Suc fuel'" by (cases fuel) auto
  have "await_poll xe rt b args ar c i \<noteq> None" for c
    using 0 by (intro poll_expires) simp
  then show ?case
    unfolding fuel by (intro await_loop_turn) blast
next
  case (Suc n i fuel)
  then obtain fuel' where fuel: "fuel = Suc fuel'" "n < fuel'" by (cases fuel) auto
  have "min (unat (await_timeout_ms (ar_cfg ar))) (Suc i * p) \<le> xe_await_now xe (Suc i)"
    using Suc.prems(3) clock [of i] by (simp add: min_le_iff_disj) linarith
  then show ?case
    unfolding fuel(1) using Suc.IH [of "Suc i" fuel'] Suc.prems(1) fuel(2)
    by (intro await_loop_turn) simp
qed

text \<open>
  C39. A fire-and-wait call returns: if between two polls the clock advances by the poll interval or
  reaches the deadline, the wait answers or fails, and it sends at most \<open>timeout div interval + 3\<close>
  statements to the database, the trigger included, whatever the database answers.
\<close>

theorem await_returns:
  assumes "await_poll_interval_ms (ar_cfg ar) \<noteq> 0"
    and "\<forall>i. min (unat (await_timeout_ms (ar_cfg ar))) (xe_await_now xe i + unat (await_poll_interval_ms (ar_cfg ar)))
               \<le> xe_await_now xe (Suc i)"
  shows "\<exists>evs r. execute_await_loop xe backend_name req rt ar = Some (evs, r)
           \<and> length (submissions evs) \<le>
               unat (await_timeout_ms (ar_cfg ar)) div unat (await_poll_interval_ms (ar_cfg ar)) + 3"
proof -
  let ?T = "unat (await_timeout_ms (ar_cfg ar))" and ?p = "unat (await_poll_interval_ms (ar_cfg ar))"
  have p: "0 < ?p" using assms(1) by (simp add: unat_gt_0)
  have "?T < Suc (?T div ?p) * ?p" using p by (simp add: dividend_less_div_times add.commute)
  moreover have "?T div ?p < Suc ?T" by (simp add: less_Suc_eq_le)
  ultimately have loop: "\<exists>m. await_loop (await_fuel ar) xe rt backend_name args ar 0 = Some m
      \<and> length (submissions (fst m)) \<le> Suc (Suc (?T div ?p))" for args
    using assms(2) by (intro await_loop_returns [where p = ?p]) (auto simp: await_fuel_def)
  show ?thesis
  proof (cases "and_then (parse_payload xe req) (\<lambda>args. map_err (xe_backend_error xe)
             (evaluate_with_client (xe_run xe) (xe_b64 xe) args (rt_param_exprs rt) (rq_identity req) (rq_client req)))")
    case (Inl e)
    then show ?thesis by (simp add: execute_await_loop_def quiet_def after_def)
  next
    case (Inr args)
    obtain m where m: "await_loop (await_fuel ar) xe rt backend_name args ar 0 = Some m"
      "length (submissions (fst m)) \<le> Suc (Suc (?T div ?p))"
      using loop by blast
    obtain evs r where t: "await_trigger_call xe rt backend_name args ar = (evs, r)" by fastforce
    then have "length (submissions evs) \<le> 1" using trigger_submits_once [of xe rt backend_name args ar] by simp
    then show ?thesis
      using m t by (cases r) (simp_all add: execute_await_loop_def Inr after_def Let_def del: and_then_simps)
  qed
qed

definition sample_await :: await_runtime where
  "sample_await =
     \<lparr>ar_cfg = \<lparr>await_trigger = None, await_check = \<lparr>step_sql = ''SELECT 1'', step_params = []\<rparr>, await_predicate = ''row.done'',
                await_poll_interval_ms = 100, await_timeout_ms = 1000\<rparr>,
      ar_trigger_stmt = None,
      ar_check_stmt = \<lparr>ps_sql = ''SELECT 1'', ps_param_order = [], ps_driver = Postgres\<rparr>\<rparr>"

lemma await_returns_witness:
  "\<exists>evs r. execute_await_loop (sample_xe\<lparr>xe_await_now := (\<lambda>i. 100 * i)\<rparr>) ''orders'' sample_request sample_rt sample_await = Some (evs, r)
     \<and> length (submissions evs) \<le> 13"
  using await_returns [of sample_await "sample_xe\<lparr>xe_await_now := (\<lambda>i. 100 * i)\<rparr>" "''orders''" sample_request sample_rt]
  by (simp add: sample_await_def min_le_iff_disj)

text \<open>
  A binding that waits does not inject the hint: the trigger binds the key the caller sent, whatever key
  the gateway gave.
\<close>

theorem await_binds_callers_key:
  assumes "execute xe t0 t1 backend_name req ps plugin = Some (plugin1, ps1, evs, r)"
    and "draining plugin = False" and "profiles plugin backend_name = Some rt" and "rt_breaker rt = None"
    and "rt_await rt = Some ar" and "ar_trigger_stmt ar = Some st" and "ps_param_order st = [''idempotency_key'']"
    and "rt_param_exprs rt = []" and "parse_payload xe req = Inr (JObj obj)"
    and "omap_get obj ''idempotency_key'' = Some v"
  shows "\<exists>c \<in> set (submissions evs). dc_stmt c = st \<and> dc_args c = [\<lparr>bp_name = ''idempotency_key'', bp_value = v\<rparr>]"
proof -
  let ?c = "\<lparr>dc_pool = StaticPool, dc_stmt = st, dc_args = [\<lparr>bp_name = ''idempotency_key'', bp_value = v\<rparr>],
             dc_session = rt_session_vars rt\<rparr>"
  have "execute_await_loop xe backend_name req rt ar = Some (evs, r)"
    using assms(1-5) by (auto simp: execute_def execute_inner_def execute_inner_impl_def)
  moreover have "?c \<in> set (submissions (fst (await_trigger_call xe rt backend_name (JObj obj) ar)))"
    using assms(6,7,10)
    by (simp add: await_trigger_call_def collect_bound_params_def Let_def)
  ultimately have "?c \<in> set (submissions evs)"
    using assms(8,9)
    by (auto simp: execute_await_loop_def evaluate_with_client_def Let_def after_def split: prod.splits sum.splits)
  then show ?thesis by (intro bexI [of _ ?c]) simp_all
qed

lemma await_binds_callers_key_witness:
  "\<exists>p1 ps1 evs r. execute (spoofed_xe\<lparr>xe_execute := (\<lambda>_ _. Elapsed)\<rparr>) 0 0 ''orders'' hinted_request []
         (sample_plugin (sample_rt\<lparr>rt_await := Some (sample_await\<lparr>ar_trigger_stmt := Some keyed_stmt\<rparr>)\<rparr>)) = Some (p1, ps1, evs, r)
     \<and> (\<exists>c \<in> set (submissions evs). dc_args c = [\<lparr>bp_name = ''idempotency_key'', bp_value = JStr ''mine''\<rparr>])"
proof -
  let ?ar = "sample_await\<lparr>ar_trigger_stmt := Some keyed_stmt\<rparr>" and ?xe = "spoofed_xe\<lparr>xe_execute := (\<lambda>_ _. Elapsed)\<rparr>"
  let ?rt = "sample_rt\<lparr>rt_await := Some ?ar\<rparr>"
  obtain p1 ps1 evs r where ex: "execute ?xe 0 0 ''orders'' hinted_request [] (sample_plugin ?rt) = Some (p1, ps1, evs, r)"
    by (simp add: execute_await_loop_def await_trigger_call_def fail_refunded_def after_def keyed_stmt_def hinted_request_def
        spoofed_xe_def run_defs sample_defs omap_get_def)
  have "\<exists>c \<in> set (submissions evs). dc_stmt c = keyed_stmt \<and> dc_args c = [\<lparr>bp_name = ''idempotency_key'', bp_value = JStr ''mine''\<rparr>]"
    by (rule await_binds_callers_key [OF ex, where rt = ?rt and ar = ?ar and obj = "[(''idempotency_key'', JStr ''mine'')]"])
       (simp_all add: sample_plugin_def sample_rt_def keyed_stmt_def parse_payload_def hinted_request_def sample_request_def
         spoofed_xe_def omap_get_def)
  with ex show ?thesis by blast
qed

end
