(* ===== verification/InFlight.thy ===== *)
theory InFlight
  imports Registration
begin

text \<open>
  \<open>src/in_flight.rs\<close>, \<open>cancel_request\<close> of \<open>src/lib.rs\<close>, \<open>cancel_backend\<close> of the three drivers and the cancel
  table of \<open>src/driver/sqlite.rs\<close>: the registry of running requests and how one of them is cancelled.
  The registry is an ordered map whose order nothing reads.  The cancel flags of SQLite queries are
  objects shared by the table, the query and the handler on its connection, so they live in a store
  and are referred to by their address.
\<close>

section \<open>The registry\<close>

datatype backend_id = PostgresId "32 word" | MysqlId u64 | SqliteId u64

text \<open>Instants are milliseconds.\<close>

record in_flight_entry =
  fe_backend_name :: str
  fe_driver :: driver_kind
  fe_started_at_wall :: nat
  fe_started_at_mono :: nat
  fe_backend_id :: "backend_id option"

type_synonym in_flight = "in_flight_entry omap"

definition set_backend_id :: "str \<Rightarrow> backend_id \<Rightarrow> in_flight \<Rightarrow> in_flight" where
  "set_backend_id request_id i reg =
     (case omap_get reg request_id of
        Some entry \<Rightarrow> omap_insert request_id (entry\<lparr>fe_backend_id := Some i\<rparr>) reg
      | None \<Rightarrow> reg)"

definition backend_id_for :: "str \<Rightarrow> in_flight \<Rightarrow> backend_id option" where
  "backend_id_for request_id reg = Option.bind (omap_get reg request_id) fe_backend_id"

record in_flight_snapshot =
  fs_request_id :: str
  fs_backend_name :: str
  fs_driver :: driver_kind
  fs_started_at_wall :: nat
  fs_age_ms :: u64
  fs_backend_id :: "backend_id option"

definition snapshot :: "nat \<Rightarrow> in_flight \<Rightarrow> in_flight_snapshot list" where
  "snapshot now_mono reg =
     map (\<lambda>(k, entry).
       \<lparr>fs_request_id = k, fs_backend_name = fe_backend_name entry, fs_driver = fe_driver entry,
        fs_started_at_wall = fe_started_at_wall entry, fs_age_ms = of_nat (now_mono - fe_started_at_mono entry),
        fs_backend_id = fe_backend_id entry\<rparr>) reg"

text \<open>A guard is the request id it was registered under; registering and dropping it change the registry.\<close>

definition guard_register :: "str \<Rightarrow> str \<Rightarrow> driver_kind \<Rightarrow> nat \<Rightarrow> nat \<Rightarrow> in_flight \<Rightarrow> in_flight" where
  "guard_register request_id backend_name driver wall started reg =
     omap_insert request_id
       \<lparr>fe_backend_name = backend_name, fe_driver = driver, fe_started_at_wall = wall,
        fe_started_at_mono = started, fe_backend_id = None\<rparr> reg"

definition in_flight_drop :: "str \<Rightarrow> in_flight \<Rightarrow> in_flight" where
  "in_flight_drop request_id reg = omap_remove request_id reg"

section \<open>Cancelling\<close>

text \<open>What a driver does to cancel: a statement to the server, or the flag of a query of its own table.\<close>

datatype cancel_action = PgCancel "32 word" | MysqlQuery str | SqliteFlag u64

definition pg_cancel_backend :: "backend_id \<Rightarrow> cancel_action sql_result" where
  "pg_cancel_backend i =
     (case i of PostgresId pid \<Rightarrow> Inr (PgCancel pid)
      | _ \<Rightarrow> Inl (invalid ''postgres cancel_backend: expected Postgres backend id'' []))"

definition mysql_cancel_backend :: "backend_id \<Rightarrow> cancel_action sql_result" where
  "mysql_cancel_backend i =
     (case i of MysqlId connection_id \<Rightarrow> Inr (MysqlQuery (''KILL QUERY '' @ show_nat (unat connection_id)))
      | _ \<Rightarrow> Inl (invalid ''mysql cancel_backend: expected MySQL backend id'' []))"

definition sqlite_cancel_backend :: "backend_id \<Rightarrow> cancel_action sql_result" where
  "sqlite_cancel_backend i =
     (case i of SqliteId nonce \<Rightarrow> Inr (SqliteFlag nonce)
      | _ \<Rightarrow> Inl (invalid ''sqlite cancel_backend: expected Sqlite backend id'' []))"

definition cancel_backend :: "driver_kind \<Rightarrow> backend_id \<Rightarrow> cancel_action sql_result" where
  "cancel_backend driver i =
     (case driver of
        Postgres \<Rightarrow> pg_cancel_backend i
      | Sqlite \<Rightarrow> sqlite_cancel_backend i
      | _ \<Rightarrow> mysql_cancel_backend i)"

text \<open>The action on the pool of the request's binding, named by the binding.\<close>

definition cancel_request :: "nat \<Rightarrow> str \<Rightarrow> in_flight \<Rightarrow> plugin_state \<Rightarrow> (str \<times> cancel_action) sql_result" where
  "cancel_request now request_id reg plugin =
     (case filter (\<lambda>e. fs_request_id e = request_id) (snapshot now reg) of
        [] \<Rightarrow> Inl (ProfileNotFound request_id)
      | entry # _ \<Rightarrow>
          (case fs_backend_id entry of
             None \<Rightarrow> Inl (invalid ''request has no backend_id yet; retry cancel'' [request_id])
           | Some i \<Rightarrow>
               (case profiles plugin (fs_backend_name entry) of
                  None \<Rightarrow> Inl (ProfileNotFound (fs_backend_name entry))
                | Some rt \<Rightarrow>
                    and_then (cancel_backend (rt_driver_kind rt) i) (\<lambda>a. Inr (fs_backend_name entry, a)))))"

section \<open>The cancel table of SQLite\<close>

record cancel =
  cancelled :: bool
  active :: bool

definition stops :: "cancel \<Rightarrow> bool" where
  "stops c \<longleftrightarrow> active c \<and> cancelled c"

text \<open>\<open>sd_handler\<close> is the progress handler on each connection: the flag it watches.\<close>

record sqlite_driver =
  sd_handles :: "u64 \<rightharpoonup> nat"
  sd_next_handle :: u64
  sd_flags :: "cancel list"
  sd_handler :: "nat \<rightharpoonup> nat"

definition sqlite_new :: sqlite_driver where
  "sqlite_new = \<lparr>sd_handles = Map.empty, sd_next_handle = 1, sd_flags = [], sd_handler = Map.empty\<rparr>"

record running =
  rn_request :: str
  rn_conn :: nat
  rn_nonce :: u64
  rn_flag :: nat

text \<open>\<open>start\<close>, with a connection whose handle could be locked.\<close>

definition sqlite_start :: "str \<Rightarrow> nat \<Rightarrow> sqlite_driver \<Rightarrow> sqlite_driver \<times> running" where
  "sqlite_start request_id conn sd =
     (let flag = length (sd_flags sd); nonce = sd_next_handle sd
      in (\<lparr>sd_handles = (sd_handles sd)(nonce \<mapsto> flag), sd_next_handle = nonce + 1,
           sd_flags = sd_flags sd @ [\<lparr>cancelled = False, active = True\<rparr>],
           sd_handler = (sd_handler sd)(conn \<mapsto> flag)\<rparr>,
          \<lparr>rn_request = request_id, rn_conn = conn, rn_nonce = nonce, rn_flag = flag\<rparr>))"

definition running_drop :: "running \<Rightarrow> sqlite_driver \<Rightarrow> sqlite_driver" where
  "running_drop q sd =
     sd\<lparr>sd_flags := (sd_flags sd)[rn_flag q := (sd_flags sd ! rn_flag q)\<lparr>active := False\<rparr>],
        sd_handles := (sd_handles sd)(rn_nonce q := None)\<rparr>"

text \<open>\<open>locked\<close> is whether the connection's handle could be locked once more.\<close>

definition sqlite_finish :: "bool \<Rightarrow> running \<Rightarrow> sqlite_driver \<Rightarrow> sqlite_driver" where
  "sqlite_finish locked q sd =
     (let sd = running_drop q sd
      in if locked then sd\<lparr>sd_handler := (sd_handler sd)(rn_conn q := None)\<rparr> else sd)"

definition sqlite_cancel :: "u64 \<Rightarrow> sqlite_driver \<Rightarrow> sqlite_driver" where
  "sqlite_cancel nonce sd =
     (case sd_handles sd nonce of
        Some flag \<Rightarrow> sd\<lparr>sd_flags := (sd_flags sd)[flag := (sd_flags sd ! flag)\<lparr>cancelled := True\<rparr>]\<rparr>
      | None \<Rightarrow> sd)"

text \<open>The action reaches the driver: only a SQLite flag changes a state of ours.\<close>

definition deliver :: "cancel_action \<Rightarrow> sqlite_driver \<Rightarrow> sqlite_driver" where
  "deliver a sd = (case a of SqliteFlag nonce \<Rightarrow> sqlite_cancel nonce sd | _ \<Rightarrow> sd)"

section \<open>Requests on a SQLite binding\<close>

text \<open>
  A system of requests on one SQLite driver: the registry, the driver, and the queries that run.
  A request registers (under an id no live request has), starts a query on a connection no running
  query holds, ends it (the handler may stay on the connection when the future was dropped or the
  handle could not be locked), starts another after a stale statement, and leaves the registry.
\<close>

record calls =
  cs_reg :: in_flight
  cs_sd :: sqlite_driver
  cs_running :: "running list"

definition calls_init :: "calls \<Rightarrow> bool" where
  "calls_init s \<longleftrightarrow> s = \<lparr>cs_reg = [], cs_sd = sqlite_new, cs_running = []\<rparr>"

inductive calls_step :: "plugin_state \<Rightarrow> calls \<Rightarrow> calls \<Rightarrow> bool" for plugin where
  register: "omap_get (cs_reg s) rid = None \<Longrightarrow>
     calls_step plugin s (s\<lparr>cs_reg := guard_register rid b d wall started (cs_reg s)\<rparr>)"
| start: "omap_get (cs_reg s) rid \<noteq> None \<Longrightarrow> rid \<notin> rn_request ` set (cs_running s) \<Longrightarrow>
     conn \<notin> rn_conn ` set (cs_running s) \<Longrightarrow> sqlite_start rid conn (cs_sd s) = (sd, q) \<Longrightarrow>
     calls_step plugin s
       \<lparr>cs_reg = set_backend_id rid (SqliteId (rn_nonce q)) (cs_reg s), cs_sd = sd, cs_running = q # cs_running s\<rparr>"
| finish: "cs_running s = qs1 @ q # qs2 \<Longrightarrow>
     calls_step plugin s (s\<lparr>cs_sd := sqlite_finish locked q (cs_sd s), cs_running := qs1 @ qs2\<rparr>)"
| leave: "rid \<notin> rn_request ` set (cs_running s) \<Longrightarrow>
     calls_step plugin s (s\<lparr>cs_reg := in_flight_drop rid (cs_reg s)\<rparr>)"
| cancelled: "cancel_request now rid (cs_reg s) plugin = Inr (b, a) \<Longrightarrow>
     calls_step plugin s (s\<lparr>cs_sd := deliver a (cs_sd s)\<rparr>)"

inductive_cases calls_stepE: "calls_step plugin s t"

lemmas cancel_backend_defs = cancel_backend_def pg_cancel_backend_def mysql_cancel_backend_def sqlite_cancel_backend_def

section \<open>Laws of the registry\<close>

lemma backend_id_register [simp]:
  "backend_id_for r (guard_register rid b d wall started reg) = (if r = rid then None else backend_id_for r reg)"
  by (simp add: backend_id_for_def guard_register_def)

lemma backend_id_drop [simp]:
  "backend_id_for r (in_flight_drop rid reg) = (if r = rid then None else backend_id_for r reg)"
  by (simp add: backend_id_for_def in_flight_drop_def)

lemma backend_id_set:
  "omap_get reg rid \<noteq> None \<Longrightarrow> backend_id_for r (set_backend_id rid i reg) = (if r = rid then Some i else backend_id_for r reg)"
  by (auto simp: backend_id_for_def set_backend_id_def split: option.splits)

lemma snapshot_lookup:
  "filter (\<lambda>e. fs_request_id e = rid) (snapshot now reg) = e # es \<Longrightarrow>
   \<exists>entry. omap_get reg rid = Some entry \<and> fs_backend_id e = fe_backend_id entry \<and> fs_backend_name e = fe_backend_name entry"
  by (induction reg) (auto simp: snapshot_def omap_get_def split: if_splits)

lemma cancel_request_flag:
  "cancel_request now rid reg plugin = Inr (b, SqliteFlag n) \<Longrightarrow> backend_id_for rid reg = Some (SqliteId n)"
  by (auto simp: cancel_request_def cancel_backend_defs backend_id_for_def dest!: snapshot_lookup
           split: list.splits option.splits driver_kind.splits backend_id.splits)

section \<open>The invariant\<close>

definition query_ok :: "calls \<Rightarrow> running \<Rightarrow> bool" where
  "query_ok s q \<longleftrightarrow>
     rn_flag q < length (sd_flags (cs_sd s)) \<and> rn_nonce q = of_nat (Suc (rn_flag q))
     \<and> backend_id_for (rn_request q) (cs_reg s) = Some (SqliteId (rn_nonce q))
     \<and> sd_handler (cs_sd s) (rn_conn q) = Some (rn_flag q)"

definition queries_ok :: "calls \<Rightarrow> bool" where
  "queries_ok s \<longleftrightarrow>
     (\<forall>q \<in> set (cs_running s). query_ok s q) \<and> distinct (map rn_request (cs_running s))
     \<and> distinct (map rn_conn (cs_running s)) \<and> distinct (map rn_flag (cs_running s))"

definition table_ok :: "calls \<Rightarrow> bool" where
  "table_ok s \<longleftrightarrow>
     (\<forall>n f. sd_handles (cs_sd s) n = Some f \<longleftrightarrow> (\<exists>q \<in> set (cs_running s). rn_nonce q = n \<and> rn_flag q = f))
     \<and> (\<forall>f < length (sd_flags (cs_sd s)). active (sd_flags (cs_sd s) ! f) \<longrightarrow> f \<in> rn_flag ` set (cs_running s))
     \<and> sd_next_handle (cs_sd s) = of_nat (Suc (length (sd_flags (cs_sd s))))"

definition ids_ok :: "calls \<Rightarrow> bool" where
  "ids_ok s \<longleftrightarrow>
     (\<forall>rid n. backend_id_for rid (cs_reg s) = Some (SqliteId n) \<longrightarrow>
        (\<exists>k < length (sd_flags (cs_sd s)). n = of_nat (Suc k))
        \<and> (\<forall>q \<in> set (cs_running s). rn_nonce q = n \<longrightarrow> rn_request q = rid))"

definition handlers_ok :: "calls \<Rightarrow> bool" where
  "handlers_ok s \<longleftrightarrow>
     (\<forall>c f. sd_handler (cs_sd s) c = Some f \<longrightarrow>
        f < length (sd_flags (cs_sd s)) \<and> (\<forall>c'. sd_handler (cs_sd s) c' = Some f \<longrightarrow> c' = c))"

text \<open>The nonces are distinct as long as fewer than \<open>2\<^sup>64 - 1\<close> queries were started.\<close>

definition calls_inv :: "calls \<Rightarrow> bool" where
  "calls_inv s \<longleftrightarrow>
     (length (sd_flags (cs_sd s)) < 18446744073709551615 \<longrightarrow> queries_ok s \<and> table_ok s \<and> ids_ok s \<and> handlers_ok s)"

lemma nonce_inj:
  "j < 18446744073709551615 \<Longrightarrow> k < 18446744073709551615 \<Longrightarrow> (of_nat (Suc j) :: u64) = of_nat (Suc k) \<Longrightarrow> j = k"
proof -
  have "unat (of_nat (Suc i) :: u64) = Suc i" if "i < 18446744073709551615" for i
    using that by (simp add: unat_of_nat del: of_nat_Suc)
  then show "j < 18446744073709551615 \<Longrightarrow> k < 18446744073709551615 \<Longrightarrow> (of_nat (Suc j) :: u64) = of_nat (Suc k) \<Longrightarrow> j = k"
    by (metis nat.inject)
qed

lemmas inv_defs = queries_ok_def table_ok_def ids_ok_def handlers_ok_def

lemma running_registered: "query_ok s q \<Longrightarrow> omap_get (cs_reg s) (rn_request q) \<noteq> None"
  by (cases "omap_get (cs_reg s) (rn_request q)") (simp_all add: query_ok_def backend_id_for_def)

lemma update_nth: "f < length xs \<Longrightarrow> xs[i := v] ! f = (if f = i then v else xs ! f)"
  by (cases "f = i") auto

lemma register_inv:
  assumes "calls_inv s" and "omap_get (cs_reg s) rid = None"
  shows "calls_inv (s\<lparr>cs_reg := guard_register rid b d wall started (cs_reg s)\<rparr>)"
proof -
  have "rn_request q \<noteq> rid" if "query_ok s q" for q
    using running_registered [OF that] assms(2) by auto
  then show ?thesis
    using assms(1) unfolding calls_inv_def by (simp add: inv_defs query_ok_def)
qed

lemma leave_inv:
  assumes "calls_inv s" and "rid \<notin> rn_request ` set (cs_running s)"
  shows "calls_inv (s\<lparr>cs_reg := in_flight_drop rid (cs_reg s)\<rparr>)"
  using assms unfolding calls_inv_def by (auto simp: inv_defs query_ok_def)

lemma deliver_fields [simp]:
  "length (sd_flags (deliver a sd)) = length (sd_flags sd)" "sd_handles (deliver a sd) = sd_handles sd"
  "sd_next_handle (deliver a sd) = sd_next_handle sd" "sd_handler (deliver a sd) = sd_handler sd"
  by (simp_all add: deliver_def sqlite_cancel_def split: cancel_action.splits option.splits)

lemma deliver_active: "f < length (sd_flags sd) \<Longrightarrow> active (sd_flags (deliver a sd) ! f) = active (sd_flags sd ! f)"
  by (auto simp: deliver_def sqlite_cancel_def update_nth split: cancel_action.splits option.splits)

lemma cancelled_inv: "calls_inv s \<Longrightarrow> calls_inv (s\<lparr>cs_sd := deliver a (cs_sd s)\<rparr>)"
  unfolding calls_inv_def by (simp add: inv_defs query_ok_def deliver_active)

text \<open>Queries that run have distinct nonces.\<close>

lemma nonce_flag:
  assumes "queries_ok s" and "length (sd_flags (cs_sd s)) < 18446744073709551615"
    and "q \<in> set (cs_running s)" and "q' \<in> set (cs_running s)" and "rn_nonce q = rn_nonce q'"
  shows "q = q'"
proof -
  have "rn_flag q = rn_flag q'"
    using assms by (intro nonce_inj) (auto simp: queries_ok_def query_ok_def)
  then show ?thesis
    using assms by (auto simp: queries_ok_def distinct_map inj_on_def)
qed

lemma finish_fields [simp]:
  "length (sd_flags (sqlite_finish locked q sd)) = length (sd_flags sd)"
  "sd_handles (sqlite_finish locked q sd) = (sd_handles sd)(rn_nonce q := None)"
  "sd_next_handle (sqlite_finish locked q sd) = sd_next_handle sd"
  "sd_handler (sqlite_finish locked q sd) = (if locked then (sd_handler sd)(rn_conn q := None) else sd_handler sd)"
  by (simp_all add: sqlite_finish_def running_drop_def Let_def)

lemma finish_active:
  "f < length (sd_flags sd) \<Longrightarrow>
   active (sd_flags (sqlite_finish locked q sd) ! f) \<longleftrightarrow> f \<noteq> rn_flag q \<and> active (sd_flags sd ! f)"
  by (simp add: sqlite_finish_def running_drop_def update_nth Let_def)

lemma finish_inv:
  assumes inv: "calls_inv s" and split: "cs_running s = qs1 @ q # qs2"
  shows "calls_inv (s\<lparr>cs_sd := sqlite_finish locked q (cs_sd s), cs_running := qs1 @ qs2\<rparr>)" (is "calls_inv ?s")
proof (unfold calls_inv_def, intro impI conjI)
  assume "length (sd_flags (cs_sd ?s)) < 18446744073709551615"
  then have len: "length (sd_flags (cs_sd s)) < 18446744073709551615" by simp
  then have ok: "queries_ok s" "table_ok s" "ids_ok s" "handlers_ok s"
    using inv by (simp_all add: calls_inv_def)
  have other: "rn_conn q' \<noteq> rn_conn q \<and> rn_flag q' \<noteq> rn_flag q \<and> rn_nonce q' \<noteq> rn_nonce q \<and> query_ok s q'"
    if "q' \<in> set (qs1 @ qs2)" for q'
  proof -
    have "rn_conn q' \<noteq> rn_conn q \<and> rn_flag q' \<noteq> rn_flag q \<and> query_ok s q'"
      using that ok(1) by (auto simp: queries_ok_def split rev_image_eqI)
    moreover have "rn_nonce q' \<noteq> rn_nonce q"
      using nonce_flag [OF ok(1) len, of q' q] that calculation by (auto simp: split)
    ultimately show ?thesis by blast
  qed
  show "queries_ok ?s"
    using ok(1) other by (auto simp: queries_ok_def query_ok_def split)
  have "sd_handles (cs_sd ?s) n = Some f \<longleftrightarrow> (\<exists>q' \<in> set (cs_running ?s). rn_nonce q' = n \<and> rn_flag q' = f)" for n f
  proof (cases "n = rn_nonce q")
    case True
    with other show ?thesis by auto
  next
    case False
    then have "sd_handles (cs_sd ?s) n = Some f \<longleftrightarrow> (\<exists>q' \<in> set (cs_running s). rn_nonce q' = n \<and> rn_flag q' = f)"
      using ok(2) by (simp add: table_ok_def)
    with False show ?thesis by (auto simp: split)
  qed
  moreover have "f \<in> rn_flag ` set (cs_running ?s)"
    if "f < length (sd_flags (cs_sd ?s))" and "active (sd_flags (cs_sd ?s) ! f)" for f
    using that ok(2) by (fastforce simp: table_ok_def finish_active split)
  moreover have "sd_next_handle (cs_sd ?s) = of_nat (Suc (length (sd_flags (cs_sd ?s))))"
    using ok(2) by (simp add: table_ok_def)
  ultimately show "table_ok ?s" unfolding table_ok_def by blast
  show "ids_ok ?s" using ok(3) by (simp add: ids_ok_def split)
  show "handlers_ok ?s" using ok(4) by (auto simp: handlers_ok_def)
qed

lemma start_shape:
  assumes "table_ok s" and "sqlite_start rid conn (cs_sd s) = (sd, q)" and "n = length (sd_flags (cs_sd s))"
  shows "q = \<lparr>rn_request = rid, rn_conn = conn, rn_nonce = of_nat (Suc n), rn_flag = n\<rparr>"
    and "sd = \<lparr>sd_handles = (sd_handles (cs_sd s))(of_nat (Suc n) \<mapsto> n), sd_next_handle = of_nat (Suc (Suc n)),
           sd_flags = sd_flags (cs_sd s) @ [\<lparr>cancelled = False, active = True\<rparr>],
           sd_handler = (sd_handler (cs_sd s))(conn \<mapsto> n)\<rparr>"
  using assms by (auto simp: sqlite_start_def Let_def table_ok_def)

lemma start_ids:
  assumes ok: "ids_ok s" and reg: "omap_get (cs_reg s) rid \<noteq> None" and n: "n = length (sd_flags (cs_sd s))"
    and new: "\<And>k. k < n \<Longrightarrow> (of_nat (Suc k) :: u64) \<noteq> of_nat (Suc n)"
    and fresh: "\<And>q'. q' \<in> set (cs_running s) \<Longrightarrow> rn_nonce q' \<noteq> of_nat (Suc n)"
    and q: "rn_request q = rid" "rn_nonce q = of_nat (Suc n)" and sd: "length (sd_flags sd) = Suc n"
  shows "ids_ok \<lparr>cs_reg = set_backend_id rid (SqliteId (rn_nonce q)) (cs_reg s), cs_sd = sd, cs_running = q # cs_running s\<rparr>"
    (is "ids_ok ?s")
proof -
  have "(\<exists>k < length (sd_flags (cs_sd ?s)). m = of_nat (Suc k)) \<and> (\<forall>q' \<in> set (cs_running ?s). rn_nonce q' = m \<longrightarrow> rn_request q' = r)"
    if "backend_id_for r (cs_reg ?s) = Some (SqliteId m)" for r m
  proof (cases "r = rid")
    case True
    with that have "m = of_nat (Suc n)" by (simp add: backend_id_set [OF reg] q del: of_nat_Suc)
    moreover have "n < length (sd_flags (cs_sd ?s))" by (simp add: sd)
    ultimately show ?thesis using True fresh by (auto simp: q simp del: of_nat_Suc)
  next
    case False
    with that have "backend_id_for r (cs_reg s) = Some (SqliteId m)" by (simp add: backend_id_set [OF reg])
    then obtain k where k: "k < n" "m = of_nat (Suc k)" and "\<forall>q' \<in> set (cs_running s). rn_nonce q' = m \<longrightarrow> rn_request q' = r"
      using ok unfolding ids_ok_def n by blast
    moreover have "rn_nonce q \<noteq> m" unfolding k(2) using new [OF k(1)] by (simp add: q del: of_nat_Suc)
    moreover have "k < length (sd_flags (cs_sd ?s))" using k(1) by (simp add: sd)
    ultimately show ?thesis using k(2) by (intro conjI exI [of _ k]) simp_all
  qed
  then show ?thesis unfolding ids_ok_def by blast
qed

lemma start_inv:
  assumes inv: "calls_inv s" and reg: "omap_get (cs_reg s) rid \<noteq> None" and fresh: "rid \<notin> rn_request ` set (cs_running s)"
    "conn \<notin> rn_conn ` set (cs_running s)" and st: "sqlite_start rid conn (cs_sd s) = (sd, q)"
  shows "calls_inv \<lparr>cs_reg = set_backend_id rid (SqliteId (rn_nonce q)) (cs_reg s), cs_sd = sd, cs_running = q # cs_running s\<rparr>"
    (is "calls_inv ?s")
proof (unfold calls_inv_def, intro impI conjI)
  let ?n = "length (sd_flags (cs_sd s))"
  assume "length (sd_flags (cs_sd ?s)) < 18446744073709551615"
  then have len: "?n < 18446744073709551615" using st by (auto simp: sqlite_start_def Let_def)
  then have ok: "queries_ok s" "table_ok s" "ids_ok s" "handlers_ok s"
    using inv by (simp_all add: calls_inv_def)
  note q = start_shape(1) [OF ok(2) st refl] and sd = start_shape(2) [OF ok(2) st refl]
  have old: "rn_request q' \<noteq> rid \<and> rn_conn q' \<noteq> conn \<and> rn_flag q' < ?n \<and> rn_nonce q' = of_nat (Suc (rn_flag q')) \<and> query_ok s q'"
    if "q' \<in> set (cs_running s)" for q'
    using that fresh ok(1) by (auto simp: queries_ok_def query_ok_def)
  have new: "k < ?n \<Longrightarrow> (of_nat (Suc k) :: u64) \<noteq> of_nat (Suc ?n)" for k
    using nonce_inj [of k ?n] len by (auto simp del: of_nat_Suc)
  have fresh_nonce: "rn_nonce q' \<noteq> of_nat (Suc ?n)" if "q' \<in> set (cs_running s)" for q'
    using old [OF that] new by metis
  have "query_ok ?s q'" if "q' \<in> set (cs_running s)" for q'
    using old [OF that] by (simp add: query_ok_def sd backend_id_set [OF reg] less_SucI del: of_nat_Suc)
  moreover have "query_ok ?s q"
    by (simp add: query_ok_def q sd backend_id_set [OF reg] del: of_nat_Suc)
  moreover have "rn_flag q \<notin> rn_flag ` set (cs_running s)" using old by (force simp: q)
  ultimately show "queries_ok ?s" using ok(1) fresh unfolding queries_ok_def by (simp add: q)
  have "sd_handles (cs_sd ?s) n = Some f \<longleftrightarrow> (\<exists>q' \<in> set (cs_running ?s). rn_nonce q' = n \<and> rn_flag q' = f)" for n f
    using ok(2) fresh_nonce by (cases "n = of_nat (Suc ?n)") (auto simp: table_ok_def q sd simp del: of_nat_Suc)
  moreover have "f \<in> rn_flag ` set (cs_running ?s)"
    if "f < length (sd_flags (cs_sd ?s))" and "active (sd_flags (cs_sd ?s) ! f)" for f
    using that ok(2) by (cases "f = ?n") (auto simp: table_ok_def q sd nth_append less_Suc_eq simp del: of_nat_Suc)
  moreover have "sd_next_handle (cs_sd ?s) = of_nat (Suc (length (sd_flags (cs_sd ?s))))"
    by (simp add: sd)
  ultimately show "table_ok ?s" unfolding table_ok_def by blast
  show "ids_ok ?s" by (rule start_ids [OF ok(3) reg refl new fresh_nonce]) (simp_all add: q sd del: of_nat_Suc)
  show "handlers_ok ?s" using ok(4) by (auto simp: handlers_ok_def sd less_SucI)
qed

interpretation calls: transition_invariant calls_init "calls_step plugin" calls_inv for plugin
proof unfold_locales
  show "calls_init s \<Longrightarrow> calls_inv s" for s
    by (simp add: calls_init_def calls_inv_def inv_defs sqlite_new_def backend_id_for_def)
  show "calls_inv s \<Longrightarrow> calls_step plugin s t \<Longrightarrow> calls_inv t" for s t
    by (erule calls_stepE) (auto intro: register_inv leave_inv cancelled_inv finish_inv start_inv)
qed

text \<open>
  C9. Cancelling a request stops that request's statement and no other.  In every state the system of
  requests on a SQLite driver can reach, a progress handler that tells SQLite to stop after a cancel
  of \<open>rid\<close> is the handler of the query that runs on that connection now, and that query is one of
  \<open>rid\<close> or was to stop already: no later query of the pooled connection, and no other request, is
  interrupted.
\<close>

theorem cancel_stops_only_its_request:
  assumes "calls_init s0" and "(calls_step plugin)\<^sup>*\<^sup>* s0 s" and "length (sd_flags (cs_sd s)) < 18446744073709551615"
    and cancel: "cancel_request now rid (cs_reg s) plugin = Inr (b, a)"
    and handler: "sd_handler (cs_sd s) conn = Some flag" and stop: "stops (sd_flags (deliver a (cs_sd s)) ! flag)"
  shows "\<exists>q \<in> set (cs_running s). rn_conn q = conn \<and> rn_flag q = flag
           \<and> (rn_request q = rid \<or> stops (sd_flags (cs_sd s) ! flag))"
proof -
  have ok: "queries_ok s" "table_ok s" "ids_ok s" "handlers_ok s"
    using calls.reachable_inv [OF assms(1,2)] assms(3) by (simp_all add: calls_inv_def)
  have flag: "flag < length (sd_flags (cs_sd s))" using ok(4) handler by (simp add: handlers_ok_def)
  then have act: "active (sd_flags (cs_sd s) ! flag)" using stop deliver_active by (simp add: stops_def)
  then obtain q where q: "q \<in> set (cs_running s)" "rn_flag q = flag"
    using ok(2) flag by (auto simp: table_ok_def)
  then have "sd_handler (cs_sd s) (rn_conn q) = Some flag" using ok(1) by (simp add: queries_ok_def query_ok_def)
  then have conn: "rn_conn q = conn" using ok(4) handler unfolding handlers_ok_def by blast
  have "rn_request q = rid" if "\<not> stops (sd_flags (cs_sd s) ! flag)"
  proof -
    have "\<not> cancelled (sd_flags (cs_sd s) ! flag)" using that act by (simp add: stops_def)
    then obtain n where n: "a = SqliteFlag n" "sd_handles (cs_sd s) n = Some flag"
      using stop flag
      by (auto simp: stops_def deliver_def sqlite_cancel_def update_nth split: cancel_action.splits option.splits if_splits)
    then obtain q' where "q' \<in> set (cs_running s)" "rn_nonce q' = n" "rn_flag q' = flag"
      using ok(2) unfolding table_ok_def by blast
    moreover then have "q' = q" using q ok(1) by (auto simp: queries_ok_def distinct_map inj_on_def)
    moreover have "backend_id_for rid (cs_reg s) = Some (SqliteId n)" using cancel n cancel_request_flag by blast
    ultimately show ?thesis using ok(3) q unfolding ids_ok_def by blast
  qed
  with q conn show ?thesis by blast
qed

definition sqlite_rt :: profile_runtime where
  "sqlite_rt =
     \<lparr>rt_driver_kind = Sqlite, rt_cfg = sample_cfg, rt_has_cred_refs = False,
      rt_stmt = \<lparr>ps_sql = ''SELECT 1'', ps_param_order = [], ps_driver = Sqlite\<rparr>,
      rt_row_mode = Many, rt_max_rows = 10, rt_timeout_ms = 5000, rt_session_vars = [],
      rt_progress_heartbeat = None, rt_input_schema = None, rt_output_schema = None, rt_param_exprs = [],
      rt_breaker = None, rt_list = None, rt_await = None, rt_stream = None, rt_isolation_level = None,
      rt_cache = None, rt_tracking = None, rt_cost = None\<rparr>"

definition sqlite_plugin :: plugin_state where
  "sqlite_plugin = \<lparr>draining = False, profiles = [''orders'' \<mapsto> sqlite_rt]\<rparr>"

definition one_running :: calls where
  "one_running =
     (let (sd, q) = sqlite_start ''r1'' 5 sqlite_new
      in \<lparr>cs_reg = set_backend_id ''r1'' (SqliteId (rn_nonce q)) (guard_register ''r1'' ''orders'' Sqlite 0 0 []),
          cs_sd = sd, cs_running = [q]\<rparr>)"

lemma one_running_reachable:
  "(calls_step sqlite_plugin)\<^sup>*\<^sup>* \<lparr>cs_reg = [], cs_sd = sqlite_new, cs_running = []\<rparr> one_running"
proof -
  let ?s0 = "\<lparr>cs_reg = [], cs_sd = sqlite_new, cs_running = []\<rparr>"
  let ?s1 = "?s0\<lparr>cs_reg := guard_register ''r1'' ''orders'' Sqlite 0 0 (cs_reg ?s0)\<rparr>"
  have "calls_step sqlite_plugin ?s0 ?s1" by (rule calls_step.register) simp
  moreover have "calls_step sqlite_plugin ?s1 one_running"
    using calls_step.start [of ?s1 "''r1''" 5 "fst (sqlite_start ''r1'' 5 sqlite_new)" "snd (sqlite_start ''r1'' 5 sqlite_new)"]
    by (simp add: one_running_def guard_register_def case_prod_beta omap_get_def)
  ultimately show ?thesis by (meson converse_rtranclp_into_rtranclp rtranclp.rtrancl_refl)
qed

lemma cancel_stops_only_its_request_witness:
  "\<exists>b a. cancel_request 7 ''r1'' (cs_reg one_running) sqlite_plugin = Inr (b, a)
     \<and> stops (sd_flags (deliver a (cs_sd one_running)) ! 0)
     \<and> (\<exists>q \<in> set (cs_running one_running). rn_conn q = 5 \<and> rn_request q = ''r1'')"
proof -
  have c: "cancel_request 7 ''r1'' (cs_reg one_running) sqlite_plugin = Inr (''orders'', SqliteFlag 1)"
    and s: "stops (sd_flags (deliver (SqliteFlag 1) (cs_sd one_running)) ! 0)"
    and h: "sd_handler (cs_sd one_running) 5 = Some 0" and l: "length (sd_flags (cs_sd one_running)) < 18446744073709551615"
    and n: "\<not> stops (sd_flags (cs_sd one_running) ! 0)"
    by (simp_all add: one_running_def sqlite_start_def sqlite_new_def cancel_request_def snapshot_def set_backend_id_def
        guard_register_def omap_get_def cancel_backend_defs sqlite_plugin_def sqlite_rt_def stops_def deliver_def sqlite_cancel_def Let_def)
  have "\<exists>q \<in> set (cs_running one_running). rn_conn q = 5 \<and> rn_flag q = 0
           \<and> (rn_request q = ''r1'' \<or> stops (sd_flags (cs_sd one_running) ! 0))"
    by (rule cancel_stops_only_its_request [OF _ one_running_reachable l c h s]) (simp add: calls_init_def)
  with n c s show ?thesis by blast
qed

end
