(* ===== verification/Lifecycle.thy ===== *)
theory Lifecycle
  imports InFlight
begin

text \<open>
  \<open>shutdown\<close> of \<open>src/lib.rs\<close> and the guards of \<open>src/in_flight.rs\<close> around it.  \<open>shutdown\<close> is the whole
  operation against a clock and a count of live requests it polls; \<open>life_step\<close> interleaves it with
  requests at the granularity of the accesses to the drain flag and the registry.
\<close>

section \<open>Shutdown\<close>

definition shutdown_internal_cap_ms :: nat where
  "shutdown_internal_cap_ms = 30000"

definition shutdown_drain_poll_ms :: nat where
  "shutdown_drain_poll_ms = 50"

text \<open>
  The drain loop: \<open>live i\<close> is the number of requests in flight and \<open>elapsed i\<close> the time since the start
  at poll \<open>i\<close>.  The result is the poll it stops at; \<open>None\<close> is a loop cut off by the fuel.
\<close>

fun drain_loop :: "nat \<Rightarrow> (nat \<Rightarrow> nat) \<Rightarrow> (nat \<Rightarrow> nat) \<Rightarrow> nat \<Rightarrow> nat option" where
  "drain_loop 0 live elapsed i = None"
| "drain_loop (Suc fuel) live elapsed i =
     (if live i = 0 then Some i
      else if shutdown_internal_cap_ms \<le> elapsed i then Some i
      else drain_loop fuel live elapsed (Suc i))"

text \<open>The cap divided by the poll, and two more.\<close>

definition drain_fuel :: nat where
  "drain_fuel = 602"

datatype shutdown_event = NotifyWaiters | DrainPolls nat | CloseStarted "str set" | Joined "str set"

datatype shutdown_end = Returned | StillDraining | WaitsFor "str set"

text \<open>
  \<open>arrived\<close> are the profiles of registrations that tested the drain flag before it was set and finish
  during the drain.  \<open>close_ends b\<close> says whether the task that closes the static pool of \<open>b\<close> ends: it awaits
  \<open>Pool::close\<close>, which waits until every connection of the pool has been given back and has no bound of
  its own; a task that panics ends too, with a warning.  All the tasks are started before the first one is
  joined.  The result is the plugin and what happened up to the end, or up to where the shutdown waits
  for ever.
\<close>

definition shutdown ::
    "(nat \<Rightarrow> nat) \<Rightarrow> (nat \<Rightarrow> nat) \<Rightarrow> (str \<rightharpoonup> profile_runtime) \<Rightarrow> (str \<Rightarrow> bool) \<Rightarrow> plugin_state \<Rightarrow>
     plugin_state \<times> shutdown_event list \<times> shutdown_end" where
  "shutdown live elapsed arrived close_ends plugin =
     (if draining plugin then (plugin, [], Returned)
      else
        (case drain_loop drain_fuel live elapsed 0 of
           None \<Rightarrow> (plugin\<lparr>draining := True\<rparr>, [NotifyWaiters], StillDraining)
         | Some i \<Rightarrow>
             (let registered = profiles plugin ++ arrived;
                  closing = dom registered;
                  stuck = {b \<in> closing. \<not> close_ends b};
                  started = [NotifyWaiters, DrainPolls (Suc i), CloseStarted closing]
              in if stuck = {}
                 then (plugin\<lparr>draining := True, profiles := Map.empty\<rparr>, started @ [Joined closing], Returned)
                 else (plugin\<lparr>draining := True, profiles := registered\<rparr>, started, WaitsFor stuck))))"

text \<open>The poll the loop stops at is the first at which nothing is in flight or the cap is reached.\<close>

definition drain_stops :: "(nat \<Rightarrow> nat) \<Rightarrow> (nat \<Rightarrow> nat) \<Rightarrow> nat \<Rightarrow> bool" where
  "drain_stops live elapsed i \<longleftrightarrow> live i = 0 \<or> 30000 \<le> elapsed i"

lemma drain_loop_returns:
  assumes "\<And>i. elapsed i + shutdown_drain_poll_ms \<le> elapsed (Suc i)"
    and "shutdown_internal_cap_ms \<le> (i + n) * shutdown_drain_poll_ms" and "n < fuel"
    and "i * shutdown_drain_poll_ms \<le> elapsed i"
  shows "\<exists>j \<le> i + n. drain_loop fuel live elapsed i = Some j \<and> drain_stops live elapsed j
    \<and> (\<forall>k. i \<le> k \<and> k < j \<longrightarrow> \<not> drain_stops live elapsed k)"
  using assms(2-)
proof (induction n arbitrary: i fuel)
  case (0 i fuel)
  then show ?case by (cases fuel) (auto simp: drain_stops_def shutdown_internal_cap_ms_def)
next
  case (Suc n i fuel)
  then obtain fuel' where fuel: "fuel = Suc fuel'" "n < fuel'" by (cases fuel) auto
  have "Suc i * shutdown_drain_poll_ms \<le> elapsed (Suc i)" using Suc.prems(3) assms(1) [of i] by simp
  then obtain j where j: "j \<le> Suc i + n" "drain_loop fuel' live elapsed (Suc i) = Some j" "drain_stops live elapsed j"
    "\<forall>k. Suc i \<le> k \<and> k < j \<longrightarrow> \<not> drain_stops live elapsed k"
    using Suc.IH [of "Suc i" fuel'] Suc.prems(1) fuel(2) by auto
  show ?case
  proof (cases "drain_stops live elapsed i")
    case True
    then show ?thesis by (intro exI [of _ i]) (auto simp: fuel drain_stops_def shutdown_internal_cap_ms_def)
  next
    case False
    then have "\<not> drain_stops live elapsed k" if "i \<le> k" "k < j" for k
      using j(4) that by (cases "k = i") auto
    then show ?thesis
      using j False by (intro exI [of _ j]) (auto simp: fuel drain_stops_def shutdown_internal_cap_ms_def)
  qed
qed

text \<open>
  C28. The drain of a shutdown is bounded whatever the requests do, and what is left of it is bounded by
  the pools.  If every sleep takes at least the poll interval, the drain ends at the first poll at which
  nothing is in flight or the thirty seconds of the cap have passed, the 601st at the latest; then the
  close of the static pool of every binding is started, those included whose registration finished during
  the drain.  The plugin drains from the start on.  The shutdown returns, with no binding left, exactly
  when each of these closes ends, each being joined; otherwise it waits for those that do not, with the
  bindings still registered: nothing but the gateway's own timeout bounds that.  (The pools the
  credential registries of the bindings hold are not closed, only dropped with the bindings.)
\<close>

theorem shutdown_drain_bounded:
  assumes "draining plugin = False" and "\<forall>i. elapsed i + 50 \<le> elapsed (Suc i)"
    and "registered = profiles plugin ++ arrived"
    and "shutdown live elapsed arrived close_ends plugin = (plugin1, evs, result)"
  shows "\<exists>j \<le> 600. (live j = 0 \<or> 30000 \<le> elapsed j) \<and> (\<forall>i < j. live i \<noteq> 0 \<and> elapsed i < 30000) \<and>
      draining plugin1 \<and>
      (if \<forall>b \<in> dom registered. close_ends b
       then result = Returned \<and> profiles plugin1 = Map.empty \<and>
         evs = [NotifyWaiters, DrainPolls (Suc j), CloseStarted (dom registered), Joined (dom registered)]
       else result = WaitsFor {b \<in> dom registered. \<not> close_ends b} \<and> profiles plugin1 = registered \<and>
         evs = [NotifyWaiters, DrainPolls (Suc j), CloseStarted (dom registered)])"
proof -
  have "\<exists>j \<le> 0 + 600. drain_loop drain_fuel live elapsed 0 = Some j \<and> drain_stops live elapsed j
      \<and> (\<forall>k. 0 \<le> k \<and> k < j \<longrightarrow> \<not> drain_stops live elapsed k)"
    using assms(2)
    by (intro drain_loop_returns)
       (simp_all add: drain_fuel_def shutdown_drain_poll_ms_def shutdown_internal_cap_ms_def)
  then obtain j where j: "j \<le> 600" "drain_loop drain_fuel live elapsed 0 = Some j" "drain_stops live elapsed j"
    "\<And>k. k < j \<Longrightarrow> \<not> drain_stops live elapsed k" by auto
  have "{b \<in> dom registered. \<not> close_ends b} = {} \<longleftrightarrow> (\<forall>b \<in> dom registered. close_ends b)" by blast
  then show ?thesis
    using assms(1,4) j(1,3,4)
    by (intro exI [of _ j]) (auto simp: shutdown_def j(2) assms(3) Let_def drain_stops_def not_le split: if_split_asm)
qed

text \<open>Three requests that never end, on the one binding there is: the drain is cut off, and its pool does not close.\<close>

lemma shutdown_drain_bounded_witness:
  "\<exists>j \<le> 600. 30000 \<le> 50 * j \<and>
     (\<exists>plugin1. shutdown (\<lambda>i. 3) (\<lambda>i. 50 * i) Map.empty (\<lambda>b. False) sqlite_plugin =
        (plugin1, [NotifyWaiters, DrainPolls (Suc j), CloseStarted {''orders''}], WaitsFor {''orders''}))"
proof -
  obtain plugin1 evs result where run: "shutdown (\<lambda>i. 3) (\<lambda>i. 50 * i) Map.empty (\<lambda>b. False) sqlite_plugin = (plugin1, evs, result)"
    by (cases "shutdown (\<lambda>i. 3) (\<lambda>i. 50 * i) Map.empty (\<lambda>b. False) sqlite_plugin")
  have reg: "[''orders'' \<mapsto> sqlite_rt] = profiles sqlite_plugin ++ Map.empty" and live: "draining sqlite_plugin = False"
    by (simp_all add: sqlite_plugin_def)
  have "{b. b = ''orders''} = {''orders''}" by simp
  then show ?thesis
    using shutdown_drain_bounded [OF live _ reg run] by (simp add: run) blast
qed

section \<open>Requests during a shutdown\<close>

datatype shutdown_phase = NotShut | Drains nat | Closing | Stopped

text \<open>
  \<open>lf_admitted\<close> are the requests past the test of the drain flag that have not registered yet, \<open>lf_guards\<close>
  the guards that live, with repetitions when two requests carry one id.
\<close>

record life =
  lf_draining :: bool
  lf_admitted :: "str list"
  lf_guards :: "str list"
  lf_reg :: in_flight
  lf_phase :: shutdown_phase

definition life_init :: "life \<Rightarrow> bool" where
  "life_init s \<longleftrightarrow> s = \<lparr>lf_draining = False, lf_admitted = [], lf_guards = [], lf_reg = [], lf_phase = NotShut\<rparr>"

inductive life_step :: "life \<Rightarrow> life \<Rightarrow> bool" where
  enter: "\<not> lf_draining s \<Longrightarrow> life_step s (s\<lparr>lf_admitted := rid # lf_admitted s\<rparr>)"
| refused: "lf_admitted s = xs @ rid # ys \<Longrightarrow> life_step s (s\<lparr>lf_admitted := xs @ ys\<rparr>)"
| register: "lf_admitted s = xs @ rid # ys \<Longrightarrow>
     life_step s (s\<lparr>lf_admitted := xs @ ys, lf_guards := rid # lf_guards s, lf_reg := guard_register rid b d wall started (lf_reg s)\<rparr>)"
| drop: "lf_guards s = xs @ rid # ys \<Longrightarrow>
     life_step s (s\<lparr>lf_guards := xs @ ys, lf_reg := in_flight_drop rid (lf_reg s)\<rparr>)"
| begin_drain: "\<not> lf_draining s \<Longrightarrow> life_step s (s\<lparr>lf_draining := True, lf_phase := Drains 0\<rparr>)"
| wait: "lf_phase s = Drains t \<Longrightarrow> lf_reg s \<noteq> [] \<Longrightarrow> t < shutdown_internal_cap_ms \<Longrightarrow> t + shutdown_drain_poll_ms \<le> t' \<Longrightarrow>
     life_step s (s\<lparr>lf_phase := Drains t'\<rparr>)"
| drained: "lf_phase s = Drains t \<Longrightarrow> lf_reg s = [] \<or> shutdown_internal_cap_ms \<le> t \<Longrightarrow> life_step s (s\<lparr>lf_phase := Closing\<rparr>)"
| closed: "lf_phase s = Closing \<Longrightarrow> life_step s (s\<lparr>lf_phase := Stopped\<rparr>)"

inductive_cases life_stepE: "life_step s t"

text \<open>Every entry has a guard, so an entry goes with its last guard; with distinct ids the guards are the entries.\<close>

definition life_inv :: "life \<Rightarrow> bool" where
  "life_inv s \<longleftrightarrow> omap_ok (lf_reg s) \<and> (\<forall>rid. omap_get (lf_reg s) rid \<noteq> None \<longrightarrow> rid \<in> set (lf_guards s))
     \<and> (lf_phase s = NotShut \<longleftrightarrow> \<not> lf_draining s)"

interpretation life: transition_invariant life_init life_step life_inv
proof unfold_locales
  show "life_init s \<Longrightarrow> life_inv s" for s by (simp add: life_init_def life_inv_def)
  show "life_inv s \<Longrightarrow> life_step s t \<Longrightarrow> life_inv t" for s t
    by (erule life_stepE)
       (auto simp: life_inv_def guard_register_def in_flight_drop_def omap_ok_insert omap_ok_remove split: if_splits)
qed

text \<open>
  The in-flight table cannot leak: whatever the interleaving, and even when requests share an id,
  every entry belongs to a guard that lives, and when the last guard has dropped the table is empty.
\<close>

theorem in_flight_never_leaks:
  assumes "life_init s0" and "life_step\<^sup>*\<^sup>* s0 s"
  shows "(\<forall>rid. omap_get (lf_reg s) rid \<noteq> None \<longrightarrow> rid \<in> set (lf_guards s)) \<and> (lf_guards s = [] \<longrightarrow> lf_reg s = [])"
  using life.reachable_inv [OF assms] omap_empty [of "lf_reg s"] by (force simp: life_inv_def)

definition life0 :: life where
  "life0 = \<lparr>lf_draining = False, lf_admitted = [], lf_guards = [], lf_reg = [], lf_phase = NotShut\<rparr>"

lemma admitted_reachable:
  "life_step\<^sup>*\<^sup>* life0 (life0\<lparr>lf_guards := [''r1''], lf_reg := guard_register ''r1'' ''orders'' Sqlite 0 0 []\<rparr>)"
proof -
  have "life_step life0 (life0\<lparr>lf_admitted := [''r1'']\<rparr>)"
    using life_step.enter [of life0 "''r1''"] by (simp add: life0_def)
  moreover have "life_step (life0\<lparr>lf_admitted := [''r1'']\<rparr>)
      (life0\<lparr>lf_guards := [''r1''], lf_reg := guard_register ''r1'' ''orders'' Sqlite 0 0 []\<rparr>)"
    using life_step.register [of "life0\<lparr>lf_admitted := [''r1'']\<rparr>" "[]" "''r1''" "[]" "''orders''" Sqlite 0 0]
    by (simp add: life0_def)
  ultimately show ?thesis by (meson converse_rtranclp_into_rtranclp rtranclp.rtrancl_refl)
qed

lemma in_flight_never_leaks_witness:
  "\<exists>s. life_step\<^sup>*\<^sup>* life0 s \<and> omap_get (lf_reg s) ''r1'' \<noteq> None \<and> ''r1'' \<in> set (lf_guards s)"
  using admitted_reachable in_flight_never_leaks [OF _ admitted_reachable]
  by (intro exI conjI) (auto simp: guard_register_def life0_def life_init_def omap_get_def)

text \<open>
  The in-flight count can still rise after the drain flag is set: a request that tested the flag just
  before can register after the shutdown saw an empty table, so that it runs against pools that are
  being closed.
\<close>

theorem drain_misses_admitted_request:
  "\<exists>s. life_step\<^sup>*\<^sup>* life0 s \<and> lf_phase s = Stopped \<and> lf_draining s \<and> length (lf_reg s) = 1"
proof -
  let ?a = "life0\<lparr>lf_admitted := [''r1'']\<rparr>"
  let ?d = "?a\<lparr>lf_draining := True, lf_phase := Drains 0\<rparr>"
  let ?e = "?d\<lparr>lf_phase := Stopped\<rparr>"
  let ?f = "?e\<lparr>lf_admitted := [], lf_guards := [''r1''], lf_reg := guard_register ''r1'' ''orders'' Sqlite 0 0 []\<rparr>"
  have s1: "life_step life0 ?a" using life_step.enter [of life0 "''r1''"] by (simp add: life0_def)
  have s2: "life_step ?a ?d" using life_step.begin_drain [of ?a] by (simp add: life0_def)
  have s3: "life_step ?d (?d\<lparr>lf_phase := Closing\<rparr>)" using life_step.drained [of ?d 0] by (simp add: life0_def)
  have s4: "life_step (?d\<lparr>lf_phase := Closing\<rparr>) ?e" using life_step.closed [of "?d\<lparr>lf_phase := Closing\<rparr>"] by (simp add: life0_def)
  have s5: "life_step ?e ?f"
    using life_step.register [of ?e "[]" "''r1''" "[]" "''orders''" Sqlite 0 0] by (simp add: life0_def)
  note step = rtranclp.rtrancl_into_rtrancl [where r = life_step]
  have "life_step\<^sup>*\<^sup>* life0 ?f"
    by (rule step [OF _ s5], rule step [OF _ s4], rule step [OF _ s3], rule step [OF _ s2], rule r_into_rtranclp, rule s1)
  then show ?thesis by (rule exI [of _ ?f, OF conjI]) (simp add: guard_register_def)
qed

end
