(* ===== verification/Interval.thy ===== *)
theory Interval
  imports Prelude
begin

text \<open>
  \<open>src/driver/interval.rs\<close>: a Postgres interval as an ISO 8601 duration.  The components keep their
  widths (\<open>i32\<close> months and days, \<open>i64\<close> microseconds).  \<open>iso_read\<close> is a reference reader of durations, which
  the source does not have: it says what a text means.
\<close>

section \<open>Rendering\<close>

record pg_interval =
  iv_months :: "32 word"
  iv_days :: "32 word"
  iv_microseconds :: "64 word"

datatype sign = Positive | Negative | Mixed

definition classify_sign :: "32 word \<Rightarrow> 32 word \<Rightarrow> 64 word \<Rightarrow> sign" where
  "classify_sign months days micros =
     (let any_pos = sint months > 0 \<or> sint days > 0 \<or> sint micros > 0;
          any_neg = sint months < 0 \<or> sint days < 0 \<or> sint micros < 0
      in if any_pos \<and> any_neg then Mixed else if any_neg then Negative else Positive)"

text \<open>\<open>unsigned_abs\<close>: the minimum, which has no negation, is its own bit pattern.\<close>

definition unsigned_abs :: "'a::len word \<Rightarrow> 'a word" where
  "unsigned_abs w = (if sint w < 0 then - w else w)"

text \<open>\<open>{frac:06}\<close> without its trailing zeros.\<close>

definition pad6 :: "nat \<Rightarrow> str" where
  "pad6 n = replicate (6 - length (show_nat n)) (CHR ''0'') @ show_nat n"

definition format_frac_micros :: "32 word \<Rightarrow> str" where
  "format_frac_micros frac = rev (dropWhile (\<lambda>c. c = CHR ''0'') (rev (pad6 (unat frac))))"

definition field_text :: "'a::len word \<Rightarrow> char \<Rightarrow> str" where
  "field_text n d = (if n \<noteq> 0 then show_nat (unat n) @ [d] else [])"

definition pg_interval_to_iso8601 :: "pg_interval \<Rightarrow> str" where
  "pg_interval_to_iso8601 iv =
     (if iv_months iv = 0 \<and> iv_days iv = 0 \<and> iv_microseconds iv = 0 then ''PT0S''
      else
        (let sign = classify_sign (iv_months iv) (iv_days iv) (iv_microseconds iv);
             abs_months = unsigned_abs (iv_months iv); abs_days = unsigned_abs (iv_days iv);
             abs_micros = unsigned_abs (iv_microseconds iv);
             years = abs_months div 12; rem_months = abs_months mod 12;
             total_secs = abs_micros div 1000000; frac_micros = ucast (abs_micros mod 1000000) :: 32 word;
             hours = total_secs div 3600; rem_after_hours = total_secs mod 3600;
             minutes = rem_after_hours div 60; seconds = rem_after_hours mod 60
         in (if sign = Negative then ''-'' else []) @ ''P'' @
            field_text years (CHR ''Y'') @ field_text rem_months (CHR ''M'') @ field_text abs_days (CHR ''D'') @
            (if abs_micros \<noteq> 0 then
               ''T'' @ field_text hours (CHR ''H'') @ field_text minutes (CHR ''M'') @
               (if seconds \<noteq> 0 \<or> frac_micros \<noteq> 0 then
                  (if frac_micros = 0 then show_nat (unat seconds) @ ''S''
                   else show_nat (unat seconds) @ ''.'' @ format_frac_micros frac_micros @ ''S'')
                else [])
             else [])))"

section \<open>Reading durations\<close>

definition number_char :: "char \<Rightarrow> bool" where
  "number_char c \<longleftrightarrow> is_ascii_digit c \<or> c = CHR ''.''"

text \<open>The fields of a duration: each designator with the number before it.\<close>

fun read_fields :: "str \<Rightarrow> str \<Rightarrow> (char \<times> str) list" where
  "read_fields acc [] = []"
| "read_fields acc (c # cs) =
     (if number_char c then read_fields (acc @ [c]) cs else (c, acc) # read_fields [] cs)"

definition natural :: "str \<Rightarrow> nat" where
  "natural t = (case parse_digits 10 0 t of Some n \<Rightarrow> n | None \<Rightarrow> 0)"

definition field :: "(char \<times> str) list \<Rightarrow> char \<Rightarrow> nat" where
  "field fs d = (case map_of fs d of Some t \<Rightarrow> natural t | None \<Rightarrow> 0)"

text \<open>Seconds as microseconds: up to six decimals.\<close>

definition seconds_field :: "(char \<times> str) list \<Rightarrow> nat" where
  "seconds_field fs =
     (case map_of fs (CHR ''S'') of
        None \<Rightarrow> 0
      | Some t \<Rightarrow>
          (case split_once (CHR ''.'') t of
             None \<Rightarrow> natural t * 1000000
           | Some (whole, frac) \<Rightarrow> natural whole * 1000000 + natural (frac @ replicate (6 - length frac) (CHR ''0''))))"

text \<open>Months, days and microseconds, with the sign of the whole.\<close>

definition iso_read :: "str \<Rightarrow> int \<times> int \<times> int" where
  "iso_read s =
     (let negative = (s \<noteq> [] \<and> hd s = CHR ''-''); body = (if negative then drop 2 s else drop 1 s);
          fs = read_fields [] body;
          date = takeWhile (\<lambda>f. fst f \<noteq> CHR ''T'') fs; time = dropWhile (\<lambda>f. fst f \<noteq> CHR ''T'') fs;
          months = 12 * field date (CHR ''Y'') + field date (CHR ''M'');
          micros = (field time (CHR ''H'') * 3600 + field time (CHR ''M'') * 60) * 1000000 + seconds_field time;
          signed = (\<lambda>n. if negative then - int n else int n)
      in (signed months, signed (field date (CHR ''D'')), signed micros))"

section \<open>Widths\<close>

lemma uint_of_int: "0 \<le> k \<Longrightarrow> k < 2 ^ LENGTH('a) \<Longrightarrow> uint (word_of_int k :: 'a::len word) = k"
  by (simp add: uint_word_of_int_eq take_bit_int_eq_self)

lemma unat_unsigned_abs: "unat (unsigned_abs w) = nat \<bar>sint (w :: 'a::len word)\<bar>"
proof -
  have "(2 :: int) ^ (LENGTH('a) - Suc 0) < 2 ^ LENGTH('a)" by (simp add: power_strict_increasing)
  then have "uint (word_of_int \<bar>sint w\<bar> :: 'a word) = \<bar>sint w\<bar>"
    using sint_greater_eq [of w] sint_less [of w] by (intro uint_of_int) (simp, linarith)
  moreover have "word_of_int \<bar>sint w\<bar> = unsigned_abs w"
    by (simp add: unsigned_abs_def abs_if)
  ultimately show ?thesis by (simp flip: nat_uint_eq)
qed

section \<open>Fields\<close>

lemma read_fields_field:
  "\<forall>c \<in> set t. number_char c \<Longrightarrow> \<not> number_char d \<Longrightarrow> read_fields acc (t @ d # rest) = (d, acc @ t) # read_fields [] rest"
  by (induction t arbitrary: acc) auto

lemma show_nat_number: "\<forall>c \<in> set (show_nat n). number_char c"
  using show_nat_digits by (auto simp: number_char_def)

lemma natural_show [simp]: "natural (show_nat n) = n"
proof -
  have "parse_radix 10 (show_nat n) = Some n" by (simp add: show_nat_def)
  then show ?thesis by (simp add: natural_def parse_radix_def show_nat_def)
qed

definition opt_field :: "'a::len word \<Rightarrow> char \<Rightarrow> (char \<times> str) list" where
  "opt_field n d = (if n \<noteq> 0 then [(d, show_nat (unat n))] else [])"

lemma read_field_text:
  "\<not> number_char d \<Longrightarrow> read_fields [] (field_text n d @ rest) = opt_field n d @ read_fields [] rest"
  using read_fields_field [OF show_nat_number, of d "[]" "unat n" rest]
  by (simp add: field_text_def opt_field_def)

lemma field_opt:
  "field (opt_field n d @ fs) d' = (if d' = d \<and> n \<noteq> 0 then unat n else field fs d')"
  by (simp add: field_def opt_field_def)

lemma field_Nil [simp]: "field [] d = 0"
  by (simp add: field_def)

section \<open>Fractions\<close>

lemma digits_length: "n < 10 ^ k \<Longrightarrow> 0 < k \<Longrightarrow> length (digits_of 10 n) \<le> k"
proof (induction k arbitrary: n)
  case (Suc k)
  show ?case
  proof (cases "n < 10")
    case False
    then have "0 < k" using Suc.prems by (cases k) auto
    moreover have "n div 10 < 10 ^ k" using Suc.prems by (simp add: less_mult_imp_div_less mult.commute)
    ultimately show ?thesis using Suc.IH [of "n div 10"] False by (subst digits_of.simps) simp
  qed (subst digits_of.simps, simp)
qed simp

lemma pad6_length: "n < 1000000 \<Longrightarrow> length (pad6 n) = 6"
  using digits_length [of n 6] by (simp add: pad6_def show_nat_def show_radix_def)

lemma parse_zeros: "parse_digits 10 0 (replicate k (CHR ''0'') @ t) = parse_digits 10 0 t"
  by (induction k) (simp_all add: digit_val_def is_ascii_digit_def)

lemma natural_pad6: "natural (pad6 n) = n"
  using natural_show [of n] by (simp add: natural_def pad6_def parse_zeros)

lemma dropWhile_replicate: "replicate (length xs - length (dropWhile (\<lambda>c. c = z) xs)) z @ dropWhile (\<lambda>c. c = z) xs = xs"
  by (induction xs) (auto simp: Suc_diff_le length_dropWhile_le)

lemma strip_zeros_pad:
  "rev (dropWhile (\<lambda>c. c = z) (rev s)) @ replicate (length s - length (dropWhile (\<lambda>c. c = z) (rev s))) z = s"
proof -
  have "rev (replicate (length (rev s) - length (dropWhile (\<lambda>c. c = z) (rev s))) z @ dropWhile (\<lambda>c. c = z) (rev s)) = s"
    using dropWhile_replicate [of "rev s" z] by simp
  then show ?thesis by simp
qed

lemma frac_read:
  assumes "unat frac < 1000000"
  shows "natural (format_frac_micros frac @ replicate (6 - length (format_frac_micros frac)) (CHR ''0'')) = unat frac"
  using strip_zeros_pad [of "CHR ''0''" "pad6 (unat frac)"] pad6_length [OF assms] natural_pad6 [of "unat frac"]
  by (simp add: format_frac_micros_def)

lemma format_frac_number: "\<forall>c \<in> set (format_frac_micros frac). number_char c"
  using show_nat_number [of "unat frac"] set_dropWhileD
  by (fastforce simp: format_frac_micros_def pad6_def number_char_def is_ascii_digit_def)

lemma split_once_number: "(\<forall>c \<in> set t. c \<noteq> d) \<Longrightarrow> split_once d (t @ d # u) = Some (t, u)" "(\<forall>c \<in> set t. c \<noteq> d) \<Longrightarrow> split_once d t = None"
  by (induction t) auto

lemma show_nat_no_dot: "\<forall>c \<in> set (show_nat n). c \<noteq> CHR ''.''"
  using show_nat_digits [of "CHR ''.''" n] by (auto simp: is_ascii_digit_def)

section \<open>The meaning of a rendered interval\<close>

definition seconds_text :: "64 word \<Rightarrow> 32 word \<Rightarrow> (char \<times> str) list" where
  "seconds_text seconds frac =
     (if seconds \<noteq> 0 \<or> frac \<noteq> 0
      then [(CHR ''S'', if frac = 0 then show_nat (unat seconds) else show_nat (unat seconds) @ ''.'' @ format_frac_micros frac)]
      else [])"

lemma seconds_read:
  assumes "unat frac < 1000000"
  shows "seconds_field (seconds_text seconds frac) = unat seconds * 1000000 + unat frac"
  using split_once_number [OF show_nat_no_dot, of "unat seconds"] frac_read [OF assms]
  by (simp add: seconds_field_def seconds_text_def)

lemma number_dot [simp]: "number_char (CHR ''.'')"
  by (simp add: number_char_def)

lemma not_number [simp]:
  "\<not> number_char (CHR ''Y'')" "\<not> number_char (CHR ''M'')" "\<not> number_char (CHR ''D'')" "\<not> number_char (CHR ''T'')"
  "\<not> number_char (CHR ''H'')" "\<not> number_char (CHR ''S'')"
  by (simp_all add: number_char_def is_ascii_digit_def)

lemma read_seconds:
  "read_fields [] (if seconds \<noteq> 0 \<or> frac \<noteq> 0
     then (if frac = 0 then show_nat (unat seconds) @ ''S'' else show_nat (unat seconds) @ ''.'' @ format_frac_micros frac @ ''S'')
     else []) = seconds_text seconds frac"
  using read_fields_field [OF show_nat_number, of "CHR ''S''" "[]" "unat seconds" "[]"]
    read_fields_field [of "show_nat (unat seconds) @ ''.'' @ format_frac_micros frac" "CHR ''S''" "[]" "[]"]
    show_nat_number [of "unat seconds"] format_frac_number [of frac]
  by (auto simp: seconds_text_def)

text \<open>The fields of date and time, and their numbers.\<close>

definition date_fields :: "32 word \<Rightarrow> 32 word \<Rightarrow> (char \<times> str) list" where
  "date_fields months days =
     opt_field (months div 12) (CHR ''Y'') @ opt_field (months mod 12) (CHR ''M'') @ opt_field days (CHR ''D'')"

definition time_fields :: "64 word \<Rightarrow> (char \<times> str) list" where
  "time_fields micros =
     (let secs = micros div 1000000
      in opt_field (secs div 3600) (CHR ''H'') @ opt_field (secs mod 3600 div 60) (CHR ''M'') @
         seconds_text (secs mod 3600 mod 60) (ucast (micros mod 1000000)))"

lemma date_numbers:
  "12 * field (date_fields months days) (CHR ''Y'') + field (date_fields months days) (CHR ''M'') = unat months"
  "field (date_fields months days) (CHR ''D'') = unat days"
  using mult_div_mod_eq [of 12 "unat months"]
  by (auto simp: date_fields_def field_opt field_opt [of _ _ "[]", simplified] unat_div unat_mod simp flip: unat_eq_0)

lemma frac_width: "unat (ucast (micros mod 1000000 :: 64 word) :: 32 word) = unat micros mod 1000000"
proof -
  have "unat (micros mod 1000000) = unat micros mod 1000000" by (simp add: unat_mod)
  then show ?thesis by (simp add: unsigned_ucast_eq take_bit_nat_eq_self)
qed

lemma field_seconds: "d \<noteq> CHR ''S'' \<Longrightarrow> field (seconds_text seconds frac) d = 0"
  by (simp add: field_def seconds_text_def)

lemma time_numbers:
  "(field (time_fields micros) (CHR ''H'') * 3600 + field (time_fields micros) (CHR ''M'') * 60) * 1000000
     + seconds_field (time_fields micros) = unat micros"
proof -
  let ?secs = "micros div 1000000" and ?frac = "ucast (micros mod 1000000) :: 32 word"
  have h: "field (time_fields micros) (CHR ''H'') = unat ?secs div 3600"
    and m: "field (time_fields micros) (CHR ''M'') = unat ?secs mod 3600 div 60"
    by (simp_all add: time_fields_def Let_def field_opt field_seconds unat_div unat_mod flip: unat_eq_0)
  have "seconds_field (time_fields micros) = seconds_field (seconds_text (?secs mod 3600 mod 60) ?frac)"
    by (simp add: time_fields_def Let_def seconds_field_def opt_field_def)
  also have "\<dots> = unat (?secs mod 3600 mod 60) * 1000000 + unat ?frac"
    by (rule seconds_read) (simp add: frac_width)
  finally have s: "seconds_field (time_fields micros) = (unat ?secs mod 3600 mod 60) * 1000000 + unat micros mod 1000000"
    by (simp add: frac_width unat_mod)
  let ?S = "unat ?secs"
  have "(?S div 3600 * 3600 + ?S mod 3600 div 60 * 60) * 1000000 + ((?S mod 3600 mod 60) * 1000000 + unat micros mod 1000000)
      = (?S div 3600 * 3600 + (?S mod 3600 div 60 * 60 + ?S mod 3600 mod 60)) * 1000000 + unat micros mod 1000000"
    by (simp only: distrib_right add.assoc)
  also have "\<dots> = ?S * 1000000 + unat micros mod 1000000"
    by (simp only: div_mult_mod_eq)
  also have "\<dots> = unat micros"
    by (simp add: unat_div)
  finally show ?thesis unfolding h m s .
qed

text \<open>The text of an interval that is not zero, as its fields.\<close>

lemma render_fields:
  "read_fields [] (field_text (months div 12) (CHR ''Y'') @ field_text (months mod 12) (CHR ''M'') @ field_text days (CHR ''D'') @ rest)
     = date_fields months days @ read_fields [] rest"
  by (simp add: read_field_text date_fields_def)

lemma render_time:
  "read_fields [] (''T'' @ field_text (secs div 3600) (CHR ''H'') @ field_text (secs mod 3600 div 60) (CHR ''M'') @
     (if secs mod 3600 mod 60 \<noteq> 0 \<or> frac \<noteq> 0
      then (if frac = 0 then show_nat (unat (secs mod 3600 mod 60)) @ ''S''
            else show_nat (unat (secs mod 3600 mod 60)) @ ''.'' @ format_frac_micros frac @ ''S'') else []))
   = (CHR ''T'', []) # opt_field (secs div 3600) (CHR ''H'') @ opt_field (secs mod 3600 div 60) (CHR ''M'') @
       seconds_text (secs mod 3600 mod 60) frac"
  using read_seconds [of "secs mod 3600 mod 60" frac] by (simp add: read_field_text)

lemma date_no_T: "\<forall>f \<in> set (date_fields months days). fst f \<noteq> CHR ''T''"
  by (auto simp: date_fields_def opt_field_def)

lemma field_skip: "d \<noteq> d' \<Longrightarrow> field ((d', t) # fs) d = field fs d" "seconds_field ((CHR ''T'', t) # fs) = seconds_field fs"
  by (simp_all add: field_def seconds_field_def)

lemma seconds_Nil [simp]: "seconds_field [] = 0"
  by (simp add: seconds_field_def)

text \<open>What reading gives back, from the sign and the absolute components.\<close>

definition reading :: "bool \<Rightarrow> 32 word \<Rightarrow> 32 word \<Rightarrow> 64 word \<Rightarrow> int \<times> int \<times> int" where
  "reading negative months days micros =
     (let signed = (\<lambda>n. if negative then - int n else int n)
      in (signed (unat months), signed (unat days), signed (unat micros)))"

lemma iso_read_body:
  assumes "read_fields [] body = date_fields months days @ (if micros \<noteq> 0 then (CHR ''T'', []) # time_fields micros else [])"
  shows "iso_read ((if negative then ''-'' else []) @ ''P'' @ body) = reading negative months days micros"
proof -
  let ?fs = "read_fields [] body"
  have date: "takeWhile (\<lambda>f. fst f \<noteq> CHR ''T'') ?fs = date_fields months days"
    and time: "dropWhile (\<lambda>f. fst f \<noteq> CHR ''T'') ?fs = (if micros \<noteq> 0 then (CHR ''T'', []) # time_fields micros else [])"
    unfolding assms using date_no_T [of months days]
    by (simp_all add: takeWhile_append2 dropWhile_append2 del: takeWhile_eq_Nil_iff)
  show ?thesis
  proof (cases "micros = 0")
    case True
    then show ?thesis by (simp add: iso_read_def reading_def Let_def date time date_numbers)
  next
    case False
    with time_numbers [of micros] show ?thesis
      by (simp add: iso_read_def reading_def Let_def date time date_numbers field_skip)
  qed
qed

lemma render_reading:
  assumes "\<not> (iv_months iv = 0 \<and> iv_days iv = 0 \<and> iv_microseconds iv = 0)"
  shows "iso_read (pg_interval_to_iso8601 iv) =
           reading (classify_sign (iv_months iv) (iv_days iv) (iv_microseconds iv) = Negative)
             (unsigned_abs (iv_months iv)) (unsigned_abs (iv_days iv)) (unsigned_abs (iv_microseconds iv))"
proof -
  let ?m = "unsigned_abs (iv_months iv)" and ?d = "unsigned_abs (iv_days iv)" and ?u = "unsigned_abs (iv_microseconds iv)"
  let ?secs = "?u div 1000000" and ?frac = "ucast (?u mod 1000000) :: 32 word"
  let ?time = "if ?u \<noteq> 0 then ''T'' @ field_text (?secs div 3600) (CHR ''H'') @ field_text (?secs mod 3600 div 60) (CHR ''M'') @
     (if ?secs mod 3600 mod 60 \<noteq> 0 \<or> ?frac \<noteq> 0
      then (if ?frac = 0 then show_nat (unat (?secs mod 3600 mod 60)) @ ''S''
            else show_nat (unat (?secs mod 3600 mod 60)) @ ''.'' @ format_frac_micros ?frac @ ''S'') else []) else []"
  let ?body = "field_text (?m div 12) (CHR ''Y'') @ field_text (?m mod 12) (CHR ''M'') @ field_text ?d (CHR ''D'') @ ?time"
  have "read_fields [] ?time = (if ?u \<noteq> 0 then (CHR ''T'', []) # time_fields ?u else [])"
    using render_time [of ?secs ?frac] by (auto simp: time_fields_def Let_def)
  then have "read_fields [] ?body = date_fields ?m ?d @ (if ?u \<noteq> 0 then (CHR ''T'', []) # time_fields ?u else [])"
    by (simp only: render_fields)
  from iso_read_body [OF this] show ?thesis
    using assms by (simp only: pg_interval_to_iso8601_def Let_def if_False)
qed

text \<open>
  C25. An interval survives its rendering as an ISO 8601 duration: reading the text back gives the same
  months, days and microseconds, exactly and for every value of the three fields, the minima
  \<open>i32::MIN\<close> and \<open>i64::MIN\<close> included; only an interval whose components disagree in sign is read as its
  absolute components.
\<close>

theorem interval_roundtrip:
  "iso_read (pg_interval_to_iso8601 iv) =
     (if classify_sign (iv_months iv) (iv_days iv) (iv_microseconds iv) = Mixed
      then (\<bar>sint (iv_months iv)\<bar>, \<bar>sint (iv_days iv)\<bar>, \<bar>sint (iv_microseconds iv)\<bar>)
      else (sint (iv_months iv), sint (iv_days iv), sint (iv_microseconds iv)))"
proof (cases "iv_months iv = 0 \<and> iv_days iv = 0 \<and> iv_microseconds iv = 0")
  case True
  have "iso_read ''PT0S'' = (0, 0, 0)"
    by (simp add: iso_read_def number_char_def is_ascii_digit_def field_def seconds_field_def natural_def digit_val_def)
  with True show ?thesis by (simp add: pg_interval_to_iso8601_def classify_sign_def)
next
  case False
  show ?thesis
    unfolding render_reading [OF False]
    by (auto simp: reading_def Let_def unat_unsigned_abs classify_sign_def split: if_splits)
qed

end
