(* ===== verification/Changes.thy ===== *)
theory Changes
  imports Registration Transaction Cdc
begin

text \<open>
  \<open>src/watch_changes.rs\<close>: the \<open>sql_changes\<close> watch, which emits one event for each row of a keyset query.
  \<open>compile\<close> is \<open>changes_compile\<close>, \<open>poll\<close> is \<open>changes_poll\<close>, and \<open>run\<close> is the step relation \<open>run_step\<close>: one
  attempt to connect, one start query or one tick each.  The database, the clock, \<open>chrono\<close>,
  \<open>serde_json\<close>'s text and BLAKE3 are arguments.
\<close>

section \<open>Specification\<close>

datatype changes_start = LatestStart | BeginningStart

datatype change_op = OpInsert | OpUpdate | OpDelete

definition change_op_of :: "json \<Rightarrow> change_op option" where
  "change_op_of v =
     Option.bind (as_str v) (\<lambda>s.
       let t = map to_ascii_lower s
       in if t = ''insert'' then Some OpInsert else if t = ''update'' then Some OpUpdate
          else if t = ''delete'' then Some OpDelete else None)"

definition change_op_json :: "change_op \<Rightarrow> json" where
  "change_op_json op =
     JStr (case op of OpInsert \<Rightarrow> ''insert'' | OpUpdate \<Rightarrow> ''update'' | OpDelete \<Rightarrow> ''delete'')"

record changes_spec =
  ch_connection :: sql_backend_config
  ch_key_columns :: "str list"
  ch_initial :: "json omap"
  ch_start :: changes_start
  ch_latest_sql :: "str option"
  ch_batch_size :: u32
  ch_interval_ms :: u64
  ch_occurred_at_column :: "str option"
  ch_op_column :: "str option"
  ch_settle_ms :: "u64 option"

record changes_plan =
  pl_stmt :: prepared_stmt
  pl_latest :: "prepared_stmt option"
  pl_key_columns :: "str list"
  pl_initial :: "json list"
  pl_start :: changes_start
  pl_batch_size :: u32
  pl_interval_ms :: u64
  pl_timeout_ms :: u64
  pl_occurred_at_column :: "str option"
  pl_op_column :: "str option"
  pl_settle_ms :: "u64 option"

definition is_column_name :: "str \<Rightarrow> bool" where
  "is_column_name s \<longleftrightarrow> s \<noteq> [] \<and> (\<forall>c \<in> set s. is_ident_byte c)"

definition initial_key :: "changes_spec \<Rightarrow> json list sql_result" where
  "initial_key spec =
     try_map (\<lambda>column.
       case omap_get (ch_initial spec) column of
         Some v \<Rightarrow> if is_null v then Inl (invalid ''initial must give a value for key column'' [column]) else Inr v
       | None \<Rightarrow> Inl (invalid ''initial must give a value for key column'' [column])) (ch_key_columns spec)"

definition allowed_names :: "changes_spec \<Rightarrow> str list" where
  "allowed_names spec =
     map (\<lambda>c. ''_after_'' @ c) (ch_key_columns spec) @ [''_limit''] @
     (if ch_settle_ms spec = None then [] else [''_settle_before''])"

text \<open>The first element that satisfies a condition is an error naming it.\<close>

definition reject_first :: "('a \<Rightarrow> bool) \<Rightarrow> 'a list \<Rightarrow> ('a \<Rightarrow> sql_error) \<Rightarrow> unit sql_result" where
  "reject_first P xs e = (case List.find P xs of Some x \<Rightarrow> Inl (e x) | None \<Rightarrow> Inr ())"

definition compile_latest :: "changes_spec \<Rightarrow> prepared_stmt option sql_result" where
  "compile_latest spec =
     (case ch_latest_sql spec of
        None \<Rightarrow>
          if ch_start spec = LatestStart then Inl (invalid ''start: latest needs latest_sql'' []) else Inr None
      | Some latest_sql \<Rightarrow>
          and_then (reject_multi_statement latest_sql) (\<lambda>_.
          and_then (reject_privileged_ddl latest_sql) (\<lambda>_.
          case rewrite_placeholders latest_sql (cfg_driver (ch_connection spec)) of (rewritten, order) \<Rightarrow>
            (case order of
               name # _ \<Rightarrow> Inl (invalid ''latest_sql takes no placeholders'' [name])
             | [] \<Rightarrow> Inr (Some \<lparr>ps_sql = rewritten, ps_param_order = [], ps_driver = cfg_driver (ch_connection spec)\<rparr>)))))"

definition check_columns :: "changes_spec \<Rightarrow> unit sql_result" where
  "check_columns spec =
     and_then (reject_if (ch_key_columns spec = []) (invalid ''key_columns must name at least one column'' [])) (\<lambda>_.
     reject_first (\<lambda>c. \<not> is_column_name c) (ch_key_columns spec) (\<lambda>c. invalid ''key_columns: not a column name'' [c]))"

definition check_options :: "changes_spec \<Rightarrow> unit sql_result" where
  "check_options spec =
     and_then (reject_if (ch_batch_size spec < 1 \<or> ch_batch_size spec > 500) (invalid ''batch_size must be 1 to 500'' [])) (\<lambda>_.
     and_then (reject_if (ch_interval_ms spec < 100) (invalid ''interval_ms must be at least 100'' [])) (\<lambda>_.
     and_then (reject_first (\<lambda>(_, column). case column of Some c \<Rightarrow> \<not> is_column_name c | None \<Rightarrow> False)
        [(''occurred_at_column'', ch_occurred_at_column spec), (''op_column'', ch_op_column spec)]
        (\<lambda>(field, column). invalid ''not a column name'' (field # (case column of Some c \<Rightarrow> [c] | None \<Rightarrow> [])))) (\<lambda>_.
     reject_if (ch_settle_ms spec = Some 0) (invalid ''settle_ms must be greater than 0'' []))))"

definition changes_compile :: "config_env \<Rightarrow> changes_spec \<Rightarrow> changes_plan sql_result" where
  "changes_compile env spec =
     (let con = ch_connection spec; d = cfg_driver con in
      and_then (sql_backend_config_validate env con) (\<lambda>_.
      and_then (reject_if (query_row_mode (cfg_query con) \<noteq> Many) (invalid ''query.row_mode must be many'' [])) (\<lambda>_.
      case query_body_of (cfg_query con) of
        BodySql sql \<Rightarrow>
          and_then (check_columns spec) (\<lambda>_.
          and_then (initial_key spec) (\<lambda>initial.
          and_then (reject_first (\<lambda>k. k \<notin> set (ch_key_columns spec)) (map fst (ch_initial spec))
             (\<lambda>k. invalid ''initial: not a key column'' [k])) (\<lambda>_.
          and_then (check_options spec) (\<lambda>_.
          and_then (reject_multi_statement sql) (\<lambda>_.
          and_then (reject_privileged_ddl sql) (\<lambda>_.
          case rewrite_placeholders sql d of (rewritten, order) \<Rightarrow>
            and_then (reject_first (\<lambda>name. name \<notin> set (allowed_names spec)) order
               (\<lambda>name. invalid ''query.sql binds a name it may not'' [name])) (\<lambda>_.
            and_then (reject_first (\<lambda>name. name \<notin> set order) (allowed_names spec)
               (\<lambda>name. invalid ''query.sql must bind'' [name])) (\<lambda>_.
            and_then (compile_latest spec) (\<lambda>latest.
            Inr \<lparr>pl_stmt = \<lparr>ps_sql = rewritten, ps_param_order = order, ps_driver = d\<rparr>, pl_latest = latest,
                 pl_key_columns = ch_key_columns spec, pl_initial = initial, pl_start = ch_start spec,
                 pl_batch_size = ch_batch_size spec, pl_interval_ms = ch_interval_ms spec,
                 pl_timeout_ms = (case query_timeout_ms (cfg_query con) of Some t \<Rightarrow> t | None \<Rightarrow> 30000),
                 pl_occurred_at_column = ch_occurred_at_column spec, pl_op_column = ch_op_column spec,
                 pl_settle_ms = ch_settle_ms spec\<rparr>)))))))))
      | _ \<Rightarrow> Inl (invalid ''query needs sql: a keyset SELECT, not a procedure or file'' []))))"

section \<open>Keys, arguments and events\<close>

definition position_of :: "str list \<Rightarrow> str \<Rightarrow> nat" where
  "position_of cs c = (if c \<in> set cs then length (takeWhile (\<lambda>x. x \<noteq> c) cs) else 0)"

text \<open>\<open>settle\<close> is read in whole seconds.\<close>

definition page_args :: "changes_plan \<Rightarrow> json list \<Rightarrow> int \<Rightarrow> bound_param list" where
  "page_args plan key now_secs =
     map (\<lambda>name.
       \<lparr>bp_name = name,
        bp_value =
          (if name = ''_limit'' then json_of_u64 (ucast (pl_batch_size plan))
           else if name = ''_settle_before'' then
             json_of_int (now_secs - (case pl_settle_ms plan of None \<Rightarrow> 0 | Some ms \<Rightarrow> uint ms div 1000))
           else key ! position_of (pl_key_columns plan) (drop 7 name))\<rparr>) (ps_param_order (pl_stmt plan))"

fun opt_list :: "'a option list \<Rightarrow> 'a list option" where
  "opt_list [] = Some []"
| "opt_list (x # xs) = Option.bind x (\<lambda>y. map_option ((#) y) (opt_list xs))"

definition changes_row_key :: "changes_plan \<Rightarrow> json \<Rightarrow> json list option" where
  "changes_row_key plan row =
     opt_list (map (\<lambda>column. Option.bind (json_get row column) (\<lambda>v. if is_null v then None else Some v)) (pl_key_columns plan))"

text \<open>
  \<open>chrono\<close>: RFC 3339 text, naive text in one of two formats, Unix seconds, and the rendering of an
  instant.  An instant is a number.
\<close>

record changes_env =
  cx_rfc3339 :: "str \<Rightarrow> int option"
  cx_naive :: "str \<Rightarrow> str \<Rightarrow> int option"
  cx_timestamp :: "int \<Rightarrow> int option"
  cx_show :: "int \<Rightarrow> str"
  cx_key_text :: "json list \<Rightarrow> str"
  cx_hash_hex :: "str \<Rightarrow> str"
  cx_event_size :: "watch_event \<Rightarrow> nat option"

definition occurred_at :: "changes_env \<Rightarrow> json \<Rightarrow> str option" where
  "occurred_at env v =
     map_option (cx_show env)
       (case v of
          JStr t \<Rightarrow>
            (case cx_rfc3339 env t of
               Some at \<Rightarrow> Some at
             | None \<Rightarrow>
                 (case cx_naive env t ''%Y-%m-%dT%H:%M:%S%.f'' of
                    Some at \<Rightarrow> Some at
                  | None \<Rightarrow> cx_naive env t ''%Y-%m-%d %H:%M:%S%.f''))
        | JNum n \<Rightarrow> Option.bind (as_i64 n) (cx_timestamp env)
        | _ \<Rightarrow> None)"

definition cursor_json :: "json list \<Rightarrow> json" where
  "cursor_json key = json_obj [(''v'', json_of_u64 1), (''k'', JArr key)]"

definition row_event :: "changes_env \<Rightarrow> changes_plan \<Rightarrow> str \<Rightarrow> json \<Rightarrow> json list \<Rightarrow> watch_event option" where
  "row_event env plan uri row key =
     (case (case pl_op_column plan of
              Some column \<Rightarrow> Option.bind (json_get row column) change_op_of
            | None \<Rightarrow> Some OpInsert) of
        None \<Rightarrow> None
      | Some op \<Rightarrow>
          Some (default_event\<lparr>
            ev_event_id := Some (''row-'' @ take 32 (cx_hash_hex env (uri @ [CHR 0x00] @ cx_key_text env key))),
            ev_event_type := Some ''sql.row.changed'',
            ev_occurred_at := Option.bind (pl_occurred_at_column plan) (\<lambda>column. Option.bind (json_get row column) (occurred_at env)),
            ev_data := Some (json_obj [(''op'', change_op_json op), (''row'', row)]),
            ev_upstream_cursor := Some (cursor_json key)\<rparr>))"

text \<open>\<open>serde_json::from_value\<close> of a \<open>Cursor\<close>: from an object, or from a sequence of its fields.\<close>

definition cursor_of_json :: "json \<Rightarrow> (u64 \<times> json list) option" where
  "cursor_of_json v =
     (case (case v of
              JObj m \<Rightarrow> (case (omap_get m ''v'', omap_get m ''k'') of (Some a, Some b) \<Rightarrow> Some (a, b) | _ \<Rightarrow> None)
            | JArr [a, b] \<Rightarrow> Some (a, b)
            | _ \<Rightarrow> None) of
        Some (a, JArr k) \<Rightarrow> map_option (\<lambda>n. (n, k)) (as_u64 a)
      | _ \<Rightarrow> None)"

definition resume_key :: "changes_plan \<Rightarrow> json \<Rightarrow> msg + json list" where
  "resume_key plan resume =
     (case cursor_of_json resume of
        None \<Rightarrow> Inl (Msg ''sql_changes: the stored position is not one this plugin wrote'' [])
      | Some (v, k) \<Rightarrow>
          if v \<noteq> 1 \<or> length k \<noteq> length (pl_key_columns plan)
          then Inl (Msg ''sql_changes: the key changed, so the source starts over under a new event type'' [])
          else Inr k)"

section \<open>Polling\<close>

text \<open>
  The world of one poll: what the database answers to its query number \<open>i\<close> (\<open>None\<close> when the cancellation
  came first), the clock, and whether the watch was cancelled by the end of page \<open>i\<close>.
\<close>

record changes_world =
  cw_query :: "nat \<Rightarrow> bound_param list \<Rightarrow> row_batch sql_result timed option"
  cw_now_secs :: "nat \<Rightarrow> int"
  cw_cancelled :: "nat \<Rightarrow> bool"

definition changes_timed :: "u64 \<Rightarrow> 'a sql_result timed \<Rightarrow> 'a sql_result" where
  "changes_timed limit_ms r = (case r of Answered x \<Rightarrow> x | Elapsed \<Rightarrow> Inl (Timeout limit_ms))"

text \<open>The event of a row, when it is one that is emitted.\<close>

definition emitted_event :: "changes_env \<Rightarrow> changes_plan \<Rightarrow> str \<Rightarrow> json \<Rightarrow> json list \<Rightarrow> watch_event list" where
  "emitted_event env plan uri row key =
     (case row_event env plan uri row key of
        None \<Rightarrow> []
      | Some event \<Rightarrow>
          (case cx_event_size env event of
             Some n \<Rightarrow> if n > 256 * 1024 then [] else [event]
           | None \<Rightarrow> []))"

fun emit_page ::
    "changes_env \<Rightarrow> changes_plan \<Rightarrow> str \<Rightarrow> json list \<Rightarrow> json list \<Rightarrow> json list \<times> watch_event list \<times> unit sql_result" where
  "emit_page env plan uri key [] = (key, [], Inr ())"
| "emit_page env plan uri key (row # rows) =
     (case changes_row_key plan row of
        None \<Rightarrow> (key, [], Inl (invalid ''sql_changes: a row has no value for a key column'' (pl_key_columns plan)))
      | Some nxt \<Rightarrow>
          (case emit_page env plan uri nxt rows of
             (key', evs, r) \<Rightarrow> (key', emitted_event env plan uri row nxt @ evs, r)))"

text \<open>\<open>None\<close> is a poll cut off by the fuel.\<close>

fun changes_poll ::
    "nat \<Rightarrow> changes_env \<Rightarrow> changes_plan \<Rightarrow> str \<Rightarrow> changes_world \<Rightarrow> nat \<Rightarrow> nat \<Rightarrow> json list \<Rightarrow>
     (json list \<times> watch_event list \<times> unit sql_result) option" where
  "changes_poll 0 env plan uri w i count key = None"
| "changes_poll (Suc fuel) env plan uri w i count key =
     (case cw_query w i (page_args plan key (cw_now_secs w i)) of
        None \<Rightarrow> Some (key, [], Inr ())
      | Some answer \<Rightarrow>
          (case changes_timed (pl_timeout_ms plan) answer of
             Inl e \<Rightarrow> Some (key, [], Inl e)
           | Inr batch \<Rightarrow>
               (case emit_page env plan uri key (take (unat (pl_batch_size plan)) (rb_rows batch)) of
                  (key', evs, Inl e) \<Rightarrow> Some (key', evs, Inl e)
                | (key', evs, Inr _) \<Rightarrow>
                    if length (rb_rows batch) < unat (pl_batch_size plan) \<or> count + length evs \<ge> 500 \<or> cw_cancelled w i
                    then Some (key', evs, Inr ())
                    else map_option (\<lambda>(k, evs', r). (k, evs @ evs', r))
                           (changes_poll fuel env plan uri w (Suc i) (count + length evs) key'))))"

definition start_key :: "changes_plan \<Rightarrow> row_batch sql_result timed option \<Rightarrow> json list option sql_result" where
  "start_key plan answer =
     (case (pl_latest plan, pl_start plan) of
        (Some latest, LatestStart) \<Rightarrow>
          (case answer of
             None \<Rightarrow> Inr None
           | Some a \<Rightarrow>
               and_then (changes_timed (pl_timeout_ms plan) a) (\<lambda>batch.
                 Inr (Some (case rb_rows batch of
                        [] \<Rightarrow> pl_initial plan
                      | row # _ \<Rightarrow> (case changes_row_key plan row of Some k \<Rightarrow> k | None \<Rightarrow> pl_initial plan)))))
      | _ \<Rightarrow> Inr (Some (pl_initial plan)))"

section \<open>Running\<close>

definition backoff_delay_secs :: "u32 \<Rightarrow> nat" where
  "backoff_delay_secs attempts = min (2 ^ min (unat attempts) 6) 60"

definition backoff_next :: "u32 \<Rightarrow> u32" where
  "backoff_next attempts = (if attempts = - 1 then attempts else attempts + 1)"

datatype run_phase = Connecting | Starting | Polling "json list" | RunStopped

record changes_run =
  cr_phase :: run_phase
  cr_backoff :: u32
  cr_emitted :: "watch_event list"

definition after_connect :: "json list option \<Rightarrow> run_phase" where
  "after_connect resume = (case resume of Some key \<Rightarrow> Polling key | None \<Rightarrow> Starting)"

text \<open>Each step is one turn of a loop of \<open>run\<close>; an attempt that fails waits and is tried again.\<close>

inductive run_step ::
    "changes_env \<Rightarrow> changes_plan \<Rightarrow> str \<Rightarrow> json list option \<Rightarrow> (changes_world \<Rightarrow> bool) \<Rightarrow> changes_run \<Rightarrow> changes_run \<Rightarrow> bool"
  for env plan uri resume honest where
  connect_failed: "cr_phase s = Connecting \<Longrightarrow> run_step env plan uri resume honest s (s\<lparr>cr_backoff := backoff_next (cr_backoff s)\<rparr>)"
| connected: "cr_phase s = Connecting \<Longrightarrow>
     run_step env plan uri resume honest s (s\<lparr>cr_phase := after_connect resume, cr_backoff := 0\<rparr>)"
| start_failed: "cr_phase s = Starting \<Longrightarrow> start_key plan answer = Inl e \<Longrightarrow>
     run_step env plan uri resume honest s (s\<lparr>cr_backoff := backoff_next (cr_backoff s)\<rparr>)"
| started: "cr_phase s = Starting \<Longrightarrow> start_key plan answer = Inr (Some key) \<Longrightarrow>
     run_step env plan uri resume honest s (s\<lparr>cr_phase := Polling key\<rparr>)"
| start_cancelled: "cr_phase s = Starting \<Longrightarrow> start_key plan answer = Inr None \<Longrightarrow>
     run_step env plan uri resume honest s (s\<lparr>cr_phase := RunStopped\<rparr>)"
| tick: "cr_phase s = Polling key \<Longrightarrow> honest w \<Longrightarrow> changes_poll fuel env plan uri w 0 0 key = Some (key', evs, r) \<Longrightarrow>
     run_step env plan uri resume honest s
       (s\<lparr>cr_phase := Polling key', cr_emitted := cr_emitted s @ evs, cr_backoff := (if is_ok r then 0 else cr_backoff s)\<rparr>)"
| cancelled: "run_step env plan uri resume honest s (s\<lparr>cr_phase := RunStopped\<rparr>)"

inductive_cases run_stepE: "run_step env plan uri resume honest s t"

section \<open>A keyset and what is emitted of it\<close>

text \<open>
  The rows of the source in key order, \<open>rows j\<close> the \<open>j\<close>-th of them, most of which may not exist yet, and
  the position behind a key: the number of rows up to it.  The query is honest when it answers, if it
  answers, a run of consecutive rows from the position behind the key it was given.
\<close>

definition keyset_rows :: "changes_plan \<Rightarrow> (nat \<Rightarrow> json) \<Rightarrow> (json list \<Rightarrow> nat) \<Rightarrow> bool" where
  "keyset_rows plan rows behind \<longleftrightarrow> (\<forall>j k. changes_row_key plan (rows j) = Some k \<longrightarrow> behind k = Suc j)"

definition honest_query :: "changes_plan \<Rightarrow> (nat \<Rightarrow> json) \<Rightarrow> (json list \<Rightarrow> nat) \<Rightarrow> changes_world \<Rightarrow> bool" where
  "honest_query plan rows behind w \<longleftrightarrow>
     (\<forall>i key now batch. cw_query w i (page_args plan key now) = Some (Answered (Inr batch)) \<longrightarrow>
        (\<exists>m. rb_rows batch = map rows [behind key ..< behind key + m]))"

text \<open>
  What is to be reported of a row: the operation its operation column names, an insert where there is no
  such column, and the row itself, under an identity that is a function of the watch and the key, with
  the key as the position behind it.
\<close>

definition reported_op :: "changes_plan \<Rightarrow> json \<Rightarrow> str option" where
  "reported_op plan row =
     (case pl_op_column plan of
        None \<Rightarrow> Some ''insert''
      | Some column \<Rightarrow>
          (case json_get row column of
             Some (JStr s) \<Rightarrow>
               if map to_ascii_lower s \<in> {''insert'', ''update'', ''delete''} then Some (map to_ascii_lower s) else None
           | _ \<Rightarrow> None))"

definition reported_event :: "changes_env \<Rightarrow> changes_plan \<Rightarrow> str \<Rightarrow> json \<Rightarrow> json list \<Rightarrow> str \<Rightarrow> watch_event" where
  "reported_event env plan uri row key op =
     \<lparr>ev_event_id = Some (''row-'' @ take 32 (cx_hash_hex env (uri @ [CHR 0x00] @ cx_key_text env key))),
      ev_event_type = Some ''sql.row.changed'',
      ev_occurred_at = Option.bind (pl_occurred_at_column plan) (\<lambda>column. Option.bind (json_get row column) (occurred_at env)),
      ev_data = Some (json_obj [(''op'', JStr op), (''row'', row)]),
      ev_upstream_cursor = Some (json_obj [(''v'', json_of_u64 1), (''k'', JArr key)]), ev_gap = False\<rparr>"

text \<open>An event is left out when it has no text or more than 256 KiB of it.\<close>

definition deliverable :: "changes_env \<Rightarrow> watch_event \<Rightarrow> bool" where
  "deliverable env e = (case cx_event_size env e of Some n \<Rightarrow> n \<le> 262144 | None \<Rightarrow> False)"

definition reports :: "changes_env \<Rightarrow> changes_plan \<Rightarrow> str \<Rightarrow> json \<Rightarrow> watch_event list" where
  "reports env plan uri row =
     [reported_event env plan uri row key op.
        key \<leftarrow> (case changes_row_key plan row of Some k \<Rightarrow> [k] | None \<Rightarrow> []),
        op \<leftarrow> (case reported_op plan row of Some o' \<Rightarrow> [o'] | None \<Rightarrow> []),
        deliverable env (reported_event env plan uri row key op)]"

lemma change_op_reported:
  "map_option change_op_json
     (case pl_op_column plan of Some column \<Rightarrow> Option.bind (json_get row column) change_op_of | None \<Rightarrow> Some OpInsert) =
   map_option JStr (reported_op plan row)"
proof (cases "pl_op_column plan")
  case (Some column)
  then show ?thesis
    by (cases "json_get row column"; cases "the (json_get row column)")
       (simp_all add: reported_op_def change_op_of_def change_op_json_def as_str_def Let_def)
qed (simp add: reported_op_def change_op_json_def)

lemma emitted_event_reports:
  assumes "changes_row_key plan row = Some key"
  shows "emitted_event env plan uri row key = reports env plan uri row"
proof -
  let ?op = "case pl_op_column plan of Some column \<Rightarrow> Option.bind (json_get row column) change_op_of | None \<Rightarrow> Some OpInsert"
  have ev: "row_event env plan uri row key = map_option (reported_event env plan uri row key) (reported_op plan row)"
  proof (cases ?op)
    case None
    then have "reported_op plan row = None" using change_op_reported [of row plan] by (cases "reported_op plan row") simp_all
    with None show ?thesis by (simp add: row_event_def)
  next
    case (Some op)
    then obtain t where t: "reported_op plan row = Some t" "change_op_json op = JStr t"
      using change_op_reported [of row plan] by (cases "reported_op plan row") simp_all
    with Some show ?thesis by (simp add: row_event_def reported_event_def default_event_def cursor_json_def)
  qed
  show ?thesis
    by (cases "reported_op plan row") (auto simp: emitted_event_def reports_def assms ev deliverable_def split: option.splits)
qed

text \<open>The rows of a range all have a key: a row without one stops the watch in front of it.\<close>

definition keyed :: "changes_plan \<Rightarrow> (nat \<Rightarrow> json) \<Rightarrow> nat \<Rightarrow> nat \<Rightarrow> bool" where
  "keyed plan rows p q \<longleftrightarrow> (\<forall>j \<in> {p..<q}. changes_row_key plan (rows j) \<noteq> None)"

lemma keyed_append: "keyed plan rows p q \<Longrightarrow> keyed plan rows q r \<Longrightarrow> keyed plan rows p r"
  by (auto simp: keyed_def)

definition range_events :: "changes_env \<Rightarrow> changes_plan \<Rightarrow> str \<Rightarrow> (nat \<Rightarrow> json) \<Rightarrow> nat \<Rightarrow> nat \<Rightarrow> watch_event list" where
  "range_events env plan uri rows p q = concat (map (\<lambda>j. reports env plan uri (rows j)) [p..<q])"

lemma range_events_append:
  "p \<le> q \<Longrightarrow> q \<le> r \<Longrightarrow> range_events env plan uri rows p q @ range_events env plan uri rows q r = range_events env plan uri rows p r"
  using upt_add_eq_append [of p q "r - q"] by (simp add: range_events_def flip: concat_append map_append)

lemma emit_page_range:
  assumes "keyset_rows plan rows behind"
  shows "emit_page env plan uri key (map rows [p..<p + m]) = (key', evs, r) \<Longrightarrow> behind key = p \<Longrightarrow>
         p \<le> behind key' \<and> behind key' \<le> p + m \<and> evs = range_events env plan uri rows p (behind key')
           \<and> keyed plan rows p (behind key') \<and> (is_ok r \<longrightarrow> behind key' = p + m)"
proof (induction m arbitrary: p key evs)
  case 0
  then show ?case by (auto simp: range_events_def keyed_def)
next
  case (Suc m)
  have up: "map rows [p..<p + Suc m] = rows p # map rows [Suc p..<Suc p + m]" by (simp add: upt_conv_Cons del: upt_Suc)
  show ?case
  proof (cases "changes_row_key plan (rows p)")
    case None
    with Suc.prems show ?thesis unfolding up by (auto simp: range_events_def keyed_def is_ok_def)
  next
    case (Some k)
    then have k: "behind k = Suc p" using assms by (simp add: keyset_rows_def)
    obtain evs' where rest: "emit_page env plan uri k (map rows [Suc p..<Suc p + m]) = (key', evs', r)"
      and evs: "evs = emitted_event env plan uri (rows p) k @ evs'"
      using Suc.prems(1) Some unfolding up by (auto split: prod.splits)
    have "emitted_event env plan uri (rows p) k = range_events env plan uri rows p (Suc p)"
      by (simp add: range_events_def emitted_event_reports [OF Some])
    moreover have "keyed plan rows p (Suc p)" using Some by (simp add: keyed_def)
    ultimately show ?thesis
      using Suc.IH [OF rest k] evs keyed_append [of plan rows p "Suc p" "behind key'"] range_events_append [of p "Suc p" "behind key'" env plan uri rows] by auto
  qed
qed

lemma take_range: "take n (map f [p..<p + m]) = map f [p..<p + min n m]"
  by (simp add: take_map take_upt min_def)

text \<open>A poll whose query answered: it ends with the page or goes on behind it.\<close>

lemma poll_page:
  assumes "cw_query w i (page_args plan key (cw_now_secs w i)) = Some (Answered (Inr batch))"
    and "emit_page env plan uri key (take (unat (pl_batch_size plan)) (rb_rows batch)) = (k1, evs1, r1)"
  shows "changes_poll (Suc fuel) env plan uri w i count key =
     (if is_ok r1 \<and> \<not> (length (rb_rows batch) < unat (pl_batch_size plan) \<or> count + length evs1 \<ge> 500 \<or> cw_cancelled w i)
      then map_option (\<lambda>(k, evs', r). (k, evs1 @ evs', r)) (changes_poll fuel env plan uri w (Suc i) (count + length evs1) k1)
      else Some (k1, evs1, r1))"
  using assms by (cases r1) (simp_all add: changes_timed_def is_ok_def)

text \<open>A poll whose query did not answer: it ends where it is.\<close>

lemma poll_no_page:
  assumes "\<nexists>batch. cw_query w i (page_args plan key (cw_now_secs w i)) = Some (Answered (Inr batch))"
  shows "\<exists>r. changes_poll (Suc fuel) env plan uri w i count key = Some (key, [], r)"
  using assms by (auto simp: changes_timed_def split: option.splits timed.splits sum.splits)

lemma poll_range:
  assumes "keyset_rows plan rows behind" and "honest_query plan rows behind w"
  shows "changes_poll fuel env plan uri w i count key = Some (key', evs, r) \<Longrightarrow>
         behind key \<le> behind key' \<and> evs = range_events env plan uri rows (behind key) (behind key')
           \<and> keyed plan rows (behind key) (behind key')"
proof (induction fuel arbitrary: i count key evs)
  case (Suc fuel)
  let ?n = "unat (pl_batch_size plan)"
  show ?case
  proof (cases "\<exists>batch. cw_query w i (page_args plan key (cw_now_secs w i)) = Some (Answered (Inr batch))")
    case False
    from poll_no_page [OF this, of fuel env uri count] Suc.prems show ?thesis by (auto simp: range_events_def keyed_def)
  next
    case True
    then obtain batch where q: "cw_query w i (page_args plan key (cw_now_secs w i)) = Some (Answered (Inr batch))" ..
    then obtain m where m: "rb_rows batch = map rows [behind key ..< behind key + m]"
      using assms(2) unfolding honest_query_def by blast
    obtain k1 evs1 r1 where page: "emit_page env plan uri key (take ?n (rb_rows batch)) = (k1, evs1, r1)"
      by (cases "emit_page env plan uri key (take ?n (rb_rows batch))") auto
    have one: "behind key \<le> behind k1 \<and> evs1 = range_events env plan uri rows (behind key) (behind k1)
        \<and> keyed plan rows (behind key) (behind k1)"
      using emit_page_range [OF assms(1), of env uri key "behind key" "min ?n m" k1 evs1 r1] page
      by (simp add: m take_range)
    show ?thesis
    proof (cases "is_ok r1 \<and> \<not> (length (rb_rows batch) < ?n \<or> count + length evs1 \<ge> 500 \<or> cw_cancelled w i)")
      case False
      then have "Some (k1, evs1, r1) = Some (key', evs, r)"
        using Suc.prems unfolding poll_page [OF q page] by (simp only: if_False)
      then have "k1 = key'" and "evs1 = evs" by simp_all
      with one show ?thesis by blast
    next
      case True
      then have "map_option (\<lambda>(k, evs', r). (k, evs1 @ evs', r)) (changes_poll fuel env plan uri w (Suc i) (count + length evs1) k1)
          = Some (key', evs, r)"
        using Suc.prems unfolding poll_page [OF q page] by (simp only: if_True simp_thms)
      then obtain evs2 where more: "changes_poll fuel env plan uri w (Suc i) (count + length evs1) k1 = Some (key', evs2, r)"
        and evs: "evs = evs1 @ evs2"
        by (auto simp: map_option_eq_Some)
      from Suc.IH [OF more] one evs show ?thesis by (auto simp: range_events_append intro: keyed_append)
    qed
  qed
qed simp

section \<open>The watch\<close>

text \<open>A run, seen from the moment it polls after \<open>key0\<close>.\<close>

definition run_inv ::
    "changes_env \<Rightarrow> changes_plan \<Rightarrow> str \<Rightarrow> (nat \<Rightarrow> json) \<Rightarrow> (json list \<Rightarrow> nat) \<Rightarrow> json list \<Rightarrow> changes_run \<Rightarrow> bool" where
  "run_inv env plan uri rows behind key0 s \<longleftrightarrow>
     (case cr_phase s of
        Polling key \<Rightarrow>
          behind key0 \<le> behind key \<and> cr_emitted s = range_events env plan uri rows (behind key0) (behind key) \<and>
          keyed plan rows (behind key0) (behind key)
      | RunStopped \<Rightarrow> \<exists>q \<ge> behind key0. cr_emitted s = range_events env plan uri rows (behind key0) q
      | _ \<Rightarrow> False)"

definition run_init :: "json list \<Rightarrow> changes_run \<Rightarrow> bool" where
  "run_init key0 s \<longleftrightarrow> cr_phase s = Polling key0 \<and> cr_emitted s = []"

lemma run_inv_step:
  assumes "keyset_rows plan rows behind" and inv: "run_inv env plan uri rows behind key0 s"
    and st: "run_step env plan uri resume (honest_query plan rows behind) s t"
  shows "run_inv env plan uri rows behind key0 t"
  using st
proof cases
  case (tick key w fuel key' evs r)
  then have "behind key \<le> behind key' \<and> evs = range_events env plan uri rows (behind key) (behind key')
      \<and> keyed plan rows (behind key) (behind key')"
    using poll_range [OF assms(1)] by blast
  with tick inv show ?thesis by (auto simp: run_inv_def range_events_append intro: keyed_append)
next
  case cancelled
  with inv show ?thesis by (cases "cr_phase s") (auto simp: run_inv_def)
qed (use inv in \<open>auto simp: run_inv_def split: run_phase.splits\<close>)

interpretation watch: transition_invariant "run_init key0"
    "run_step env plan uri resume (honest_query plan rows behind)"
    "\<lambda>s. keyset_rows plan rows behind \<longrightarrow> run_inv env plan uri rows behind key0 s"
    for env plan uri resume rows behind key0
  by unfold_locales (auto simp: run_init_def run_inv_def range_events_def keyed_def dest: run_inv_step)

lemma opt_list_length: "opt_list xs = Some ys \<Longrightarrow> length ys = length xs"
  by (induction xs arbitrary: ys) (auto simp: bind_eq_Some_conv)

lemma resume_cursor: "length k = length (pl_key_columns plan) \<Longrightarrow> resume_key plan (cursor_json k) = Inr k"
  by (simp add: resume_key_def cursor_of_json_def cursor_json_def json_obj_def omap_get_def)

lemma reports_resume:
  assumes "keyset_rows plan rows behind" and "e \<in> set (reports env plan uri (rows j))"
  shows "\<exists>c k. ev_upstream_cursor e = Some c \<and> resume_key plan c = Inr k \<and> behind k = Suc j"
proof -
  obtain k where k: "changes_row_key plan (rows j) = Some k" and "ev_upstream_cursor e = Some (cursor_json k)"
    using assms(2)
    by (cases "changes_row_key plan (rows j)"; cases "reported_op plan (rows j)")
       (simp_all add: reports_def reported_event_def cursor_json_def split: if_splits)
  moreover have "resume_key plan (cursor_json k) = Inr k"
    using opt_list_length [OF k [unfolded changes_row_key_def]] by (intro resume_cursor) simp
  ultimately show ?thesis using assms(1) k by (auto simp: keyset_rows_def)
qed


lemma poll_returns:
  assumes "keyset_rows plan rows behind" and "honest_query plan rows behind w" and "pl_batch_size plan \<noteq> 0"
    and bound: "\<And>i key now batch. cw_query w i (page_args plan key now) = Some (Answered (Inr batch)) \<Longrightarrow> behind key \<le> n \<Longrightarrow>
      behind key + length (rb_rows batch) \<le> n"
  shows "n < behind key + fuel \<Longrightarrow> behind key \<le> n \<Longrightarrow> changes_poll fuel env plan uri w i count key \<noteq> None"
proof (induction fuel arbitrary: i count key)
  case (Suc fuel)
  let ?n = "unat (pl_batch_size plan)"
  show ?case
  proof (cases "\<exists>batch. cw_query w i (page_args plan key (cw_now_secs w i)) = Some (Answered (Inr batch))")
    case False
    from poll_no_page [OF this, of fuel env uri count] show ?thesis by (auto simp del: changes_poll.simps)
  next
    case True
    then obtain batch where q: "cw_query w i (page_args plan key (cw_now_secs w i)) = Some (Answered (Inr batch))" ..
    then obtain m where m: "rb_rows batch = map rows [behind key ..< behind key + m]"
      using assms(2) unfolding honest_query_def by blast
    obtain k1 evs1 r1 where page: "emit_page env plan uri key (take ?n (rb_rows batch)) = (k1, evs1, r1)"
      by (cases "emit_page env plan uri key (take ?n (rb_rows batch))") auto
    have "behind k1 = behind key + min ?n m" if "is_ok r1"
      using emit_page_range [OF assms(1), of env uri key "behind key" "min ?n m" k1 evs1 r1] page that
      by (simp add: m take_range)
    moreover have "behind key + m \<le> n" using bound [OF q Suc.prems(2)] by (simp add: m)
    moreover have "0 < ?n" using assms(3) by (simp add: unat_gt_0)
    ultimately have "changes_poll fuel env plan uri w (Suc i) (count + length evs1) k1 \<noteq> None"
      if "is_ok r1" and "\<not> length (rb_rows batch) < ?n"
      using that Suc.prems by (intro Suc.IH) (auto simp: m)
    then show ?thesis unfolding poll_page [OF q page] by auto
  qed
qed simp

text \<open>
  A poll ends: when the rows the source can show during it are the first \<open>n\<close>, it returns within
  \<open>n - behind key + 1\<close> queries, even if every row is skipped.
\<close>

theorem changes_poll_ends:
  assumes "keyset_rows plan rows behind" and "honest_query plan rows behind w" and "pl_batch_size plan \<noteq> 0"
    and "\<forall>i key now batch. cw_query w i (page_args plan key now) = Some (Answered (Inr batch)) \<longrightarrow>
           behind key \<le> n \<longrightarrow> behind key + length (rb_rows batch) \<le> n"
    and "behind key \<le> n"
  shows "\<exists>key' evs r. changes_poll (Suc (n - behind key)) env plan uri w 0 0 key = Some (key', evs, r)"
  using poll_returns [OF assms(1-3), of n key "Suc (n - behind key)" env uri 0 0] assms(4,5) by auto

text \<open>A source of three rows keyed by a text column, and its query.\<close>

definition sample_plan :: changes_plan where
  "sample_plan =
     \<lparr>pl_stmt = \<lparr>ps_sql = ''SELECT id FROM t WHERE id > $1 ORDER BY id LIMIT $2'', ps_param_order = [''_after_id'', ''_limit''], ps_driver = Postgres\<rparr>,
      pl_latest = None, pl_key_columns = [''id''], pl_initial = [JStr []], pl_start = BeginningStart, pl_batch_size = 2,
      pl_interval_ms = 1000, pl_timeout_ms = 30000, pl_occurred_at_column = None, pl_op_column = None, pl_settle_ms = None\<rparr>"

definition sample_rows :: "nat \<Rightarrow> json" where
  "sample_rows j = JObj [(''id'', JStr (show_nat j))]"

definition key_position :: "json \<Rightarrow> nat" where
  "key_position v = (case v of JStr t \<Rightarrow> (case parse_radix 10 t of Some j \<Rightarrow> Suc j | None \<Rightarrow> 0) | _ \<Rightarrow> 0)"

definition sample_world :: changes_world where
  "sample_world =
     \<lparr>cw_query = (\<lambda>i args.
        let p = key_position (bp_value (hd args))
        in Some (Answered (Inr \<lparr>rb_columns = [''id''], rb_rows = map sample_rows [p..<p + min 2 (3 - p)], rb_rows_affected = None,
                                rb_truncated = False, rb_has_more = False\<rparr>))),
      cw_now_secs = (\<lambda>_. 0), cw_cancelled = (\<lambda>_. False)\<rparr>"

definition sample_changes_env :: changes_env where
  "sample_changes_env =
     \<lparr>cx_rfc3339 = (\<lambda>_. None), cx_naive = (\<lambda>_ _. None), cx_timestamp = Some, cx_show = (\<lambda>_. []), cx_key_text = (\<lambda>_. []),
      cx_hash_hex = (\<lambda>s. s), cx_event_size = (\<lambda>_. Some 100)\<rparr>"

lemma sample_keyset: "keyset_rows sample_plan sample_rows (\<lambda>k. key_position (k ! 0))"
  by (simp add: keyset_rows_def changes_row_key_def sample_plan_def sample_rows_def omap_get_def is_null_def key_position_def show_nat_def)

lemma sample_honest: "honest_query sample_plan sample_rows (\<lambda>k. key_position (k ! 0)) sample_world"
  by (auto simp: honest_query_def sample_world_def page_args_def sample_plan_def position_of_def Let_def)

lemma sample_start: "key_position ([JStr []] ! 0) = 0"
  by (simp add: key_position_def parse_radix_def strip_plus_def)

lemma sample_visible:
  "\<forall>i key now batch. cw_query sample_world i (page_args sample_plan key now) = Some (Answered (Inr batch)) \<longrightarrow>
     key_position (key ! 0) \<le> 3 \<longrightarrow> key_position (key ! 0) + length (rb_rows batch) \<le> 3"
  by (auto simp: sample_world_def page_args_def sample_plan_def position_of_def Let_def)

lemma sample_batch_size: "pl_batch_size sample_plan \<noteq> 0"
  by (simp add: sample_plan_def)

lemma sample_poll: "\<exists>key' evs r. changes_poll 4 sample_changes_env sample_plan ''sql://t'' sample_world 0 0 [JStr []] = Some (key', evs, r)"
proof -
  have "changes_poll 4 sample_changes_env sample_plan ''sql://t'' sample_world 0 0 [JStr []] \<noteq> None"
  proof (rule poll_returns [OF sample_keyset sample_honest sample_batch_size, of 3])
    show "3 < key_position ([JStr []] ! 0) + 4" and "key_position ([JStr []] ! 0) \<le> 3"
      unfolding sample_start by simp_all
  qed (use sample_visible in blast)
  then show ?thesis by auto
qed

lemma changes_poll_ends_witness:
  "\<exists>key' evs r. changes_poll (Suc (3 - 0)) sample_changes_env sample_plan ''sql://t'' sample_world 0 0 [JStr []] = Some (key', evs, r)"
  using changes_poll_ends [OF sample_keyset sample_honest sample_batch_size sample_visible, of "[JStr []]"]
  unfolding sample_start by blast


end
