(* ===== verification/Listen.thy ===== *)
theory Listen
  imports Cdc
begin

text \<open>
  \<open>src/watch_pg_listen.rs\<close>: the LISTEN/NOTIFY watch.  The spec and its check, the match of a payload with
  a watched URI, the event of a notification, the loop of a watch, and the sharing of one connection
  by the watches on a channel (\<open>listeners_step\<close>).  The broadcast channel between the connection and a
  watch is \<open>tokio\<close>'s: what a receiver sees, with a buffer of 1024 messages, is \<open>receives\<close>.
\<close>

section \<open>Specification\<close>

record uri_match =
  um_payload_field :: str
  um_uris :: "str list"

record listen_spec =
  ln_url :: str
  ln_channel :: str
  ln_uri_match :: "uri_match option"

text \<open>\<open>str::replace\<close>: non-overlapping occurrences from the left.\<close>

function replace_all :: "str \<Rightarrow> str \<Rightarrow> str \<Rightarrow> str" where
  "replace_all pat rep s =
     (case s of
        [] \<Rightarrow> []
      | c # cs \<Rightarrow>
          if pat \<noteq> [] \<and> prefix pat s then rep @ replace_all pat rep (drop (length pat) s)
          else c # replace_all pat rep cs)"
  by auto
termination
  by (relation "measure (\<lambda>(_, _, s). length s)") (auto simp: neq_Nil_conv)

declare replace_all.simps [simp del]

definition value_mark :: str where
  "value_mark = ''{value}''"

definition uri_matches :: "(str \<Rightarrow> json option) \<Rightarrow> (number \<Rightarrow> str) \<Rightarrow> uri_match \<Rightarrow> str \<Rightarrow> str \<Rightarrow> bool" where
  "uri_matches from_str number_text m payload uri =
     (case from_str payload of
        None \<Rightarrow> False
      | Some v \<Rightarrow>
          (case (case json_get v (um_payload_field m) of
                   Some (JStr s) \<Rightarrow> Some s
                 | Some (JNum n) \<Rightarrow> Some (number_text n)
                 | _ \<Rightarrow> None) of
             None \<Rightarrow> False
           | Some val \<Rightarrow> (\<exists>pat \<in> set (um_uris m). replace_all value_mark val pat = uri)))"

definition listen_validate :: "listen_spec \<Rightarrow> unit sql_result" where
  "listen_validate spec =
     and_then
       (case ln_uri_match spec of
          None \<Rightarrow> Inr ()
        | Some m \<Rightarrow>
            and_then (reject_if (is_blank (um_payload_field m)) (invalid ''watch.uri_match.payload_field must not be empty'' [])) (\<lambda>_.
            reject_if (um_uris m = [] \<or> (\<exists>u \<in> set (um_uris m). \<not> sublist value_mark u))
              (invalid ''watch.uri_match.uris must be non-empty, each with `{value}`'' []))) (\<lambda>_.
     and_then (reject_if (is_blank (ln_url spec)) (invalid ''watch.url must not be empty'' [])) (\<lambda>_.
     and_then (reject_if (is_blank (ln_channel spec)) (invalid ''watch.channel must not be empty'' [])) (\<lambda>_.
     reject_if (\<exists>c \<in> set (ln_channel spec). \<not> is_ident_byte c)
       (invalid ''watch.channel must be ASCII alphanumeric + underscore'' [ln_channel spec]))))"

section \<open>Events\<close>

text \<open>The fields of \<open>WatchEvent\<close> this strategy sets, beside those of the others.\<close>

record listen_event =
  le_user_id :: "str option"
  le_session_id :: "str option"
  le_event :: watch_event

record listen_env =
  lx_from_str :: "str \<Rightarrow> json option"
  lx_number_text :: "number \<Rightarrow> str"
  lx_event_body :: "str \<Rightarrow> json \<times> str"

definition payload_field :: "listen_env \<Rightarrow> str \<Rightarrow> str \<Rightarrow> str option" where
  "payload_field env payload name =
     Option.bind (lx_from_str env payload) (\<lambda>v. Option.bind (json_get v name) as_str)"

definition event_from_payload :: "listen_env \<Rightarrow> str \<Rightarrow> str \<Rightarrow> bool \<Rightarrow> listen_event" where
  "event_from_payload env channel payload event_source =
     \<lparr>le_user_id = payload_field env payload ''user_id'', le_session_id = payload_field env payload ''session_id'',
      le_event =
        (if event_source then
           (case lx_event_body env payload of (body, encoding) \<Rightarrow>
              default_event\<lparr>
                ev_event_type := Some ''postgres.notification'',
                ev_data := Some (json_obj [(''channel'', JStr channel), (''payload'', body), (''payloadEncoding'', JStr encoding)])\<rparr>)
         else default_event)\<rparr>"

section \<open>The loop of a watch\<close>

type_synonym notification = "str \<times> str"

datatype recv = ROk notification | RLagged nat | RClosed

definition concerns :: "listen_env \<Rightarrow> uri_match option \<Rightarrow> str \<Rightarrow> notification \<Rightarrow> bool" where
  "concerns env um uri n =
     (case um of None \<Rightarrow> True | Some m \<Rightarrow> uri_matches (lx_from_str env) (lx_number_text env) m (snd n) uri)"

text \<open>The events a watch emits for what it receives, up to its cancellation or the end of the channel.\<close>

fun watch_loop :: "listen_env \<Rightarrow> uri_match option \<Rightarrow> str \<Rightarrow> str \<Rightarrow> bool \<Rightarrow> recv list \<Rightarrow> listen_event list" where
  "watch_loop env um uri channel event_source [] = []"
| "watch_loop env um uri channel event_source (r # rs) =
     (case r of
        ROk (ch, payload) \<Rightarrow>
          (if concerns env um uri (ch, payload) then [event_from_payload env ch payload event_source] else []) @
          watch_loop env um uri channel event_source rs
      | RLagged missed \<Rightarrow>
          event_from_payload env channel [] event_source # watch_loop env um uri channel event_source rs
      | RClosed \<Rightarrow> [])"

text \<open>
  The task of the connection: it passes on what \<open>PgListener::recv\<close> answers, up to the first error, after
  which it waits for its cancellation.
\<close>

fun listener_task :: "('e + notification) list \<Rightarrow> notification list" where
  "listener_task [] = []"
| "listener_task (answer # answers) = (case answer of Inr n \<Rightarrow> n # listener_task answers | Inl e \<Rightarrow> [])"

definition NOTIFICATION_BUFFER :: nat where
  "NOTIFICATION_BUFFER = 1024"

text \<open>
  A channel of \<open>tokio::sync::broadcast\<close> keeps the last messages up to its capacity.  A receiver at position
  \<open>pos\<close> of what was sent gets the next message; one that is further behind than the capacity is told how many
  it missed and goes on with the oldest that is kept.
\<close>

datatype channel_step = Sent notification | Polled

fun receives :: "notification list \<Rightarrow> nat \<Rightarrow> channel_step list \<Rightarrow> recv list" where
  "receives sent pos [] = []"
| "receives sent pos (Sent n # steps) = receives (sent @ [n]) pos steps"
| "receives sent pos (Polled # steps) =
     (if pos < length sent - NOTIFICATION_BUFFER
      then RLagged (length sent - NOTIFICATION_BUFFER - pos) # receives sent (length sent - NOTIFICATION_BUFFER) steps
      else if pos < length sent then ROk (sent ! pos) # receives sent (Suc pos) steps
      else receives sent pos steps)"

definition sent_of :: "channel_step list \<Rightarrow> notification list" where
  "sent_of steps = List.map_filter (\<lambda>x. case x of Sent n \<Rightarrow> Some n | Polled \<Rightarrow> None) steps"

lemma sent_of_simps [simp]:
  "sent_of [] = []" "sent_of (Sent n # steps) = n # sent_of steps" "sent_of (Polled # steps) = sent_of steps"
  by (simp_all add: sent_of_def map_filter_def)

text \<open>Having received \<open>rs\<close>, a watch has passed the messages \<open>passed\<close>, each delivered or in a run it was told it missed.\<close>

inductive received :: "notification list \<Rightarrow> recv list \<Rightarrow> bool" where
  received_none: "received [] []"
| received_ok: "received passed rs \<Longrightarrow> received (n # passed) (ROk n # rs)"
| received_lag: "received passed rs \<Longrightarrow> missed \<noteq> [] \<Longrightarrow> received (missed @ passed) (RLagged (length missed) # rs)"

lemma receives_order:
  "pos \<le> length sent \<Longrightarrow>
     \<exists>passed. received passed (receives sent pos steps) \<and> prefix passed (drop pos sent @ sent_of steps)"
proof (induction sent pos steps rule: receives.induct)
  case (1 sent pos)
  then show ?case by (auto intro: received_none)
next
  case (2 sent pos n steps)
  then show ?case by simp
next
  case (3 sent pos steps)
  let ?to = "length sent - NOTIFICATION_BUFFER"
  consider "pos < ?to" | "\<not> pos < ?to" "pos < length sent" | "\<not> pos < ?to" "\<not> pos < length sent" by blast
  then show ?case
  proof cases
    case 1
    from "3.IH"(1) [OF 1] obtain passed where p: "received passed (receives sent ?to steps)"
      "prefix passed (drop ?to sent @ sent_of steps)" by auto
    let ?missed = "take (?to - pos) (drop pos sent)"
    have "drop pos sent = ?missed @ drop ?to sent" using 1 by (metis append_take_drop_id drop_drop le_add_diff_inverse2 less_imp_le)
    then have "prefix (?missed @ passed) (drop pos sent @ sent_of steps)"
      using p(2) by (metis append.assoc same_prefix_prefix)
    moreover have "length ?missed = ?to - pos" "?missed \<noteq> []" using 1 by auto
    then have "received (?missed @ passed) (RLagged (?to - pos) # receives sent ?to steps)"
      using received_lag [OF p(1), of ?missed] by simp
    ultimately show ?thesis using 1 by auto
  next
    case 2
    from "3.IH"(2) [OF 2] 2(2) obtain passed where p: "received passed (receives sent (Suc pos) steps)"
      "prefix passed (drop (Suc pos) sent @ sent_of steps)" by auto
    then show ?thesis
      using 2 Cons_nth_drop_Suc [OF 2(2)] received_ok [OF p(1), of "sent ! pos"]
      by (intro exI [of _ "sent ! pos # passed"]) (simp flip: Cons_nth_drop_Suc)
  next
    case 3
    with "3.IH"(3) "3.prems" show ?thesis by auto
  qed
qed

lemma no_lag:
  "length sent + length (sent_of steps) \<le> NOTIFICATION_BUFFER \<Longrightarrow> RLagged k \<notin> set (receives sent pos steps)"
  by (induction sent pos steps rule: receives.induct) auto

lemma listener_task_answers: "listener_task answers = map projr (takeWhile (\<lambda>a. \<not> isl a) answers)"
  by (induction answers) (auto split: sum.splits)

text \<open>When a payload names a URI, and the event it is to be reported by.\<close>

definition names_uri :: "listen_env \<Rightarrow> uri_match \<Rightarrow> str \<Rightarrow> str \<Rightarrow> bool" where
  "names_uri env m payload uri \<longleftrightarrow>
     (\<exists>v value pat. lx_from_str env payload = Some v \<and>
        (json_get v (um_payload_field m) = Some (JStr value) \<or>
         (\<exists>n. json_get v (um_payload_field m) = Some (JNum n) \<and> value = lx_number_text env n)) \<and>
        pat \<in> set (um_uris m) \<and> replace_all ''{value}'' value pat = uri)"

definition notified_event :: "listen_env \<Rightarrow> bool \<Rightarrow> notification \<Rightarrow> listen_event" where
  "notified_event env event_source n =
     \<lparr>le_user_id = Option.bind (lx_from_str env (snd n)) (\<lambda>v. Option.bind (json_get v ''user_id'') as_str),
      le_session_id = Option.bind (lx_from_str env (snd n)) (\<lambda>v. Option.bind (json_get v ''session_id'') as_str),
      le_event =
        \<lparr>ev_event_id = None, ev_event_type = (if event_source then Some ''postgres.notification'' else None),
         ev_occurred_at = None,
         ev_data =
           (if event_source
            then Some (json_obj [(''channel'', JStr (fst n)), (''payload'', fst (lx_event_body env (snd n))),
                   (''payloadEncoding'', JStr (snd (lx_event_body env (snd n))))])
            else None),
         ev_upstream_cursor = None, ev_gap = False\<rparr>\<rparr>"

lemma concerns_names: "concerns env um uri n \<longleftrightarrow> (\<forall>m. um = Some m \<longrightarrow> names_uri env m (snd n) uri)"
proof (cases um)
  case (Some m)
  show ?thesis
  proof (cases "lx_from_str env (snd n)")
    case (Some v)
    then show ?thesis
      using \<open>um = Some m\<close>
      by (cases "json_get v (um_payload_field m)"; cases "the (json_get v (um_payload_field m))")
         (auto simp: concerns_def uri_matches_def names_uri_def value_mark_def)
  qed (use Some in \<open>simp add: concerns_def uri_matches_def names_uri_def\<close>)
qed (simp add: concerns_def)

lemma event_from_notified: "event_from_payload env channel payload event_source = notified_event env event_source (channel, payload)"
  by (simp add: event_from_payload_def notified_event_def payload_field_def default_event_def split: prod.splits)

lemma watch_loop_reports:
  "RClosed \<notin> set rs \<Longrightarrow> watch_loop env um uri channel event_source rs =
     concat (map (\<lambda>r. case r of
         ROk n \<Rightarrow> if \<forall>m. um = Some m \<longrightarrow> names_uri env m (snd n) uri then [notified_event env event_source n] else []
       | RLagged _ \<Rightarrow> [notified_event env event_source (channel, [])]
       | RClosed \<Rightarrow> []) rs)"
  by (induction rs) (auto simp: concerns_names event_from_notified split: recv.splits prod.splits)

lemma not_closed: "RClosed \<notin> set (receives sent pos steps)"
  by (induction sent pos steps rule: receives.induct) auto

text \<open>
  C24. Every notification on the channel that concerns a watched URI is reported, in order.  Whatever
  the connection answers and however its task and the watch take turns, the watch passes the
  notifications that were answered before the first error one by one, and reports each that names its
  URI (each one, where it has no filter) by its own event with the payload and the subject it carries, and
  no other; where it is told that it missed a run of them, it reports that run by one event without a payload.
  It misses none while no more than 1024 were sent.
\<close>

theorem listen_reports_every_change:
  assumes "prefix (sent_of steps) (listener_task answers)"
  defines "rs \<equiv> receives [] 0 steps"
  shows "(\<exists>passed. received passed rs \<and> prefix passed (map projr (takeWhile (\<lambda>a. \<not> isl a) answers))) \<and>
    watch_loop env um uri channel event_source rs =
      concat (map (\<lambda>r. case r of
          ROk n \<Rightarrow> if \<forall>m. um = Some m \<longrightarrow> names_uri env m (snd n) uri then [notified_event env event_source n] else []
        | RLagged _ \<Rightarrow> [notified_event env event_source (channel, [])]
        | RClosed \<Rightarrow> []) rs) \<and>
    (length (sent_of steps) \<le> 1024 \<longrightarrow> (\<forall>k. RLagged k \<notin> set rs))"
proof -
  obtain passed where "received passed rs" "prefix passed (sent_of steps)"
    using receives_order [of 0 "[]" steps] by (auto simp: rs_def)
  moreover have "prefix (sent_of steps) (map projr (takeWhile (\<lambda>a. \<not> isl a) answers))"
    using assms(1) by (simp only: listener_task_answers)
  ultimately show ?thesis
    using no_lag [of "[]" steps] watch_loop_reports [OF not_closed, of env um uri channel event_source "[]" 0 steps]
    by (auto simp: rs_def NOTIFICATION_BUFFER_def dest: prefix_order.trans)
qed

definition text_env :: listen_env where
  "text_env = \<lparr>lx_from_str = (\<lambda>_. None), lx_number_text = (\<lambda>_. []), lx_event_body = (\<lambda>p. (JStr p, ''text''))\<rparr>"

lemma listen_reports_every_change_witness:
  "watch_loop text_env None ''r'' ''c'' True (receives [] 0 [Sent (''c'', ''a''), Polled, Sent (''c'', ''b''), Polled]) =
     [notified_event text_env True (''c'', ''a''), notified_event text_env True (''c'', ''b'')]"
proof -
  have "prefix (sent_of [Sent (''c'', ''a''), Polled, Sent (''c'', ''b''), Polled])
      (listener_task [Inr (''c'', ''a''), Inr (''c'', ''b''), Inl (), Inr (''c'', ''d'')])" by simp
  from listen_reports_every_change [OF this, of text_env None "''r''" "''c''" True] show ?thesis
    by (simp add: NOTIFICATION_BUFFER_def)
qed

text \<open>
  An error of the connection silences its watches: whatever it could answer afterwards is never
  asked for, although the watches stay.
\<close>

theorem listener_error_silences: "listener_task (map Inr ns @ Inl e # answers) = ns"
  by (induction ns) auto

section \<open>Shared connections\<close>

text \<open>
  \<open>listener\<close> looks for a live connection under a lock, opens one outside it, and looks again before it
  installs its own; a connection is live while a watch holds it.  A watch is a number, as is a
  connection; \<open>ls_opening\<close> are the watches between the two looks, each with the connection it opened.
\<close>

record listeners =
  ls_map :: "(str \<times> str) \<rightharpoonup> nat"
  ls_holds :: "(nat \<times> (str \<times> str) \<times> nat) list"
  ls_opening :: "(nat \<times> (str \<times> str) \<times> nat) list"

definition live :: "listeners \<Rightarrow> nat \<Rightarrow> bool" where
  "live s l \<longleftrightarrow> (\<exists>h \<in> set (ls_holds s). snd (snd h) = l)"

definition upgrade :: "listeners \<Rightarrow> str \<times> str \<Rightarrow> nat option" where
  "upgrade s key = Option.bind (ls_map s key) (\<lambda>l. if live s l then Some l else None)"

definition install :: "nat \<Rightarrow> str \<times> str \<Rightarrow> nat \<Rightarrow> listeners \<Rightarrow> listeners" where
  "install w key l s =
     (case upgrade s key of
        Some existing \<Rightarrow> s\<lparr>ls_holds := (w, key, existing) # ls_holds s\<rparr>
      | None \<Rightarrow>
          s\<lparr>ls_map := (\<lambda>k. Option.bind (ls_map s k) (\<lambda>l'. if live s l' then Some l' else None))(key \<mapsto> l),
            ls_holds := (w, key, l) # ls_holds s\<rparr>)"

inductive listeners_step :: "listeners \<Rightarrow> listeners \<Rightarrow> bool" where
  found: "upgrade s key = Some l \<Longrightarrow> listeners_step s (s\<lparr>ls_holds := (w, key, l) # ls_holds s\<rparr>)"
| missing: "upgrade s key = None \<Longrightarrow> l \<notin> (snd \<circ> snd) ` set (ls_holds s @ ls_opening s) \<Longrightarrow>
     listeners_step s (s\<lparr>ls_opening := (w, key, l) # ls_opening s\<rparr>)"
| opened: "ls_opening s = xs @ (w, key, l) # ys \<Longrightarrow>
     listeners_step s (install w key l (s\<lparr>ls_opening := xs @ ys\<rparr>))"
| open_failed: "ls_opening s = xs @ h # ys \<Longrightarrow> listeners_step s (s\<lparr>ls_opening := xs @ ys\<rparr>)"
| ended: "ls_holds s = xs @ h # ys \<Longrightarrow> listeners_step s (s\<lparr>ls_holds := xs @ ys\<rparr>)"

definition listeners_init :: "listeners \<Rightarrow> bool" where
  "listeners_init s \<longleftrightarrow> ls_holds s = [] \<and> ls_opening s = [] \<and> ls_map s = Map.empty"

definition listeners_inv :: "listeners \<Rightarrow> bool" where
  "listeners_inv s \<longleftrightarrow> (\<forall>w key l. (w, key, l) \<in> set (ls_holds s) \<longrightarrow> ls_map s key = Some l)"

lemma install_inv: "listeners_inv s \<Longrightarrow> listeners_inv (install w key l s)"
  by (force simp: listeners_inv_def install_def upgrade_def live_def bind_eq_Some_conv split: option.splits if_splits)

lemma listeners_inv_step: "listeners_step s t \<Longrightarrow> listeners_inv s \<Longrightarrow> listeners_inv t"
proof (induction rule: listeners_step.induct)
  case (opened s xs w key l ys)
  then have "listeners_inv (s\<lparr>ls_opening := xs @ ys\<rparr>)" by (simp add: listeners_inv_def)
  then show ?case by (rule install_inv)
qed (auto simp: listeners_inv_def upgrade_def bind_eq_Some_conv split: if_splits)

interpretation listeners: transition_invariant listeners_init listeners_step listeners_inv
  by unfold_locales (auto simp: listeners_init_def listeners_inv_def dest: listeners_inv_step)

text \<open>
  Watches on the same database and channel share one connection: however they start, open
  connections at the same time, fail and end, two watches that run hold the same one.
\<close>

theorem listeners_share_connection:
  assumes "listeners_init s0" and "listeners_step\<^sup>*\<^sup>* s0 s"
    and "(w, key, l) \<in> set (ls_holds s)" and "(w', key, l') \<in> set (ls_holds s)"
  shows "l = l'"
proof -
  have "ls_map s key = Some l" and "ls_map s key = Some l'"
    using listeners.reachable_inv [OF assms(1,2)] assms(3,4) unfolding listeners_inv_def by blast+
  then show ?thesis by simp
qed

text \<open>Two watches that both found no connection and both opened one.\<close>

lemma listeners_share_connection_witness:
  "\<exists>s l. listeners_step\<^sup>*\<^sup>* \<lparr>ls_map = Map.empty, ls_holds = [], ls_opening = []\<rparr> s
     \<and> (1, (''u'', ''c''), l) \<in> set (ls_holds s) \<and> (2, (''u'', ''c''), l) \<in> set (ls_holds s) \<and> l = 8"
proof -
  let ?k = "(''u'', ''c'')"
  let ?s0 = "\<lparr>ls_map = Map.empty, ls_holds = [], ls_opening = []\<rparr>"
  let ?s1 = "?s0\<lparr>ls_opening := [(1, ?k, 7)]\<rparr>"
  let ?s2 = "?s0\<lparr>ls_opening := [(2, ?k, 8), (1, ?k, 7)]\<rparr>"
  let ?s3 = "install 2 ?k 8 ?s1"
  let ?s4 = "install 1 ?k 7 (?s3\<lparr>ls_opening := []\<rparr>)"
  have 1: "listeners_step ?s0 ?s1" using listeners_step.missing [of ?s0 ?k 7 1] by (simp add: upgrade_def)
  have 2: "listeners_step ?s1 ?s2" using listeners_step.missing [of ?s1 ?k 8 2] by (simp add: upgrade_def)
  have 3: "listeners_step ?s2 ?s3" using listeners_step.opened [of ?s2 "[]" 2 ?k 8 "[(1, ?k, 7)]"] by simp
  have 4: "listeners_step ?s3 ?s4" using listeners_step.opened [of ?s3 "[]" 1 ?k 7 "[]"] by (simp add: install_def upgrade_def)
  note step = rtranclp.rtrancl_into_rtrancl [where r = listeners_step]
  have run: "listeners_step\<^sup>*\<^sup>* ?s0 ?s4"
    by (rule step [OF _ 4], rule step [OF _ 3], rule step [OF _ 2], rule r_into_rtranclp, rule 1)
  have w2: "(2, ?k, 8) \<in> set (ls_holds ?s4)" by (simp add: install_def upgrade_def split: option.splits)
  obtain l where w1: "(1, ?k, l) \<in> set (ls_holds ?s4)"
    by (cases "upgrade (?s3\<lparr>ls_opening := []\<rparr>) ?k") (auto simp: install_def)
  have "l = 8" by (rule listeners_share_connection [OF _ run w1 w2]) (simp add: listeners_init_def)
  with run w1 w2 show ?thesis by blast
qed

end
