(* ===== verification/Polling.thy ===== *)
theory Polling
  imports Registration Transaction
begin

text \<open>
  \<open>src/watch.rs\<close>: the \<open>sql_polling\<close> watch.  Its check and statement, and the poll loop as a fold over what
  its ticks answer.
\<close>

section \<open>Specification\<close>

record polling_spec =
  po_connection :: sql_backend_config
  po_interval_ms :: u64

definition polling_validate :: "config_env \<Rightarrow> polling_spec \<Rightarrow> unit sql_result" where
  "polling_validate env spec =
     and_then (sql_backend_config_validate env (po_connection spec)) (\<lambda>_.
     reject_if (po_interval_ms spec < 100)
       (invalid ''watch.interval_ms is below the floor'' [show_nat (unat (po_interval_ms spec))]))"

definition build_prepared_stmt :: "(str \<Rightarrow> str + str) \<Rightarrow> sql_backend_config \<Rightarrow> prepared_stmt sql_result" where
  "build_prepared_stmt read_file cfg =
     and_then
       (case query_body_of (cfg_query cfg) of
          BodySql sql \<Rightarrow> Inr sql
        | BodySqlFile path \<Rightarrow> map_err (\<lambda>e. invalid ''sql_file'' [path, e]) (read_file path)
        | BodyProcedure p \<Rightarrow> Inr (call_statement p (length (query_params (cfg_query cfg))) (cfg_driver cfg)))
       (\<lambda>raw.
          Inr \<lparr>ps_sql = fst (rewrite_placeholders raw (cfg_driver cfg)), ps_param_order = query_params (cfg_query cfg),
               ps_driver = cfg_driver cfg\<rparr>)"

section \<open>The loop\<close>

definition watch_first_scalar :: "json list \<Rightarrow> json option" where
  "watch_first_scalar rows =
     (case rows of
        [] \<Rightarrow> None
      | JObj m # _ \<Rightarrow> omap_first m
      | other # _ \<Rightarrow> Some other)"

text \<open>A tick: the new cursor, and whether an event is emitted.\<close>

definition polling_tick :: "json option \<Rightarrow> row_batch sql_result \<Rightarrow> json option \<times> bool" where
  "polling_tick last_cursor answer =
     (case answer of
        Inl _ \<Rightarrow> (last_cursor, False)
      | Inr batch \<Rightarrow>
          (let cursor = watch_first_scalar (rb_rows batch)
           in if cursor \<noteq> last_cursor then (cursor, last_cursor \<noteq> None) else (last_cursor, False)))"

text \<open>The ticks at which an event is emitted.\<close>

fun poll_loop :: "json option \<Rightarrow> nat \<Rightarrow> row_batch sql_result list \<Rightarrow> nat list" where
  "poll_loop last_cursor i [] = []"
| "poll_loop last_cursor i (answer # answers) =
     (case polling_tick last_cursor answer of
        (cursor, emit) \<Rightarrow> (if emit then [i] else []) @ poll_loop cursor (Suc i) answers)"

section \<open>When an event is emitted\<close>

definition answer_cursor :: "row_batch sql_result \<Rightarrow> json option option" where
  "answer_cursor answer = (case answer of Inl _ \<Rightarrow> None | Inr batch \<Rightarrow> Some (watch_first_scalar (rb_rows batch)))"

text \<open>The cursor of the last poll that succeeded.\<close>

fun last_seen :: "json option \<Rightarrow> row_batch sql_result list \<Rightarrow> json option" where
  "last_seen c [] = c"
| "last_seen c (answer # answers) = last_seen (case answer_cursor answer of None \<Rightarrow> c | Some c' \<Rightarrow> c') answers"

lemma tick_cursor:
  "polling_tick c answer =
     ((case answer_cursor answer of None \<Rightarrow> c | Some c' \<Rightarrow> c'),
      (case answer_cursor answer of None \<Rightarrow> False | Some c' \<Rightarrow> c \<noteq> None \<and> c' \<noteq> c))"
  by (auto simp: polling_tick_def answer_cursor_def Let_def split: sum.splits)

lemma poll_loop_ge: "j \<in> set (poll_loop c i answers) \<Longrightarrow> i \<le> j"
  by (induction c i answers rule: poll_loop.induct) (fastforce simp: tick_cursor)+

lemma poll_loop_at:
  "k < length answers \<Longrightarrow>
   i + k \<in> set (poll_loop c i answers) \<longleftrightarrow>
     (case answer_cursor (answers ! k) of
        None \<Rightarrow> False
      | Some c' \<Rightarrow> last_seen c (take k answers) \<noteq> None \<and> c' \<noteq> last_seen c (take k answers))"
proof (induction answers arbitrary: c i k)
  case (Cons answer answers)
  show ?case
  proof (cases k)
    case 0
    then show ?thesis using poll_loop_ge [of i _ "Suc i" answers] by (auto simp: tick_cursor split: option.splits)
  next
    case (Suc k')
    then show ?thesis
      using Cons.IH [of k' "Suc i"] Cons.prems by (auto simp: tick_cursor split: option.splits)
  qed
qed simp

text \<open>
  A polling watch emits an event at a tick exactly when that poll succeeded and its cursor differs
  from the cursor of the last poll that succeeded before, and that one had returned a row: the first
  successful poll and failed polls are silent, no matter how many fail in between.
\<close>

theorem polling_event_iff:
  assumes "k < length answers"
  shows "k \<in> set (poll_loop None 0 answers) \<longleftrightarrow>
     (\<exists>cursor prev. answer_cursor (answers ! k) = Some cursor \<and> last_seen None (take k answers) = Some prev \<and> cursor \<noteq> Some prev)"
  using poll_loop_at [OF assms, of 0 None] by (auto split: option.splits)

text \<open>
  A table that becomes non-empty is not a change to a polling watch: after a poll without a row, the
  next cursor is taken as a new baseline, so a row that appears in an empty table is never announced.
\<close>

theorem polling_misses_first_row:
  assumes "rb_rows empty_batch = []" and "length answers = n" and "\<forall>a \<in> set answers. a = Inr empty_batch"
  shows "poll_loop None 0 (answers @ [Inr batch]) = []"
proof -
  have "poll_loop None i (answers @ [Inr batch]) = []" if "\<forall>a \<in> set answers. a = Inr empty_batch" for i answers
    using that assms(1)
    by (induction answers arbitrary: i) (simp_all add: polling_tick_def watch_first_scalar_def Let_def)
  then show ?thesis using assms(3) by blast
qed

lemma polling_event_iff_witness:
  "1 \<in> set (poll_loop None 0
     [Inr \<lparr>rb_columns = [], rb_rows = [JBool True], rb_rows_affected = None, rb_truncated = False, rb_has_more = False\<rparr>,
      Inr \<lparr>rb_columns = [], rb_rows = [JBool False], rb_rows_affected = None, rb_truncated = False, rb_has_more = False\<rparr>])"
  by (subst polling_event_iff) (simp_all add: answer_cursor_def watch_first_scalar_def)

definition no_rows :: row_batch where
  "no_rows = \<lparr>rb_columns = [], rb_rows = [], rb_rows_affected = None, rb_truncated = False, rb_has_more = False\<rparr>"

lemma polling_misses_first_row_witness:
  "poll_loop None 0 [Inr no_rows, Inr no_rows, Inr (no_rows\<lparr>rb_rows := [JBool True]\<rparr>)] = []"
  using polling_misses_first_row [of no_rows "[Inr no_rows, Inr no_rows]" 2 "no_rows\<lparr>rb_rows := [JBool True]\<rparr>"]
  by (simp add: no_rows_def)

section \<open>Statements from files\<close>

text \<open>
  The statement of a polling watch is not screened the way a binding's is: a statement file that a
  binding refuses, because it holds several statements or a privileged one, is what the watch runs.
\<close>

theorem polling_file_unscreened:
  assumes "query_body_of (cfg_query cfg) = BodySqlFile path" and "read_file path = Inr body"
    and "\<not> is_ok (reject_multi_statement body) \<or> \<not> is_ok (reject_privileged_ddl body)"
  shows "\<not> is_ok (prepare_stmt read_file cfg)
     \<and> (\<exists>stmt. build_prepared_stmt read_file cfg = Inr stmt \<and> ps_sql stmt = fst (rewrite_placeholders body (cfg_driver cfg)))"
  using assms
  by (auto simp: prepare_stmt_def raw_statement_def build_prepared_stmt_def is_ok_def split: sum.splits)

definition file_cfg :: sql_backend_config where
  "file_cfg = sample_cfg\<lparr>cfg_query := (cfg_query sample_cfg)\<lparr>query_body_of := BodySqlFile ''f''\<rparr>\<rparr>"

lemma polling_file_unscreened_witness:
  "\<not> is_ok (prepare_stmt (\<lambda>_. Inr ''A;;B'') file_cfg) \<and> is_ok (build_prepared_stmt (\<lambda>_. Inr ''A;;B'') file_cfg)"
proof -
  have "\<not> is_ok (reject_multi_statement ''A;;B'')"
    by (simp add: reject_multi_statement_def is_ok_def)
  then have "\<not> is_ok (prepare_stmt (\<lambda>_. Inr ''A;;B'') file_cfg)
     \<and> (\<exists>stmt. build_prepared_stmt (\<lambda>_. Inr ''A;;B'') file_cfg = Inr stmt \<and> ps_sql stmt = fst (rewrite_placeholders ''A;;B'' (cfg_driver file_cfg)))"
    by (intro polling_file_unscreened [where path = "''f''"]) (simp_all add: file_cfg_def)
  then show ?thesis by (auto simp: is_ok_def)
qed

end
