(* ===== verification/Rows.thy ===== *)
theory Rows
  imports Cost Interval
begin

text \<open>
  The values of \<open>src/driver/postgres.rs\<close>, \<open>src/driver/mysql.rs\<close> and \<open>src/driver/sqlite.rs\<close>: how a JSON
  argument is bound to a statement, and how a fetched column becomes JSON.  A fetched column is a
  \<open>cell\<close>: its name, its type name and what \<open>try_get\<close> answers for each Rust type it is asked for.  The
  law the three decoders share is the locale \<open>column_decoder\<close>.
\<close>

section \<open>Cells\<close>

text \<open>What \<open>try_get::<Option<T>>\<close> answers: the text of an error, a null or a value.\<close>

type_synonym 'a got = "str + 'a option"

text \<open>
  Integers at their width, floats as bits, bytes as a string.  \<open>Decimal\<close>, \<open>Uuid\<close>, \<open>NaiveDate\<close> and
  \<open>DateTime<Utc>\<close> are the text they are rendered to; \<open>NaiveDateTime\<close> and \<open>NaiveTime\<close> are rendered by a
  format.
\<close>

record cell =
  ce_name :: str
  ce_type :: str
  ce_bool :: "bool got"
  ce_i16 :: "16 word got"
  ce_i32 :: "32 word got"
  ce_i64 :: "64 word got"
  ce_f64 :: "u64 got"
  ce_decimal :: "str got"
  ce_json :: "json got"
  ce_uuid :: "str got"
  ce_utc :: "str got"
  ce_naive :: "(str \<Rightarrow> str) got"
  ce_date :: "str got"
  ce_time :: "(str \<Rightarrow> str) got"
  ce_interval :: "pg_interval got"
  ce_bytes :: "str got"
  ce_string :: "str got"

definition json_of_signed :: "'a::len word \<Rightarrow> json" where
  "json_of_signed w = json_of_int (sint w)"

text \<open>\<open>Number::from_f64\<close>: a number that is not finite has none.\<close>

definition json_of_f64 :: "u64 \<Rightarrow> json" where
  "json_of_f64 b = (if f64_is_finite b then JNum (FloatBits b) else JNull)"

definition json_of_bytes :: "(str \<Rightarrow> str) \<Rightarrow> str \<Rightarrow> json" where
  "json_of_bytes b64 bytes = json_obj [(''base64'', JStr (b64 bytes))]"

section \<open>PostgreSQL\<close>

definition read_as :: "('a \<Rightarrow> json) \<Rightarrow> 'a got \<Rightarrow> str + json" where
  "read_as f g = (case g of Inl e \<Rightarrow> Inl e | Inr None \<Rightarrow> Inr JNull | Inr (Some v) \<Rightarrow> Inr (f v))"

definition decode_pg_column :: "(str \<Rightarrow> str) \<Rightarrow> cell \<Rightarrow> str + json" where
  "decode_pg_column b64 c =
     (let t = ce_type c in
      if t \<in> set [''BOOL'', ''BOOLEAN''] then read_as JBool (ce_bool c)
      else if t \<in> set [''INT2'', ''SMALLINT''] then read_as json_of_signed (ce_i16 c)
      else if t \<in> set [''INT4'', ''INTEGER''] then read_as json_of_signed (ce_i32 c)
      else if t \<in> set [''INT8'', ''BIGINT''] then read_as json_of_signed (ce_i64 c)
      else if t \<in> set [''FLOAT4'', ''FLOAT8'', ''REAL'', ''DOUBLE PRECISION''] then read_as json_of_f64 (ce_f64 c)
      else if t \<in> set [''NUMERIC'', ''DECIMAL''] then read_as JStr (ce_decimal c)
      else if t \<in> set [''JSON'', ''JSONB''] then read_as id (ce_json c)
      else if t = ''UUID'' then read_as JStr (ce_uuid c)
      else if t \<in> set [''TIMESTAMPTZ'', ''TIMESTAMP WITH TIME ZONE''] then read_as JStr (ce_utc c)
      else if t \<in> set [''TIMESTAMP'', ''TIMESTAMP WITHOUT TIME ZONE''] then
        read_as (\<lambda>at. JStr (at ''%Y-%m-%dT%H:%M:%S%.6f'')) (ce_naive c)
      else if t = ''DATE'' then read_as JStr (ce_date c)
      else if t \<in> set [''TIME'', ''TIME WITHOUT TIME ZONE''] then
        read_as (\<lambda>at. JStr (at ''%H:%M:%S%.6f'')) (ce_time c)
      else if t = ''INTERVAL'' then read_as (\<lambda>iv. JStr (pg_interval_to_iso8601 iv)) (ce_interval c)
      else if t = ''BYTEA'' then read_as (json_of_bytes b64) (ce_bytes c)
      else read_as JStr (ce_string c))"

text \<open>The object of a row; a column that does not decode is logged and null.\<close>

definition row_object :: "(cell \<Rightarrow> str + json) \<Rightarrow> cell list \<Rightarrow> json" where
  "row_object decode cells =
     json_obj (map (\<lambda>c. (ce_name c, case decode c of Inr v \<Rightarrow> v | Inl _ \<Rightarrow> JNull)) cells)"

definition row_to_json_pg :: "(str \<Rightarrow> str) \<Rightarrow> cell list \<Rightarrow> json" where
  "row_to_json_pg b64 = row_object (decode_pg_column b64)"

section \<open>MySQL\<close>

text \<open>A type that is tried: when it does not decode, the next one is.\<close>

definition try_as :: "bool \<Rightarrow> ('a \<Rightarrow> json) \<Rightarrow> 'a got \<Rightarrow> json option" where
  "try_as applies f g =
     (if applies then (case g of Inl _ \<Rightarrow> None | Inr None \<Rightarrow> Some JNull | Inr (Some v) \<Rightarrow> Some (f v)) else None)"

fun first_some :: "'a option list \<Rightarrow> 'a option" where
  "first_some [] = None"
| "first_some (x # xs) = (case x of Some v \<Rightarrow> Some v | None \<Rightarrow> first_some xs)"

definition decode_mysql_column :: "(str \<Rightarrow> str) \<Rightarrow> cell \<Rightarrow> str + json" where
  "decode_mysql_column b64 c =
     (let upper = map to_ascii_upper (ce_type c) in
      case first_some
        [try_as (sublist ''BOOLEAN'' upper \<or> upper = ''TINYINT(1)'') JBool (ce_bool c),
         try_as (list_ex (\<lambda>p. prefix p upper) [''INT'', ''TINYINT'', ''SMALLINT'', ''MEDIUMINT'', ''BIGINT''])
           json_of_signed (ce_i64 c),
         try_as (upper \<in> set [''FLOAT'', ''DOUBLE'']) json_of_f64 (ce_f64 c),
         try_as (upper \<in> set [''NUMERIC'', ''DECIMAL'', ''NEWDECIMAL'']) JStr (ce_decimal c),
         try_as (upper = ''JSON'') id (ce_json c),
         try_as (upper \<in> set [''DATETIME'', ''TIMESTAMP'']) (\<lambda>at. JStr (at ''%Y-%m-%dT%H:%M:%S%.6f'')) (ce_naive c),
         try_as (upper = ''DATE'') JStr (ce_date c),
         try_as (prefix ''TIME'' upper \<and> upper \<noteq> ''TIMESTAMP'' \<and> upper \<noteq> ''DATETIME'') JStr (ce_string c),
         try_as (sublist ''BLOB'' upper \<or> sublist ''BINARY'' upper) (json_of_bytes b64) (ce_bytes c)] of
        Some v \<Rightarrow> Inr v
      | None \<Rightarrow> read_as JStr (ce_string c))"

definition row_to_json_mysql :: "(str \<Rightarrow> str) \<Rightarrow> cell list \<Rightarrow> json" where
  "row_to_json_mysql b64 = row_object (decode_mysql_column b64)"

section \<open>SQLite\<close>

definition decode_sqlite_column :: "(str \<Rightarrow> str) \<Rightarrow> cell \<Rightarrow> str + json" where
  "decode_sqlite_column b64 c =
     (case first_some
        [try_as True json_of_signed (ce_i64 c), try_as True json_of_f64 (ce_f64 c), try_as True JBool (ce_bool c),
         try_as True JStr (ce_string c), try_as True (json_of_bytes b64) (ce_bytes c)] of
        Some v \<Rightarrow> Inr v
      | None \<Rightarrow> Inl ''no decode path matched'')"

definition row_to_json_sqlite :: "(str \<Rightarrow> str) \<Rightarrow> cell list \<Rightarrow> json" where
  "row_to_json_sqlite b64 = row_object (decode_sqlite_column b64)"

section \<open>Arguments\<close>

text \<open>The Rust type an argument is bound as.\<close>

datatype bind_arg =
    BindNull
  | BindBool bool
  | BindI64 int
  | BindF64 u64
  | BindText str
  | BindJson json

definition number_as_f64 :: "number \<Rightarrow> u64 option" where
  "number_as_f64 n =
     (case n of
        PosInt u \<Rightarrow> Some (f64_of_nat (unat u))
      | NegInt u \<Rightarrow> Some (f64_of_int (sint u))
      | FloatBits b \<Rightarrow> Some b)"

text \<open>\<open>ntext\<close> is the text of a number.\<close>

definition bind_number :: "(number \<Rightarrow> str) \<Rightarrow> number \<Rightarrow> bind_arg" where
  "bind_number ntext n =
     (case as_i64 n of
        Some i \<Rightarrow> BindI64 i
      | None \<Rightarrow> (case number_as_f64 n of Some f \<Rightarrow> BindF64 f | None \<Rightarrow> BindText (ntext n)))"

definition bind_pg :: "(number \<Rightarrow> str) \<Rightarrow> json \<Rightarrow> bind_arg" where
  "bind_pg ntext v =
     (case v of
        JNull \<Rightarrow> BindNull
      | JBool b \<Rightarrow> BindBool b
      | JNum n \<Rightarrow> bind_number ntext n
      | JStr s \<Rightarrow> BindText s
      | JArr _ \<Rightarrow> BindJson v
      | JObj _ \<Rightarrow> BindJson v)"

definition bind_mysql :: "(number \<Rightarrow> str) \<Rightarrow> json \<Rightarrow> bind_arg" where
  "bind_mysql = bind_pg"

text \<open>SQLite has no type for JSON: it is bound as its text.\<close>

definition bind_sqlite :: "(json \<Rightarrow> str) \<Rightarrow> (number \<Rightarrow> str) \<Rightarrow> json \<Rightarrow> bind_arg" where
  "bind_sqlite jtext ntext v =
     (case v of
        JArr _ \<Rightarrow> BindText (jtext v)
      | JObj _ \<Rightarrow> BindText (jtext v)
      | _ \<Rightarrow> bind_pg ntext v)"

section \<open>The law of a decoder\<close>

text \<open>A cell whose every answer is a null, as for SQL's \<open>NULL\<close>, and one whose JSON answer is well formed.\<close>

definition null_cell :: "cell \<Rightarrow> bool" where
  "null_cell c \<longleftrightarrow>
     ce_bool c = Inr None \<and> ce_i16 c = Inr None \<and> ce_i32 c = Inr None \<and> ce_i64 c = Inr None \<and>
     ce_f64 c = Inr None \<and> ce_decimal c = Inr None \<and> ce_json c = Inr None \<and> ce_uuid c = Inr None \<and>
     ce_utc c = Inr None \<and> ce_naive c = Inr None \<and> ce_date c = Inr None \<and> ce_time c = Inr None \<and>
     ce_interval c = Inr None \<and> ce_bytes c = Inr None \<and> ce_string c = Inr None"

definition json_cell_ok :: "cell \<Rightarrow> bool" where
  "json_cell_ok c = (case ce_json c of Inr (Some v) \<Rightarrow> json_ok v | _ \<Rightarrow> True)"

text \<open>The value of a column of a row.\<close>

definition column_value :: "(cell \<Rightarrow> str + json) \<Rightarrow> cell \<Rightarrow> json" where
  "column_value decode c = (case decode c of Inr v \<Rightarrow> v | Inl _ \<Rightarrow> JNull)"

lemma row_object_alt: "row_object decode cells = json_obj (map (\<lambda>c. (ce_name c, column_value decode c)) cells)"
  by (simp add: row_object_def column_value_def)

lemma json_ok_fold:
  "json_ok (JObj m) \<Longrightarrow> \<forall>p \<in> set kvs. json_ok (snd p) \<Longrightarrow> json_ok (JObj (fold (\<lambda>(k, v). omap_insert k v) kvs m))"
proof (induction kvs arbitrary: m)
  case (Cons p kvs)
  then have "json_ok (JObj (omap_insert (fst p) (snd p) m))"
    by (intro json_ok_insert) simp_all
  with Cons show ?case by (simp add: case_prod_beta)
qed simp

lemma json_ok_obj: "\<forall>p \<in> set kvs. json_ok (snd p) \<Longrightarrow> json_ok (json_obj kvs)"
  unfolding json_obj_def by (rule json_ok_fold) (simp_all add: omap_ok_def)

locale column_decoder =
  fixes decode :: "cell \<Rightarrow> str + json"
  assumes null_law: "null_cell c \<Longrightarrow> decode c = Inr JNull"
    and ok_law: "json_cell_ok c \<Longrightarrow> decode c = Inr v \<Longrightarrow> json_ok v"
begin

lemma value_ok: "json_cell_ok c \<Longrightarrow> json_ok (column_value decode c)"
  using ok_law by (auto simp: column_value_def split: sum.splits)

lemma row_ok: "\<forall>c \<in> set cells. json_cell_ok c \<Longrightarrow> json_ok (row_object decode cells)"
  unfolding row_object_alt by (rule json_ok_obj) (auto simp: value_ok)

lemma row_member:
  "distinct (map ce_name cells) \<Longrightarrow> c \<in> set cells \<Longrightarrow> json_get (row_object decode cells) (ce_name c) = Some (column_value decode c)"
proof -
  assume d: "distinct (map ce_name cells)" and c: "c \<in> set cells"
  have "map_of (map (\<lambda>c. (ce_name c, column_value decode c)) (rev cells)) (ce_name c) = Some (column_value decode c)"
    by (rule map_of_is_SomeI) (use d c in \<open>auto simp: comp_def rev_map [symmetric]\<close>)
  then show ?thesis by (simp add: row_object_alt json_obj_get rev_map)
qed

lemma row_members: "json_get (row_object decode cells) k \<noteq> None \<longleftrightarrow> k \<in> ce_name ` set cells"
  by (auto simp: row_object_alt json_obj_get map_of_eq_None_iff rev_map image_image)

lemma row_null:
  "distinct (map ce_name cells) \<Longrightarrow> c \<in> set cells \<Longrightarrow> null_cell c \<Longrightarrow> json_get (row_object decode cells) (ce_name c) = Some JNull"
  using row_member null_law by (simp add: column_value_def)

end

lemma json_ok_signed [simp]: "json_ok (json_of_signed w)"
  by (simp add: json_of_signed_def json_of_int_def)

lemma json_ok_f64 [simp]: "json_ok (json_of_f64 b)"
  by (simp add: json_of_f64_def)

lemma json_ok_bytes [simp]: "json_ok (json_of_bytes b64 bs)"
  by (simp add: json_of_bytes_def json_ok_obj)

lemma read_as_simps [simp]:
  "read_as f (Inl e) = Inl e" "read_as f (Inr None) = Inr JNull" "read_as f (Inr (Some v)) = Inr (f v)"
  by (simp_all add: read_as_def)

lemma read_as_ok: "read_as f g = Inr v \<Longrightarrow> (\<And>x. g = Inr (Some x) \<Longrightarrow> json_ok (f x)) \<Longrightarrow> json_ok v"
  by (auto simp: read_as_def split: sum.splits option.splits)

lemma try_as_ok: "try_as b f g = Some v \<Longrightarrow> (\<And>x. g = Inr (Some x) \<Longrightarrow> json_ok (f x)) \<Longrightarrow> json_ok v"
  by (auto simp: try_as_def split: if_splits sum.splits option.splits)

lemma try_as_null: "try_as b f (Inr None) = (if b then Some JNull else None)"
  by (simp add: try_as_def)

lemma first_some_in: "first_some xs = Some v \<Longrightarrow> Some v \<in> set xs"
  by (induction xs rule: first_some.induct) (auto split: option.splits)

interpretation pg_rows: column_decoder "decode_pg_column b64" for b64
proof
  fix c :: cell
  assume "null_cell c"
  then show "decode_pg_column b64 c = Inr JNull"
    unfolding null_cell_def by (simp add: decode_pg_column_def Let_def)
next
  fix c :: cell and v
  assume "json_cell_ok c" and "decode_pg_column b64 c = Inr v"
  then show "json_ok v"
    unfolding decode_pg_column_def Let_def json_cell_ok_def
    by (auto split: if_splits elim!: read_as_ok)
qed

interpretation mysql_rows: column_decoder "decode_mysql_column b64" for b64
proof
  fix c :: cell
  assume "null_cell c"
  then show "decode_mysql_column b64 c = Inr JNull"
    unfolding null_cell_def by (simp add: decode_mysql_column_def Let_def try_as_null split: option.splits)
next
  fix c :: cell and v
  assume ok: "json_cell_ok c" and d: "decode_mysql_column b64 c = Inr v"
  show "json_ok v"
    using d ok unfolding decode_mysql_column_def Let_def json_cell_ok_def
    by (auto split: option.splits elim!: read_as_ok dest!: first_some_in) (auto elim!: try_as_ok dest: sym)
qed

interpretation sqlite_rows: column_decoder "decode_sqlite_column b64" for b64
proof
  fix c :: cell
  assume "null_cell c"
  then show "decode_sqlite_column b64 c = Inr JNull"
    unfolding null_cell_def by (simp add: decode_sqlite_column_def try_as_null)
next
  fix c :: cell and v
  assume "decode_sqlite_column b64 c = Inr v"
  then show "json_ok v"
    unfolding decode_sqlite_column_def
    by (auto split: option.splits dest!: first_some_in) (auto elim!: try_as_ok dest: sym)
qed

section \<open>Properties\<close>

lemma large_bits: "f64_bits 18446744073709551615 (Suc 0) = f64_bits 18446744073709551614 (Suc 0)"
  by (simp add: f64_bits_def floor_log2_def round_div_def bit_length.simps Let_def)

text \<open>
  A row of any driver answers one member per column, and a column that is null in the database is
  JSON's null whatever its type.
\<close>

theorem null_columns_are_null:
  assumes "distinct (map ce_name cells)" and "c \<in> set cells" and "null_cell c"
  shows "json_get (row_to_json_pg b64 cells) (ce_name c) = Some JNull
       \<and> json_get (row_to_json_mysql b64 cells) (ce_name c) = Some JNull
       \<and> json_get (row_to_json_sqlite b64 cells) (ce_name c) = Some JNull"
  unfolding row_to_json_pg_def row_to_json_mysql_def row_to_json_sqlite_def
  using assms by (simp add: pg_rows.row_null mysql_rows.row_null sqlite_rows.row_null)

definition sample_null :: cell where
  "sample_null =
     \<lparr>ce_name = ''note'', ce_type = ''TEXT'', ce_bool = Inr None, ce_i16 = Inr None, ce_i32 = Inr None,
      ce_i64 = Inr None, ce_f64 = Inr None, ce_decimal = Inr None, ce_json = Inr None, ce_uuid = Inr None,
      ce_utc = Inr None, ce_naive = Inr None, ce_date = Inr None, ce_time = Inr None,
      ce_interval = Inr None, ce_bytes = Inr None, ce_string = Inr None\<rparr>"

theorem null_columns_are_null_witness:
  "json_get (row_to_json_pg id [sample_null]) ''note'' = Some JNull"
proof -
  have "distinct (map ce_name [sample_null])" "sample_null \<in> set [sample_null]" "null_cell sample_null"
    by (simp_all add: sample_null_def null_cell_def)
  from null_columns_are_null [OF this, of id] show ?thesis by (simp add: sample_null_def)
qed

text \<open>
  An integer argument that fits an \<open>i64\<close> is bound as that integer; one above is bound as a float, never
  as text, and two different ones are bound alike.
\<close>

theorem bind_large_integer_as_float:
  "bind_pg ntext (JNum (PosInt u)) =
     (if unat u < 2 ^ 63 then BindI64 (uint u) else BindF64 (f64_of_nat (unat u)))
   \<and> bind_pg ntext (JNum (PosInt 18446744073709551615)) = bind_pg ntext (JNum (PosInt 18446744073709551614))"
  by (simp add: bind_pg_def bind_number_def as_i64_def number_as_f64_def f64_of_nat_def large_bits)

end
