(* ===== verification/Schema.thy ===== *)
theory Schema
  imports Rows Dispatch
begin

text \<open>
  \<open>src/schema.rs\<close> and the describing half of \<open>src/driver/postgres.rs\<close>: the JSON Schemas derived from
  the parameters and the columns of a prepared statement.  \<open>conforms\<close> is the meaning of the part of
  JSON Schema they use; \<open>format\<close> and \<open>contentEncoding\<close> are annotations there and assert nothing.
\<close>

section \<open>Derivation\<close>

definition build_input_schema :: "(str \<times> json) list \<Rightarrow> json" where
  "build_input_schema params =
     json_obj
       [(''type'', JStr ''object''), (''additionalProperties'', JBool False),
        (''required'', JArr (map (\<lambda>p. JStr (fst p)) params)), (''properties'', json_obj params)]"

definition pg_type_to_json_schema :: "str \<Rightarrow> json" where
  "pg_type_to_json_schema pg_type =
     (let t = map to_ascii_lower pg_type in
      if t = ''bool'' then json_obj [(''type'', JStr ''boolean'')]
      else if t \<in> set [''int2'', ''smallint''] then
        json_obj [(''type'', JStr ''integer''), (''minimum'', json_of_int (- 32768)), (''maximum'', json_of_int 32767)]
      else if t \<in> set [''int4'', ''integer'', ''int''] then json_obj [(''type'', JStr ''integer'')]
      else if t \<in> set [''int8'', ''bigint''] then json_obj [(''type'', JStr ''integer'')]
      else if t \<in> set [''float4'', ''real''] then json_obj [(''type'', JStr ''number'')]
      else if t \<in> set [''float8'', ''double precision'', ''double''] then json_obj [(''type'', JStr ''number'')]
      else if t \<in> set [''numeric'', ''decimal''] then
        json_obj [(''type'', JStr ''string''), (''format'', JStr ''decimal'')]
      else if t \<in> set [''text'', ''varchar'', ''char'', ''bpchar'', ''name'', ''citext''] then
        json_obj [(''type'', JStr ''string'')]
      else if t = ''date'' then json_obj [(''type'', JStr ''string''), (''format'', JStr ''date'')]
      else if t \<in> set [''time'', ''timetz''] then json_obj [(''type'', JStr ''string''), (''format'', JStr ''time'')]
      else if t \<in> set [''timestamp'', ''timestamptz''] then
        json_obj [(''type'', JStr ''string''), (''format'', JStr ''date-time'')]
      else if t = ''interval'' then json_obj [(''type'', JStr ''string''), (''format'', JStr ''duration'')]
      else if t = ''uuid'' then json_obj [(''type'', JStr ''string''), (''format'', JStr ''uuid'')]
      else if t \<in> set [''json'', ''jsonb''] then json_obj []
      else if t = ''bytea'' then json_obj [(''type'', JStr ''string''), (''contentEncoding'', JStr ''base64'')]
      else json_obj [])"

definition input_schema_from_pg_params :: "str list \<Rightarrow> str list \<Rightarrow> json option" where
  "input_schema_from_pg_params param_names pg_type_names =
     (if length param_names \<noteq> length pg_type_names then None
      else Some (build_input_schema (map (\<lambda>(n, ty). (n, pg_type_to_json_schema ty)) (zip param_names pg_type_names))))"

record output_column =
  oc_name :: str
  oc_type :: str
  oc_nullable :: "bool option"

definition widen_to_nullable :: "json \<Rightarrow> bool option \<Rightarrow> json" where
  "widen_to_nullable frag nullable =
     (if nullable = Some False then frag
      else
        (case frag of
           JObj m \<Rightarrow>
             (case omap_get m ''type'' of
                Some (JStr s) \<Rightarrow>
                  JObj (omap_insert ''type'' (if s \<noteq> ''null'' then JArr [JStr s, JStr ''null''] else JStr s)
                    (omap_remove ''type'' m))
              | Some other \<Rightarrow> JObj (omap_insert ''type'' other (omap_remove ''type'' m))
              | None \<Rightarrow> JObj (omap_remove ''type'' m))
         | other \<Rightarrow> other))"

definition column_schema :: "output_column \<Rightarrow> json" where
  "column_schema col = widen_to_nullable (pg_type_to_json_schema (oc_type col)) (oc_nullable col)"

definition row_schema :: "output_column list \<Rightarrow> json" where
  "row_schema columns =
     json_obj
       [(''type'', JStr ''object''), (''additionalProperties'', JBool False),
        (''required'', JArr (map (\<lambda>col. JStr (oc_name col)) (filter (\<lambda>col. oc_nullable col = Some False) columns))),
        (''properties'', json_obj (map (\<lambda>col. (oc_name col, column_schema col)) columns))]"

definition output_schema_from_pg_columns :: "output_column list \<Rightarrow> row_mode \<Rightarrow> json option" where
  "output_schema_from_pg_columns columns mode =
     (case columns of
        [] \<Rightarrow> None
      | col # _ \<Rightarrow>
          (case mode of
             ResourceContents \<Rightarrow> None
           | ResultSets \<Rightarrow> None
           | AffectedRows \<Rightarrow>
               Some (json_obj
                 [(''type'', JStr ''object''),
                  (''properties'', json_obj
                     [(''rows_affected'', json_obj [(''type'', JStr ''integer''), (''minimum'', json_of_int 0)])]),
                  (''required'', JArr [JStr ''rows_affected''])])
           | Scalar \<Rightarrow> Some (column_schema col)
           | Single \<Rightarrow> Some (row_schema columns)
           | Many \<Rightarrow> Some (json_obj [(''type'', JStr ''array''), (''items'', row_schema columns)])
           | StreamMode \<Rightarrow>
               Some (json_obj
                 [(''type'', JStr ''object''), (''additionalProperties'', JBool False),
                  (''required'', JArr [JStr ''rows'', JStr ''next_cursor'', JStr ''truncated'']),
                  (''properties'', json_obj
                     [(''rows'', json_obj [(''type'', JStr ''array''), (''items'', row_schema columns)]),
                      (''next_cursor'', json_obj [(''type'', JArr [JStr ''string'', JStr ''null''])]),
                      (''truncated'', json_obj [(''type'', JStr ''boolean'')])])])))"

text \<open>
  What \<open>Executor::describe\<close> answers: the type names of the parameters or only their number, and the
  columns.
\<close>

record described =
  de_parameters :: "(str list + nat) option"
  de_columns :: "output_column list"

definition describe_parameters :: "sqlx_error + described \<Rightarrow> str list \<Rightarrow> json option sql_result" where
  "describe_parameters answer param_names =
     and_then (map_err from_execute answer) (\<lambda>d.
       Inr (case de_parameters d of
              Some (Inl type_names) \<Rightarrow> input_schema_from_pg_params param_names type_names
            | _ \<Rightarrow> None))"

definition describe_columns :: "sqlx_error + described \<Rightarrow> row_mode \<Rightarrow> json option sql_result" where
  "describe_columns answer mode =
     and_then (map_err from_execute answer) (\<lambda>d. Inr (output_schema_from_pg_columns (de_columns d) mode))"

section \<open>The meaning of a schema\<close>

text \<open>A number as a multiple of \<open>2\<^sup>-\<^sup>1\<^sup>0\<^sup>7\<^sup>4\<close>, which every number of \<open>serde_json\<close> is.\<close>

definition number_units :: "number \<Rightarrow> int" where
  "number_units n =
     (case n of
        PosInt u \<Rightarrow> uint u * 2 ^ 1074
      | NegInt u \<Rightarrow> sint u * 2 ^ 1074
      | FloatBits b \<Rightarrow> f64_value b)"

definition type_matches :: "str \<Rightarrow> json \<Rightarrow> bool" where
  "type_matches t v =
     (case v of
        JNull \<Rightarrow> t = ''null''
      | JBool _ \<Rightarrow> t = ''boolean''
      | JNum n \<Rightarrow> t = ''number'' \<or> t = ''integer'' \<and> 2 ^ 1074 dvd number_units n
      | JStr _ \<Rightarrow> t = ''string''
      | JArr _ \<Rightarrow> t = ''array''
      | JObj _ \<Rightarrow> t = ''object'')"

definition type_ok :: "json \<Rightarrow> json \<Rightarrow> bool" where
  "type_ok schema v =
     (case json_get schema ''type'' of
        None \<Rightarrow> True
      | Some (JStr t) \<Rightarrow> type_matches t v
      | Some (JArr ts) \<Rightarrow> list_ex (\<lambda>t. case t of JStr s \<Rightarrow> type_matches s v | _ \<Rightarrow> False) ts
      | Some _ \<Rightarrow> False)"

definition range_ok :: "json \<Rightarrow> json \<Rightarrow> bool" where
  "range_ok schema v =
     (case v of
        JNum n \<Rightarrow>
          (case json_get schema ''minimum'' of Some (JNum lo) \<Rightarrow> number_units lo \<le> number_units n | _ \<Rightarrow> True) \<and>
          (case json_get schema ''maximum'' of Some (JNum hi) \<Rightarrow> number_units n \<le> number_units hi | _ \<Rightarrow> True)
      | _ \<Rightarrow> True)"

definition required_ok :: "json \<Rightarrow> json omap \<Rightarrow> bool" where
  "required_ok schema m =
     (case json_get schema ''required'' of
        Some (JArr names) \<Rightarrow> list_all (\<lambda>r. case r of JStr k \<Rightarrow> omap_get m k \<noteq> None | _ \<Rightarrow> True) names
      | _ \<Rightarrow> True)"

definition property_schema :: "json \<Rightarrow> str \<Rightarrow> json option" where
  "property_schema schema k = Option.bind (json_get schema ''properties'') (\<lambda>ps. json_get ps k)"

fun conforms :: "json \<Rightarrow> json \<Rightarrow> bool" where
  "conforms schema (JArr vs) =
     (type_ok schema (JArr vs) \<and>
      (case json_get schema ''items'' of Some s \<Rightarrow> \<forall>v \<in> set vs. conforms s v | None \<Rightarrow> True))"
| "conforms schema (JObj m) =
     (type_ok schema (JObj m) \<and> required_ok schema m \<and>
      (\<forall>p \<in> set m.
         case property_schema schema (fst p) of
           Some s \<Rightarrow> conforms s (snd p)
         | None \<Rightarrow> json_get schema ''additionalProperties'' \<noteq> Some (JBool False)))"
| "conforms schema v = (type_ok schema v \<and> range_ok schema v)"

section \<open>Fragments\<close>

text \<open>
  The type names the decoder tests for, those that read as text first, and those that have a schema of
  their own and are left to the decoder's last line, which reads text too.
\<close>

definition pg_text_types :: "str list" where
  "pg_text_types =
     [''NUMERIC'', ''DECIMAL'', ''UUID'', ''TIMESTAMPTZ'', ''TIMESTAMP'', ''DATE'', ''TIME'', ''INTERVAL'',
      ''TEXT'', ''VARCHAR'', ''CHAR'', ''BPCHAR'', ''NAME'', ''citext'', ''TIMETZ'']"

definition pg_type_names :: "str list" where
  "pg_type_names =
     [''BOOL'', ''BOOLEAN'', ''INT2'', ''SMALLINT'', ''INT4'', ''INTEGER'', ''INT8'', ''BIGINT'', ''FLOAT4'', ''FLOAT8'',
      ''REAL'', ''DOUBLE PRECISION'', ''JSON'', ''JSONB'', ''TIMESTAMP WITH TIME ZONE'', ''TIMESTAMP WITHOUT TIME ZONE'',
      ''TIME WITHOUT TIME ZONE'', ''BYTEA''] @ pg_text_types"

lemma lower_names:
  "map to_ascii_lower ''BOOL'' = ''bool''" "map to_ascii_lower ''INT2'' = ''int2''"
  "map to_ascii_lower ''INT4'' = ''int4''" "map to_ascii_lower ''INT8'' = ''int8''"
  "map to_ascii_lower ''FLOAT4'' = ''float4''" "map to_ascii_lower ''FLOAT8'' = ''float8''"
  "map to_ascii_lower ''JSON'' = ''json''" "map to_ascii_lower ''JSONB'' = ''jsonb''"
  "map to_ascii_lower ''BYTEA'' = ''bytea''" "map to_ascii_lower ''BOOLEAN'' = ''boolean''"
  "map to_ascii_lower ''SMALLINT'' = ''smallint''" "map to_ascii_lower ''INTEGER'' = ''integer''"
  "map to_ascii_lower ''BIGINT'' = ''bigint''" "map to_ascii_lower ''REAL'' = ''real''"
  "map to_ascii_lower ''DOUBLE PRECISION'' = ''double precision''"
  "map to_ascii_lower ''TIMESTAMP WITH TIME ZONE'' = ''timestamp with time zone''"
  "map to_ascii_lower ''TIMESTAMP WITHOUT TIME ZONE'' = ''timestamp without time zone''"
  "map to_ascii_lower ''TIME WITHOUT TIME ZONE'' = ''time without time zone''"
  by code_simp+

lemma schema_of_types:
  "pg_type_to_json_schema ''BOOL'' = json_obj [(''type'', JStr ''boolean'')]"
  "pg_type_to_json_schema ''INT2'' =
     json_obj [(''type'', JStr ''integer''), (''minimum'', json_of_int (- 32768)), (''maximum'', json_of_int 32767)]"
  "pg_type_to_json_schema ''INT4'' = json_obj [(''type'', JStr ''integer'')]"
  "pg_type_to_json_schema ''INT8'' = json_obj [(''type'', JStr ''integer'')]"
  "pg_type_to_json_schema ''FLOAT4'' = json_obj [(''type'', JStr ''number'')]"
  "pg_type_to_json_schema ''FLOAT8'' = json_obj [(''type'', JStr ''number'')]"
  "pg_type_to_json_schema ''JSON'' = json_obj []"
  "pg_type_to_json_schema ''JSONB'' = json_obj []"
  "pg_type_to_json_schema ''BYTEA'' = json_obj [(''type'', JStr ''string''), (''contentEncoding'', JStr ''base64'')]"
  by (simp_all only: pg_type_to_json_schema_def Let_def lower_names) simp_all

lemma schema_of_synonyms:
  "pg_type_to_json_schema ''SMALLINT'' = pg_type_to_json_schema ''INT2''"
  "pg_type_to_json_schema ''INTEGER'' = pg_type_to_json_schema ''INT4''"
  "pg_type_to_json_schema ''BIGINT'' = pg_type_to_json_schema ''INT8''"
  "pg_type_to_json_schema ''REAL'' = pg_type_to_json_schema ''FLOAT4''"
  "pg_type_to_json_schema ''DOUBLE PRECISION'' = pg_type_to_json_schema ''FLOAT8''"
  by (simp_all only: pg_type_to_json_schema_def Let_def lower_names) simp_all

definition pg_open_types :: "str list" where
  "pg_open_types =
     [''BOOLEAN'', ''JSON'', ''JSONB'', ''TIMESTAMP WITH TIME ZONE'', ''TIMESTAMP WITHOUT TIME ZONE'', ''TIME WITHOUT TIME ZONE'']"

lemma schema_of_open_types: "t \<in> set pg_open_types \<Longrightarrow> pg_type_to_json_schema t = json_obj []"
  unfolding pg_open_types_def set_simps insert_iff empty_iff
  by (elim disjE; simp only: pg_type_to_json_schema_def Let_def lower_names; simp)

lemma lower_text_types:
  "map (map to_ascii_lower) pg_text_types =
     [''numeric'', ''decimal'', ''uuid'', ''timestamptz'', ''timestamp'', ''date'', ''time'', ''interval'',
      ''text'', ''varchar'', ''char'', ''bpchar'', ''name'', ''citext'', ''timetz'']"
  by code_simp

lemma schema_of_text_types:
  assumes "t \<in> set pg_text_types"
  shows "json_get (pg_type_to_json_schema t) ''type'' = Some (JStr ''string'')"
proof -
  have "map to_ascii_lower t \<in> set (map (map to_ascii_lower) pg_text_types)" using assms by simp
  then show ?thesis
    unfolding lower_text_types set_simps insert_iff empty_iff pg_type_to_json_schema_def Let_def
    by (elim disjE; simp add: json_obj_get)
qed

text \<open>A decoded column that is text, null or an error.\<close>

definition textual :: "str + json \<Rightarrow> bool" where
  "textual r = (case r of Inr v \<Rightarrow> v = JNull \<or> (\<exists>s. v = JStr s) | Inl _ \<Rightarrow> True)"

lemma textual_read [simp]: "textual (read_as (\<lambda>x. JStr (f x)) g)" "textual (read_as JStr g')"
  by (simp_all add: textual_def read_as_def split: sum.splits option.splits)

lemma text_types_decode: "ce_type c \<in> set pg_text_types \<Longrightarrow> textual (decode_pg_column b64 c)"
  unfolding pg_text_types_def set_simps insert_iff empty_iff
  by (elim disjE; simp add: decode_pg_column_def)

definition plain_fragment :: "json \<Rightarrow> bool" where
  "plain_fragment f \<longleftrightarrow>
     (\<exists>m. f = JObj m) \<and> (json_get f ''type'' = None \<or> (\<exists>s. json_get f ''type'' = Some (JStr s) \<and> s \<noteq> ''null''))"

lemma plain_obj:
  "plain_fragment (json_obj kvs) \<longleftrightarrow>
     map_of (rev kvs) ''type'' = None \<or> (\<exists>s. map_of (rev kvs) ''type'' = Some (JStr s) \<and> s \<noteq> ''null'')"
  using json_obj_ok [of kvs] by (auto simp: plain_fragment_def json_obj_get)

lemma fragment_plain: "plain_fragment (pg_type_to_json_schema t)"
  unfolding pg_type_to_json_schema_def Let_def
  by (simp add: if_distrib [of plain_fragment] plain_obj)

lemma number_units_of_int:
  assumes "- (2 ^ 63) \<le> i" and "i < 2 ^ 63"
  shows "\<exists>n. json_of_int i = JNum n \<and> number_units n = i * 2 ^ 1074"
proof (cases "0 \<le> i")
  case True
  with assms show ?thesis
    by (simp add: json_of_int_def number_units_def uint_word_of_int)
next
  case False
  with assms have "signed_take_bit 63 i = i" by (simp add: signed_take_bit_int_eq_self_iff)
  then have "sint (word_of_int i :: u64) = i" by (simp add: signed_of_int)
  with False show ?thesis by (simp add: json_of_int_def number_units_def)
qed

lemma number_units_signed:
  fixes w :: "'a::len word"
  assumes "LENGTH('a) \<le> 64"
  shows "\<exists>n. json_of_signed w = JNum n \<and> number_units n = sint w * 2 ^ 1074"
  unfolding json_of_signed_def
proof (rule number_units_of_int)
  have "(2::int) ^ (LENGTH('a) - 1) \<le> 2 ^ 63" using assms by (intro power_increasing) auto
  then show "- (2 ^ 63) \<le> sint w" "sint w < 2 ^ 63"
    using sint_ge [of w] sint_lt [of w] by linarith+
qed

section \<open>Conformance of a column\<close>

lemma range_ok_other [simp]: "range_ok s JNull" "range_ok s (JStr t)" "range_ok s (JBool b)"
  by (simp_all add: range_ok_def)

lemma widen_get:
  assumes "plain_fragment f"
  shows "json_get (widen_to_nullable f n) k =
     (if n \<noteq> Some False \<and> k = ''type'' then map_option (\<lambda>t. JArr [t, JStr ''null'']) (json_get f ''type'') else json_get f k)"
  using assms by (auto simp: plain_fragment_def widen_to_nullable_def)

text \<open>A value that conforms conforms to the widened fragment too, which also takes a null.\<close>

lemma conforms_type_weaker:
  assumes "\<And>k. k \<noteq> ''type'' \<Longrightarrow> json_get s' k = json_get s k" and "type_ok s v \<Longrightarrow> type_ok s' v" and "conforms s v"
  shows "conforms s' v"
proof -
  have "property_schema s' k = property_schema s k" for k
    using assms(1) [of "''properties''"] by (simp add: property_schema_def)
  moreover have "required_ok s' m = required_ok s m" for m
    using assms(1) [of "''required''"] by (simp add: required_ok_def)
  moreover have "range_ok s' w = range_ok s w" for w
    using assms(1) [of "''minimum''"] assms(1) [of "''maximum''"] by (cases w) (simp_all add: range_ok_def)
  moreover have "json_get s' ''items'' = json_get s ''items''"
    "json_get s' ''additionalProperties'' = json_get s ''additionalProperties''"
    using assms(1) by simp_all
  ultimately show ?thesis using assms(2,3) by (cases v) (simp_all cong: option.case_cong)
qed

lemma widen_conforms:
  assumes "plain_fragment f"
  shows "conforms f v \<Longrightarrow> conforms (widen_to_nullable f n) v"
    and "n \<noteq> Some False \<Longrightarrow> conforms (widen_to_nullable f n) JNull"
proof -
  note g = widen_get [OF assms, of n]
  show "conforms (widen_to_nullable f n) v" if "conforms f v"
  proof (rule conforms_type_weaker [OF _ _ that])
    show "type_ok (widen_to_nullable f n) v" if "type_ok f v"
      using that assms by (auto simp: type_ok_def g plain_fragment_def)
  qed (simp add: g)
  show "conforms (widen_to_nullable f n) JNull" if "n \<noteq> Some False"
    using that assms by (auto simp: type_ok_def g plain_fragment_def type_matches_def)
qed

text \<open>
  A cell of a column, as the driver fetches it: of a type the decoder knows by name or that the schema
  leaves open, and, where the server says the column is \<open>NOT NULL\<close>, one that reads as a value.
\<close>

definition cell_fits :: "(str \<Rightarrow> str) \<Rightarrow> output_column \<Rightarrow> cell \<Rightarrow> bool" where
  "cell_fits b64 col c \<longleftrightarrow>
     ce_name c = oc_name col \<and> ce_type c = oc_type col \<and>
     (oc_type col \<in> set pg_type_names \<or> pg_type_to_json_schema (oc_type col) = json_obj []) \<and>
     (oc_nullable col = Some False \<and> pg_type_to_json_schema (oc_type col) \<noteq> json_obj [] \<longrightarrow>
        column_value (decode_pg_column b64) c \<noteq> JNull)"

text \<open>The cells whose schema is sound: all but those of \<open>BYTEA\<close> columns.\<close>

definition sound_cell :: "(str \<Rightarrow> str) \<Rightarrow> output_column \<Rightarrow> cell \<Rightarrow> bool" where
  "sound_cell b64 col c \<longleftrightarrow> cell_fits b64 col c \<and> oc_type col \<noteq> ''BYTEA''"

lemma sound_cells:
  assumes "\<forall>cells \<in> set rows. list_all2 (cell_fits b64) cols cells" and "\<forall>col \<in> set cols. oc_type col \<noteq> ''BYTEA''"
  shows "\<forall>cells \<in> set rows. list_all2 (sound_cell b64) cols cells"
  using assms by (auto simp: sound_cell_def list_all2_conv_all_nth)

lemma conforms_open: "conforms (json_obj []) v"
  by (cases v) (simp_all add: type_ok_def range_ok_def required_ok_def property_schema_def json_obj_get)

lemma decoded_number:
  "ce_type c \<in> set [''INT2'', ''SMALLINT''] \<Longrightarrow> decode_pg_column b64 c = Inr v \<Longrightarrow> v \<noteq> JNull \<Longrightarrow> \<exists>w :: 16 word. v = json_of_signed w"
  "ce_type c \<in> set [''INT4'', ''INTEGER''] \<Longrightarrow> decode_pg_column b64 c = Inr v \<Longrightarrow> v \<noteq> JNull \<Longrightarrow> \<exists>w :: 32 word. v = json_of_signed w"
  "ce_type c \<in> set [''INT8'', ''BIGINT''] \<Longrightarrow> decode_pg_column b64 c = Inr v \<Longrightarrow> v \<noteq> JNull \<Longrightarrow> \<exists>w :: 64 word. v = json_of_signed w"
  "ce_type c \<in> set [''FLOAT4'', ''FLOAT8'', ''REAL'', ''DOUBLE PRECISION''] \<Longrightarrow> decode_pg_column b64 c = Inr v \<Longrightarrow> v \<noteq> JNull \<Longrightarrow> \<exists>n. v = JNum n"
  "ce_type c = ''BOOL'' \<Longrightarrow> decode_pg_column b64 c = Inr v \<Longrightarrow> v \<noteq> JNull \<Longrightarrow> \<exists>b. v = JBool b"
  unfolding decode_pg_column_def
  by (auto simp: read_as_def json_of_f64_def split: sum.splits option.splits if_splits)

lemma conforms_signed:
  fixes w :: "'a::len word"
  assumes "LENGTH('a) \<le> 64" and "json_get s ''type'' = Some (JStr ''integer'')"
    and "json_get s ''minimum'' = None" and "json_get s ''maximum'' = None"
  shows "conforms s (json_of_signed w)"
  using number_units_signed [OF assms(1), of w] assms(2-)
  by (auto simp: type_ok_def type_matches_def range_ok_def)

lemma conforms_int2: "conforms (pg_type_to_json_schema ''INT2'') (json_of_signed (w :: 16 word))"
proof -
  obtain n where n: "json_of_signed w = JNum n" "number_units n = sint w * 2 ^ 1074"
    using number_units_signed [of w] by auto
  obtain lo where lo: "json_of_int (- 32768) = JNum lo" "number_units lo = - 32768 * 2 ^ 1074"
    using number_units_of_int [of "- 32768"] by auto
  obtain hi where hi: "json_of_int 32767 = JNum hi" "number_units hi = 32767 * 2 ^ 1074"
    using number_units_of_int [of "32767"] by auto
  have "- 32768 \<le> sint w" "sint w \<le> 32767" using sint_ge [of w] sint_lt [of w] by simp_all
  then have "- 32768 * 2 ^ 1074 \<le> sint w * (2 :: int) ^ 1074" "sint w * (2 :: int) ^ 1074 \<le> 32767 * 2 ^ 1074"
    by (intro mult_right_mono zero_le_power; simp)+
  then show ?thesis
    by (simp only: schema_of_types n lo hi conforms.simps type_ok_def range_ok_def json_obj_get)
      (simp del: power_numeral add: type_matches_def n lo hi)
qed

lemma conforms_known:
  assumes "ce_type c = t" and "t \<in> set pg_type_names" and "t \<noteq> ''BYTEA''"
    and "decode_pg_column b64 c = Inr v" and "v \<noteq> JNull"
  shows "conforms (pg_type_to_json_schema t) v"
proof -
  consider "t = ''BOOL''" | "t \<in> set [''INT2'', ''SMALLINT'']" | "t \<in> set [''INT4'', ''INTEGER'']"
    | "t \<in> set [''INT8'', ''BIGINT'']" | "t \<in> set [''FLOAT4'', ''FLOAT8'', ''REAL'', ''DOUBLE PRECISION'']"
    | "t \<in> set pg_open_types" | "t \<in> set pg_text_types"
    using assms(2,3) unfolding pg_type_names_def set_append Un_iff set_simps insert_iff empty_iff
    by (elim disjE; simp add: pg_open_types_def)
  then show ?thesis
  proof cases
    case 1
    then show ?thesis using decoded_number(5) [OF _ assms(4,5)] assms(1)
      by (auto simp: schema_of_types type_ok_def type_matches_def json_obj_get)
  next
    case 2
    then have "pg_type_to_json_schema t = pg_type_to_json_schema ''INT2''" using schema_of_synonyms by auto
    then show ?thesis using 2 decoded_number(1) [OF _ assms(4,5)] assms(1) conforms_int2 by auto
  next
    case 3
    then obtain w :: "32 word" where "v = json_of_signed w" using decoded_number(2) [OF _ assms(4,5)] assms(1) by auto
    moreover have "pg_type_to_json_schema t = json_obj [(''type'', JStr ''integer'')]"
      using 3 schema_of_synonyms schema_of_types by auto
    ultimately show ?thesis by (simp add: conforms_signed json_obj_get)
  next
    case 4
    then obtain w :: "64 word" where "v = json_of_signed w" using decoded_number(3) [OF _ assms(4,5)] assms(1) by auto
    moreover have "pg_type_to_json_schema t = json_obj [(''type'', JStr ''integer'')]"
      using 4 schema_of_synonyms schema_of_types by auto
    ultimately show ?thesis by (simp add: conforms_signed json_obj_get)
  next
    case 5
    then have "pg_type_to_json_schema t = json_obj [(''type'', JStr ''number'')]"
      using schema_of_synonyms schema_of_types by auto
    then show ?thesis using 5 decoded_number(4) [OF _ assms(4,5)] assms(1)
      by (auto simp: type_ok_def type_matches_def range_ok_def json_obj_get)
  next
    case 6
    then show ?thesis by (simp only: schema_of_open_types conforms_open)
  next
    case 7
    then have "json_get (pg_type_to_json_schema t) ''type'' = Some (JStr ''string'')"
      by (rule schema_of_text_types)
    moreover have "\<exists>s. v = JStr s" using text_types_decode [of c b64] 7 assms by (simp add: textual_def)
    ultimately show ?thesis by (auto simp: type_ok_def type_matches_def)
  qed
qed

lemma conforms_column:
  assumes "sound_cell b64 col c"
  shows "conforms (column_schema col) (column_value (decode_pg_column b64) c)"
proof (cases "column_value (decode_pg_column b64) c = JNull")
  case True
  then show ?thesis
  proof (cases "oc_nullable col = Some False")
    case True
    with assms \<open>column_value (decode_pg_column b64) c = JNull\<close> have "column_schema col = json_obj []"
      by (auto simp: sound_cell_def cell_fits_def column_schema_def widen_to_nullable_def)
    then show ?thesis by (simp only: conforms_open)
  next
    case False
    then show ?thesis
      unfolding True column_schema_def by (rule widen_conforms(2) [OF fragment_plain])
  qed
next
  case False
  then have "decode_pg_column b64 c = Inr (column_value (decode_pg_column b64) c)"
    by (auto simp: column_value_def split: sum.splits)
  with False assms show ?thesis
    unfolding column_schema_def sound_cell_def cell_fits_def
    by (intro widen_conforms(1) [OF fragment_plain]) (metis conforms_known conforms_open)
qed

section \<open>Conformance of a response\<close>

text \<open>Two lists of pairs whose elements are related hold related values under a key.\<close>

lemma map_of_related:
  assumes "list_all2 R xs ys" and "\<And>x y. R x y \<Longrightarrow> f x = g y"
    and "map_of (map (\<lambda>y. (g y, v y)) ys) k = Some b"
  shows "\<exists>x y. R x y \<and> b = v y \<and> map_of (map (\<lambda>x. (f x, u x)) xs) k = Some (u x)"
  using assms by (induction rule: list_all2_induct) (auto split: if_splits)

lemma json_obj_members: "json_obj kvs = JObj m \<Longrightarrow> p \<in> set m \<Longrightarrow> map_of (rev kvs) (fst p) = Some (snd p)"
proof -
  assume m: "json_obj kvs = JObj m" and p: "p \<in> set m"
  have "omap_ok m" using json_obj_ok [of kvs] m by auto
  then have "distinct (map fst m)" by (auto simp: omap_ok_def strict_sorted_iff)
  then have "omap_get m (fst p) = Some (snd p)" using p by (simp add: omap_get_def)
  then show ?thesis using json_obj_get [of kvs "fst p"] m by simp
qed

lemma conforms_obj:
  assumes "type_ok s (json_obj kvs)" and "\<And>m. json_obj kvs = JObj m \<Longrightarrow> required_ok s m"
    and "\<And>k v. map_of (rev kvs) k = Some v \<Longrightarrow> \<exists>ps. property_schema s k = Some ps \<and> conforms ps v"
  shows "conforms s (json_obj kvs)"
proof -
  obtain m where m: "json_obj kvs = JObj m" using json_obj_ok [of kvs] by auto
  have "\<exists>ps. property_schema s (fst p) = Some ps \<and> conforms ps (snd p)" if "p \<in> set m" for p
    using json_obj_members [OF m that] assms(3) by auto
  with assms(1) assms(2) [OF m] show ?thesis by (force simp: m)
qed

lemma type_ok_obj: "json_get s ''type'' = Some (JStr ''object'') \<Longrightarrow> type_ok s (json_obj kvs)"
  using json_obj_ok [of kvs] by (auto simp: type_ok_def type_matches_def)

lemma conforms_row:
  assumes "list_all2 (sound_cell b64) cols cells"
  shows "conforms (row_schema cols) (row_to_json_pg b64 cells)"
  unfolding row_to_json_pg_def row_object_alt
proof (rule conforms_obj)
  show "type_ok (row_schema cols) (json_obj (map (\<lambda>c. (ce_name c, column_value (decode_pg_column b64) c)) cells))"
    by (rule type_ok_obj) (simp add: row_schema_def json_obj_get)
next
  fix m
  assume m: "json_obj (map (\<lambda>c. (ce_name c, column_value (decode_pg_column b64) c)) cells) = JObj m"
  have "map ce_name cells = map oc_name cols"
    using assms by (induction rule: list_all2_induct) (auto simp: sound_cell_def cell_fits_def)
  then have "set (map ce_name cells) = set (map oc_name cols)" by simp
  moreover have "omap_get m k \<noteq> None \<longleftrightarrow> k \<in> ce_name ` set cells" for k
    using pg_rows.row_members [of b64 cells k] m by (simp add: row_object_alt)
  ultimately show "required_ok (row_schema cols) m"
    by (auto simp: required_ok_def row_schema_def json_obj_get list_all_iff)
next
  fix k v
  assume v: "map_of (rev (map (\<lambda>c. (ce_name c, column_value (decode_pg_column b64) c)) cells)) k = Some v"
  have "list_all2 (sound_cell b64) (rev cols) (rev cells)" using assms by simp
  from map_of_related [OF this, of oc_name ce_name "\<lambda>c. column_value (decode_pg_column b64) c" k v column_schema] v
  obtain col c where "sound_cell b64 col c" "v = column_value (decode_pg_column b64) c"
    "map_of (map (\<lambda>col. (oc_name col, column_schema col)) (rev cols)) k = Some (column_schema col)"
    by (auto simp: sound_cell_def cell_fits_def rev_map)
  then show "\<exists>ps. property_schema (row_schema cols) k = Some ps \<and> conforms ps v"
    by (simp add: conforms_column property_schema_def row_schema_def json_obj_get rev_map)
qed

lemma conforms_rows:
  assumes "\<forall>cells \<in> set rows. list_all2 (sound_cell b64) cols cells"
  shows "conforms (json_obj [(''type'', JStr ''array''), (''items'', row_schema cols)])
           (JArr (take n (map (row_to_json_pg b64) rows)))"
  using assms conforms_row by (auto simp: type_ok_def type_matches_def json_obj_get dest!: in_set_takeD)

lemma take_if: "(if n < length xs then take n xs else xs) = take n xs"
  by simp

lemma conforms_scalar:
  assumes "sound_cell b64 col c"
  shows "conforms (column_schema col)
           (case row_to_json_pg b64 [c] of JObj m \<Rightarrow> (case omap_first m of Some v \<Rightarrow> v | None \<Rightarrow> JNull) | other \<Rightarrow> other)"
  using conforms_column [OF assms]
  by (simp add: row_to_json_pg_def row_object_alt json_obj_def omap_first_def)

lemma json_obj_snoc: "json_obj kvs = JObj m \<Longrightarrow> JObj (omap_insert k v m) = json_obj (kvs @ [(k, v)])"
  by (simp add: json_obj_def)

lemma minted_cursor: "mint_next_cursor x payload rt name = JNull \<or> (\<exists>s. mint_next_cursor x payload rt name = JStr s)"
  by (simp add: mint_next_cursor_def split: option.splits json.splits)

lemma conforms_stream:
  assumes "\<forall>cells \<in> set rows. list_all2 (sound_cell b64) cols cells" and "cols \<noteq> []"
    and "output_schema_from_pg_columns cols StreamMode = Some schema" and "cur = JNull \<or> (\<exists>s. cur = JStr s)"
  shows "conforms schema
    (json_obj [(''rows'', JArr (take n (map (row_to_json_pg b64) rows))), (''truncated'', JBool t), (''next_cursor'', cur)])"
proof (rule conforms_obj)
  let ?props = "[(''rows'', json_obj [(''type'', JStr ''array''), (''items'', row_schema cols)]),
     (''next_cursor'', json_obj [(''type'', JArr [JStr ''string'', JStr ''null''])]),
     (''truncated'', json_obj [(''type'', JStr ''boolean'')])]"
  have schema: "schema = json_obj
     [(''type'', JStr ''object''), (''additionalProperties'', JBool False),
      (''required'', JArr [JStr ''rows'', JStr ''next_cursor'', JStr ''truncated'']), (''properties'', json_obj ?props)]"
    using assms(2,3) by (cases cols) (simp_all add: output_schema_from_pg_columns_def)
  have g: "json_get schema ''type'' = Some (JStr ''object'')"
    "json_get schema ''required'' = Some (JArr [JStr ''rows'', JStr ''next_cursor'', JStr ''truncated''])"
    "json_get schema ''properties'' = Some (json_obj ?props)"
    unfolding schema json_obj_get by simp_all
  let ?kvs = "[(''rows'', JArr (take n (map (row_to_json_pg b64) rows))), (''truncated'', JBool t), (''next_cursor'', cur)]"
  show "type_ok schema (json_obj ?kvs)" by (rule type_ok_obj) (simp add: g)
  show "required_ok schema m" if "json_obj ?kvs = JObj m" for m
    using json_obj_get [of ?kvs] that by (simp add: required_ok_def g)
  show "\<exists>ps. property_schema schema k = Some ps \<and> conforms ps v" if "map_of (rev ?kvs) k = Some v" for k v
    using that conforms_rows [OF assms(1), of n] assms(4)
    by (auto simp: property_schema_def g json_obj_get type_ok_def type_matches_def split: if_splits)
qed

lemma first_row_taken:
  fixes max_rows :: u64
  assumes "rows \<noteq> [] \<and> 0 < max_rows"
  shows "\<exists>r \<in> set rows. first_row (take (unat max_rows) (map f rows)) = f r"
proof -
  have "0 < unat max_rows" using assms by (simp add: word_less_nat_alt)
  with assms show ?thesis by (cases rows; cases "unat max_rows") (auto simp: first_row_def)
qed

lemma next_cursor_added:
  assumes "rt_row_mode rt = StreamMode" and "rt_stream rt = Some st"
    and p: "payload = json_obj [(''rows'', rows), (''truncated'', truncated)]"
  shows "with_next_cursor xe rt name payload =
    json_obj [(''rows'', rows), (''truncated'', truncated),
              (''next_cursor'', mint_next_cursor (xe_codec xe) payload st name)]"
proof -
  obtain m where m: "payload = JObj m" unfolding p using json_obj_ok by blast
  let ?cur = "mint_next_cursor (xe_codec xe) payload st name"
  have "with_next_cursor xe rt name payload = JObj (omap_insert ''next_cursor'' ?cur m)"
    using assms(1,2) m by (simp add: with_next_cursor_def)
  also have "\<dots> = json_obj [(''rows'', rows), (''truncated'', truncated), (''next_cursor'', ?cur)]"
    using json_obj_snoc [OF p [symmetric, unfolded m]] by simp
  finally show ?thesis .
qed

text \<open>
  C10. The response of a call conforms to the output schema that was derived from the columns of its
  statement, in every row mode that has one: for columns of every type the driver decodes by name except
  \<open>BYTEA\<close>, and of the types whose schema is open, with a column proved \<open>NOT NULL\<close> reading as a value, at least
  one row in the modes \<open>single\<close> and \<open>scalar\<close>, and one column in the mode \<open>scalar\<close>.  \<open>BYTEA\<close> is left out
  because the schema asks for a string there and the driver answers an object (\<open>bytea_breaks_schema\<close>).
\<close>

theorem derived_schema_sound:
  assumes "output_schema_from_pg_columns cols mode = Some schema"
    and "\<forall>cells \<in> set rows. list_all2 (cell_fits b64) cols cells" and "\<forall>col \<in> set cols. oc_type col \<noteq> ''BYTEA''"
    and "mode \<in> {Single, Scalar} \<longrightarrow> rows \<noteq> [] \<and> 0 < max_rows" and "mode = Scalar \<longrightarrow> length cols = 1"
    and "rb_rows batch = map (row_to_json_pg b64) rows"
    and "shape_response mtext batch mode max_rows = Inr (payload, truncated)"
    and "rt_row_mode rt = mode" and "mode = StreamMode \<longrightarrow> rt_stream rt \<noteq> None"
  shows "conforms schema (with_next_cursor xe rt name payload)"
proof -
  let ?rows = "take (unat max_rows) (map (row_to_json_pg b64) rows)"
  note cells = sound_cells [OF assms(2,3)]
  note shape = assms(7) [unfolded shape_response_def assms(6) Let_def]
  have cols: "cols \<noteq> []" using assms(1) by (auto simp: output_schema_from_pg_columns_def)
  have same: "with_next_cursor xe rt name payload = payload" if "mode \<noteq> StreamMode"
    using that assms(8) by (simp add: with_next_cursor_def split: option.splits)
  have first: "\<exists>cells \<in> set rows. first_row ?rows = row_to_json_pg b64 cells" if "mode \<in> {Single, Scalar}"
    using first_row_taken that assms(4) by blast
  show ?thesis
  proof (cases mode)
    case Single
    with shape have "payload = first_row ?rows" by (auto split: if_splits)
    with first Single assms(1) cells cols conforms_row same show ?thesis
      by (auto simp: output_schema_from_pg_columns_def neq_Nil_conv)
  next
    case Many
    with shape have "payload = JArr ?rows" by (auto split: if_splits)
    with Many assms(1) cells cols conforms_rows same show ?thesis
      by (auto simp: output_schema_from_pg_columns_def neq_Nil_conv simp del: conforms.simps)
  next
    case Scalar
    with assms(5) obtain col where col: "cols = [col]" by (auto simp: length_Suc_conv)
    obtain cs where cs: "cs \<in> set rows" "first_row ?rows = row_to_json_pg b64 cs" using first Scalar by auto
    then obtain c where c: "cs = [c]" "sound_cell b64 col c"
      using cells col by (auto simp: list_all2_Cons1)
    from Scalar shape have "payload = (case first_row ?rows of JObj m \<Rightarrow> (case omap_first m of Some v \<Rightarrow> v | None \<Rightarrow> JNull) | other \<Rightarrow> other)"
      by (auto split: if_splits)
    with conforms_scalar [OF c(2)] same Scalar assms(1) col cs c show ?thesis
      by (simp add: output_schema_from_pg_columns_def)
  next
    case AffectedRows
    with shape obtain n where "payload = json_obj [(''rows_affected'', json_of_u64 n)]" by auto
    with same AffectedRows assms(1) cols show ?thesis
      by (auto simp: output_schema_from_pg_columns_def neq_Nil_conv json_obj_def json_of_u64_def property_schema_def
          type_ok_def type_matches_def range_ok_def required_ok_def json_of_int_def number_units_def omap_get_def)
  next
    case StreamMode
    from shape StreamMode have p: "payload = json_obj [(''rows'', JArr ?rows), (''truncated'', JBool truncated)]"
      by (auto split: if_splits)
    from assms(8,9) StreamMode obtain st where "rt_stream rt = Some st" by auto
    note next_cursor_added [OF assms(8) [unfolded StreamMode] this p]
    then show ?thesis
      using conforms_stream [OF cells cols assms(1) [unfolded StreamMode] minted_cursor] by simp
  qed (use assms(1) cols in \<open>auto simp: output_schema_from_pg_columns_def neq_Nil_conv\<close>)
qed

definition sample_column :: output_column where
  "sample_column = \<lparr>oc_name = ''id'', oc_type = ''INT4'', oc_nullable = Some False\<rparr>"

definition sample_cell :: cell where
  "sample_cell = sample_null\<lparr>ce_name := ''id'', ce_type := ''INT4'', ce_i32 := Inr (Some 7)\<rparr>"

theorem derived_schema_sound_witness:
  "\<exists>schema. output_schema_from_pg_columns [sample_column] Many = Some schema
     \<and> conforms schema (JArr [row_to_json_pg id [sample_cell]])"
proof -
  obtain schema where schema: "output_schema_from_pg_columns [sample_column] Many = Some schema"
    by (simp add: output_schema_from_pg_columns_def)
  have fits: "\<forall>cells \<in> set [[sample_cell]]. list_all2 (cell_fits id) [sample_column] cells"
    by (simp add: cell_fits_def sample_cell_def sample_column_def sample_null_def pg_type_names_def column_value_def
        decode_pg_column_def read_as_def json_of_signed_def json_of_int_def)
  let ?batch = "batch_of [''id''] (map (row_to_json_pg id) [[sample_cell]])"
  have rows: "rb_rows ?batch = map (row_to_json_pg id) [[sample_cell]]" by (simp add: batch_of_def)
  have "shape_response (\<lambda>_. []) ?batch Many 10 = Inr (JArr [row_to_json_pg id [sample_cell]], False)"
    by (simp add: shape_response_def batch_of_def)
  from derived_schema_sound [OF schema fits _ _ _ rows this, of sample_rt sample_xe "[]"]
  have "conforms schema (JArr [row_to_json_pg id [sample_cell]])"
    by (simp add: sample_rt_def sample_column_def with_next_cursor_def del: conforms.simps)
  with schema show ?thesis by blast
qed

text \<open>
  A \<open>BYTEA\<close> value never conforms to the schema derived for its column: the value is an object, the
  schema asks for a string.
\<close>

theorem bytea_breaks_schema:
  assumes "oc_type col = ''BYTEA''" and "ce_type c = ''BYTEA''" and "ce_bytes c = Inr (Some bytes)"
  shows "\<not> conforms (column_schema col) (column_value (decode_pg_column b64) c)"
proof -
  have v: "column_value (decode_pg_column b64) c = JObj [(''base64'', JStr (b64 bytes))]"
    using assms(2,3) by (simp add: column_value_def decode_pg_column_def json_of_bytes_def json_obj_def)
  have "\<not> type_ok (column_schema col) (JObj [(''base64'', JStr (b64 bytes))])"
    unfolding column_schema_def type_ok_def widen_get [OF fragment_plain] assms(1)
    by (simp add: schema_of_types json_obj_get type_matches_def)
  then show ?thesis by (simp add: v)
qed

theorem bytea_breaks_schema_witness:
  "\<not> conforms (column_schema \<lparr>oc_name = ''b'', oc_type = ''BYTEA'', oc_nullable = None\<rparr>)
       (column_value (decode_pg_column id) (sample_null\<lparr>ce_type := ''BYTEA'', ce_bytes := Inr (Some ''x'')\<rparr>))"
  by (rule bytea_breaks_schema) simp_all

section \<open>Arguments\<close>

text \<open>
  The derived input schema asks for what the statement needs: arguments that conform to it bind
  every parameter, and no other argument is let through.
\<close>

theorem input_schema_sound:
  assumes "input_schema_from_pg_params names types = Some schema" and "conforms schema args"
  shows "\<exists>bound. collect_bound_params args names = Inr bound \<and> map bp_name bound = names
       \<and> (\<exists>m. args = JObj m \<and> fst ` set m \<subseteq> set names)"
proof -
  let ?params = "map (\<lambda>(n, ty). (n, pg_type_to_json_schema ty)) (zip names types)"
  from assms(1) have len: "length names = length types" and schema: "schema = build_input_schema ?params"
    by (auto simp: input_schema_from_pg_params_def split: if_splits)
  have keys: "map fst ?params = names" using len by (simp add: map_fst_zip comp_def case_prod_beta')
  have g: "json_get schema ''type'' = Some (JStr ''object'')"
    "json_get schema ''required'' = Some (JArr (map (\<lambda>p. JStr (fst p)) ?params))"
    "json_get schema ''additionalProperties'' = Some (JBool False)"
    "json_get schema ''properties'' = Some (json_obj ?params)"
    unfolding schema build_input_schema_def json_obj_get by simp_all
  obtain m where m: "args = JObj m"
    using assms(2) g(1) by (cases args) (auto simp: type_ok_def type_matches_def)
  have req: "omap_get m k \<noteq> None" if "k \<in> set names" for k
  proof -
    from that keys have "k \<in> set (map fst ?params)" by simp
    with assms(2) m g(2) show ?thesis by (fastforce simp: required_ok_def list_all_iff)
  qed
  have "fst p \<in> set names" if "p \<in> set m" for p
  proof -
    have "case property_schema schema (fst p) of
            Some s \<Rightarrow> conforms s (snd p) | None \<Rightarrow> json_get schema ''additionalProperties'' \<noteq> Some (JBool False)"
      using assms(2) m that by simp
    with g(3) have "property_schema schema (fst p) \<noteq> None" by (cases "property_schema schema (fst p)") simp_all
    then have "fst p \<in> set (map fst ?params)"
      by (auto simp: property_schema_def g(4) json_obj_get map_of_eq_None_iff simp del: map_map)
    with keys show ?thesis by simp
  qed
  moreover have "find (\<lambda>name. omap_get m name = None) names = None" using req by (simp add: find_None_iff)
  ultimately show ?thesis by (auto simp: m collect_bound_params_def collect_from_closed comp_def)
qed

theorem input_schema_sound_witness:
  "\<exists>schema. input_schema_from_pg_params [''id''] [''INT4''] = Some schema
     \<and> (\<exists>bound. collect_bound_params (JObj [(''id'', JNum (PosInt 7))]) [''id''] = Inr bound \<and> map bp_name bound = [''id''])"
proof -
  let ?args = "JObj [(''id'', JNum (PosInt 7))]"
  obtain schema where schema: "input_schema_from_pg_params [''id''] [''INT4''] = Some schema"
    by (simp add: input_schema_from_pg_params_def)
  then have s: "schema = build_input_schema [(''id'', json_obj [(''type'', JStr ''integer'')])]"
    by (simp add: input_schema_from_pg_params_def schema_of_types)
  have "conforms schema ?args"
    by (simp add: s build_input_schema_def type_ok_def type_matches_def required_ok_def property_schema_def range_ok_def
        json_obj_get number_units_def omap_get_def)
  from input_schema_sound [OF schema this] obtain bound where
    "collect_bound_params ?args [''id''] = Inr bound" "map bp_name bound = [''id'']" by (elim exE conjE)
  with schema show ?thesis by (intro exI [of _ schema] exI [of _ bound] conjI)
qed

end
