(* ===== verification/Sessions.thy ===== *)
theory Sessions
  imports Rows InFlight Transaction
begin

text \<open>
  The statement paths of \<open>src/driver/postgres.rs\<close>, \<open>src/driver/mysql.rs\<close> and \<open>src/driver/sqlite.rs\<close>
  outside transactions, with the session variables of \<open>src/session.rs\<close>.  A pooled connection is its
  \<open>wire\<close>: every statement sent on it, with whether it succeeded; what the server answers is a function of
  the wire, in \<open>conn_env\<close>.  PostgreSQL's \<open>set_config(_, _, true)\<close> lasts until the end of the transaction
  and MySQL's \<open>@\<close>-variables as long as the connection: \<open>tx_vars\<close> and \<open>user_vars\<close> read them off a wire.
\<close>

section \<open>Connections\<close>

datatype wire_event =
    AskId
  | Registered str backend_id
  | BeginW
  | SetW str str
  | ClearW str
  | FetchW str "bind_arg list"
  | ExecW str "bind_arg list"
  | StreamW str "bind_arg list"
  | CommitW
  | DropW
  | PingW
  | GrantsW

type_synonym wire = "(wire_event \<times> bool) list"

text \<open>The variant of a \<open>PoolHandle\<close>.\<close>

datatype pool_handle = PgPool | MyPool | LitePool

record conn_env =
  ne_pool :: pool_handle
  ne_acquire :: "sqlx_error + unit"
  ne_pid :: "wire \<Rightarrow> sqlx_error + 32 word"
  ne_conn_id :: "wire \<Rightarrow> sqlx_error + u64"
  ne_begin :: "wire \<Rightarrow> sqlx_error + unit"
  ne_set :: "wire \<Rightarrow> str \<Rightarrow> str \<Rightarrow> sqlx_error + unit"
  ne_clear :: "wire \<Rightarrow> str \<Rightarrow> sqlx_error + unit"
  ne_fetch :: "wire \<Rightarrow> str \<Rightarrow> bind_arg list \<Rightarrow> sqlx_error + cell list list"
  ne_exec :: "wire \<Rightarrow> str \<Rightarrow> bind_arg list \<Rightarrow> sqlx_error + u64"
  ne_stream :: "wire \<Rightarrow> str \<Rightarrow> bind_arg list \<Rightarrow> (cell list + unit) list \<times> (sqlx_error + unit)"
  ne_commit :: "wire \<Rightarrow> sqlx_error + unit"
  ne_ping :: "wire \<Rightarrow> sqlx_error + unit"
  ne_grants :: "wire \<Rightarrow> sqlx_error + str list"
  ne_ntext :: "number \<Rightarrow> str"
  ne_jtext :: "json \<Rightarrow> str"
  ne_b64 :: "str \<Rightarrow> str"

text \<open>A computation on a connection; \<open>ask\<close> sends one statement, an error being \<open>from_execute\<close>'s.\<close>

type_synonym 'a wired = "wire \<Rightarrow> wire \<times> 'a sql_result"

definition wreturn :: "'a \<Rightarrow> 'a wired" where
  "wreturn x w = (w, Inr x)"

definition wbind :: "'a wired \<Rightarrow> ('a \<Rightarrow> 'b wired) \<Rightarrow> 'b wired" where
  "wbind m f w = (case m w of (w1, Inl e) \<Rightarrow> (w1, Inl e) | (w1, Inr x) \<Rightarrow> f x w1)"

definition ask :: "wire_event \<Rightarrow> (wire \<Rightarrow> sqlx_error + 'a) \<Rightarrow> 'a wired" where
  "ask ev answer w = (w @ [(ev, is_ok (answer w))], map_err from_execute (answer w))"

text \<open>A connection of the pool, which must be one of the driver's own.\<close>

definition acquire :: "pool_handle \<Rightarrow> conn_env \<Rightarrow> 'a wired \<Rightarrow> 'a wired" where
  "acquire p env m w =
     (if ne_pool env \<noteq> p then (w, Inl (invalid ''driver invoked with a foreign pool handle'' []))
      else (case ne_acquire env of Inl e \<Rightarrow> (w, Inl (from_execute e)) | Inr _ \<Rightarrow> m w))"

text \<open>Setting the variables of a session, up to the first error.\<close>

fun set_session :: "conn_env \<Rightarrow> (str \<times> str) list \<Rightarrow> unit wired" where
  "set_session env [] = wreturn ()"
| "set_session env ((k, v) # session) = wbind (ask (SetW k v) (\<lambda>w. ne_set env w k v)) (\<lambda>_. set_session env session)"

section \<open>PostgreSQL\<close>

text \<open>
  The transaction is dropped, and so rolled back, on every early return between its begin and the
  end of its commit.
\<close>

definition pg_scoped :: "conn_env \<Rightarrow> (str \<times> str) list \<Rightarrow> 'a wired \<Rightarrow> 'a wired" where
  "pg_scoped env session body =
     (if session = [] then body
      else
        wbind (ask BeginW (ne_begin env)) (\<lambda>_ w.
          case wbind (set_session env session) (\<lambda>_.
               wbind body (\<lambda>x. wbind (ask CommitW (ne_commit env)) (\<lambda>_. wreturn x))) w of
            (w1, Inl e) \<Rightarrow> (w1 @ [(DropW, True)], Inl e)
          | (w1, Inr x) \<Rightarrow> (w1, Inr x)))"

definition pg_args :: "conn_env \<Rightarrow> bound_param list \<Rightarrow> bind_arg list" where
  "pg_args env args = map (\<lambda>a. bind_pg (ne_ntext env) (bp_value a)) args"

definition rows_batch :: "(cell list \<Rightarrow> json) \<Rightarrow> cell list list \<Rightarrow> row_batch" where
  "rows_batch to_json rows =
     batch_of (case rows of [] \<Rightarrow> [] | r # _ \<Rightarrow> map ce_name r) (map to_json rows)"

definition pg_fetch :: "conn_env \<Rightarrow> prepared_stmt \<Rightarrow> bound_param list \<Rightarrow> row_batch wired" where
  "pg_fetch env stmt args =
     wbind (ask (FetchW (ps_sql stmt) (pg_args env args)) (\<lambda>w. ne_fetch env w (ps_sql stmt) (pg_args env args)))
       (\<lambda>rows. wreturn (rows_batch (row_to_json_pg (ne_b64 env)) rows))"

definition pg_exec :: "conn_env \<Rightarrow> prepared_stmt \<Rightarrow> bound_param list \<Rightarrow> u64 wired" where
  "pg_exec env stmt args =
     ask (ExecW (ps_sql stmt) (pg_args env args)) (\<lambda>w. ne_exec env w (ps_sql stmt) (pg_args env args))"

definition pg_pool_execute :: "conn_env \<Rightarrow> prepared_stmt \<Rightarrow> bound_param list \<Rightarrow> (str \<times> str) list \<Rightarrow> row_batch wired" where
  "pg_pool_execute env stmt args session = acquire PgPool env (pg_scoped env session (pg_fetch env stmt args))"

definition pg_pool_execute_affected :: "conn_env \<Rightarrow> prepared_stmt \<Rightarrow> bound_param list \<Rightarrow> (str \<times> str) list \<Rightarrow> u64 wired" where
  "pg_pool_execute_affected env stmt args session = acquire PgPool env (pg_scoped env session (pg_exec env stmt args))"

text \<open>The request id of an \<open>ExecCtx\<close> that carries the registry too; the entry is filled in before the statement.\<close>

definition register_id :: "str option \<Rightarrow> backend_id \<Rightarrow> unit wired" where
  "register_id rid i w = ((case rid of Some r \<Rightarrow> w @ [(Registered r i, True)] | None \<Rightarrow> w), Inr ())"

definition pg_pinned :: "conn_env \<Rightarrow> str option \<Rightarrow> 'a wired \<Rightarrow> 'a wired" where
  "pg_pinned env rid m =
     acquire PgPool env
       (wbind (ask AskId (ne_pid env)) (\<lambda>pid. wbind (register_id rid (PostgresId pid)) (\<lambda>_. m)))"

definition pg_execute_with_ctx ::
    "conn_env \<Rightarrow> str option \<Rightarrow> prepared_stmt \<Rightarrow> bound_param list \<Rightarrow> (str \<times> str) list \<Rightarrow> row_batch wired" where
  "pg_execute_with_ctx env rid stmt args session = pg_pinned env rid (pg_scoped env session (pg_fetch env stmt args))"

definition pg_execute_affected_with_ctx ::
    "conn_env \<Rightarrow> str option \<Rightarrow> prepared_stmt \<Rightarrow> bound_param list \<Rightarrow> (str \<times> str) list \<Rightarrow> u64 wired" where
  "pg_execute_affected_with_ctx env rid stmt args session = pg_pinned env rid (pg_scoped env session (pg_exec env stmt args))"

section \<open>MySQL\<close>

text \<open>The teardown: one statement per variable, its outcome ignored.\<close>

fun clear_session :: "conn_env \<Rightarrow> (str \<times> str) list \<Rightarrow> wire \<Rightarrow> wire" where
  "clear_session env [] w = w"
| "clear_session env ((k, _) # session) w = clear_session env session (w @ [(ClearW k, is_ok (ne_clear env w k))])"

definition my_scoped :: "conn_env \<Rightarrow> (str \<times> str) list \<Rightarrow> 'a wired \<Rightarrow> 'a wired" where
  "my_scoped env session body =
     wbind (set_session env session) (\<lambda>_ w. case body w of (w1, r) \<Rightarrow> (clear_session env session w1, r))"

definition my_args :: "conn_env \<Rightarrow> bound_param list \<Rightarrow> bind_arg list" where
  "my_args env args = map (\<lambda>a. bind_mysql (ne_ntext env) (bp_value a)) args"

definition my_fetch :: "conn_env \<Rightarrow> prepared_stmt \<Rightarrow> bound_param list \<Rightarrow> row_batch wired" where
  "my_fetch env stmt args =
     wbind (ask (FetchW (ps_sql stmt) (my_args env args)) (\<lambda>w. ne_fetch env w (ps_sql stmt) (my_args env args)))
       (\<lambda>rows. wreturn (rows_batch (row_to_json_mysql (ne_b64 env)) rows))"

definition my_exec :: "conn_env \<Rightarrow> prepared_stmt \<Rightarrow> bound_param list \<Rightarrow> u64 wired" where
  "my_exec env stmt args =
     ask (ExecW (ps_sql stmt) (my_args env args)) (\<lambda>w. ne_exec env w (ps_sql stmt) (my_args env args))"

definition my_pool_execute :: "conn_env \<Rightarrow> prepared_stmt \<Rightarrow> bound_param list \<Rightarrow> (str \<times> str) list \<Rightarrow> row_batch wired" where
  "my_pool_execute env stmt args session =
     acquire MyPool env (if session = [] then my_fetch env stmt args else my_scoped env session (my_fetch env stmt args))"

definition my_pool_execute_affected :: "conn_env \<Rightarrow> prepared_stmt \<Rightarrow> bound_param list \<Rightarrow> (str \<times> str) list \<Rightarrow> u64 wired" where
  "my_pool_execute_affected env stmt args session =
     acquire MyPool env (if session = [] then my_exec env stmt args else my_scoped env session (my_exec env stmt args))"

definition my_pinned :: "conn_env \<Rightarrow> str option \<Rightarrow> 'a wired \<Rightarrow> 'a wired" where
  "my_pinned env rid m =
     acquire MyPool env
       (wbind (ask AskId (ne_conn_id env)) (\<lambda>conn_id. wbind (register_id rid (MysqlId conn_id)) (\<lambda>_. m)))"

definition my_execute_with_ctx ::
    "conn_env \<Rightarrow> str option \<Rightarrow> prepared_stmt \<Rightarrow> bound_param list \<Rightarrow> (str \<times> str) list \<Rightarrow> row_batch wired" where
  "my_execute_with_ctx env rid stmt args session = my_pinned env rid (my_scoped env session (my_fetch env stmt args))"

definition my_execute_affected_with_ctx ::
    "conn_env \<Rightarrow> str option \<Rightarrow> prepared_stmt \<Rightarrow> bound_param list \<Rightarrow> (str \<times> str) list \<Rightarrow> u64 wired" where
  "my_execute_affected_with_ctx env rid stmt args session = my_pinned env rid (my_scoped env session (my_exec env stmt args))"

text \<open>The rows between two boundaries are a set; a boundary that closes no row is dropped.\<close>

fun group_items :: "json list list \<Rightarrow> json list \<Rightarrow> (json + unit) list \<Rightarrow> json list list \<times> json list" where
  "group_items sets cur [] = (sets, cur)"
| "group_items sets cur (Inl row # items) = group_items sets (cur @ [row]) items"
| "group_items sets cur (Inr _ # items) =
     (if cur \<noteq> [] then group_items (sets @ [cur]) [] items else group_items sets cur items)"

definition group_sets :: "(json + unit) list \<Rightarrow> json list list" where
  "group_sets items = (case group_items [] [] items of (sets, cur) \<Rightarrow> if cur \<noteq> [] then sets @ [cur] else sets)"

definition my_stream :: "conn_env \<Rightarrow> prepared_stmt \<Rightarrow> bound_param list \<Rightarrow> json list list wired" where
  "my_stream env stmt args w =
     (case ne_stream env w (ps_sql stmt) (my_args env args) of (items, outcome) \<Rightarrow>
        (w @ [(StreamW (ps_sql stmt) (my_args env args), is_ok outcome)],
         and_then (map_err from_execute outcome)
           (\<lambda>_. Inr (group_sets (map (map_sum (row_to_json_mysql (ne_b64 env)) id) items)))))"

definition my_execute_multi_result ::
    "conn_env \<Rightarrow> prepared_stmt \<Rightarrow> bound_param list \<Rightarrow> (str \<times> str) list \<Rightarrow> json list list wired" where
  "my_execute_multi_result env stmt args session = acquire MyPool env (my_scoped env session (my_stream env stmt args))"

text \<open>\<open>trim_start_matches\<close> of a text: every copy of it in front goes.\<close>

function trim_start_matches :: "str \<Rightarrow> str \<Rightarrow> str" where
  "trim_start_matches p s =
     (if p = [] then s else (case strip_prefix p s of Some r \<Rightarrow> trim_start_matches p r | None \<Rightarrow> s))"
  by pat_completeness auto
termination
  by (relation "measure (\<lambda>(p, s). length s)") (auto simp: strip_prefix_Some)

declare trim_start_matches.simps [simp del]

fun split_once_str :: "str \<Rightarrow> str \<Rightarrow> (str \<times> str) option" where
  "split_once_str p [] = (if p = [] then Some ([], []) else None)"
| "split_once_str p (c # cs) =
     (case strip_prefix p (c # cs) of
        Some r \<Rightarrow> Some ([], r)
      | None \<Rightarrow> map_option (apfst (Cons c)) (split_once_str p cs))"

definition grant_line_implies_kill :: "str \<Rightarrow> bool" where
  "grant_line_implies_kill line =
     (let upper = map to_ascii_upper line;
          priv_list = (case split_once_str '' ON '' upper of Some (before, _) \<Rightarrow> before | None \<Rightarrow> upper);
          privs = trim (trim_start_matches ''GRANT'' priv_list)
      in list_ex (\<lambda>tok. trim tok \<in> set [''PROCESS'', ''CONNECTION_ADMIN'', ''ALL PRIVILEGES''])
           (split_on (CHR '','') privs))"

definition verify_cancel_privilege :: "conn_env \<Rightarrow> unit wired" where
  "verify_cancel_privilege env =
     acquire MyPool env
       (wbind (ask GrantsW (ne_grants env)) (\<lambda>grants w.
          (w, if list_ex grant_line_implies_kill grants then Inr ()
              else Inl (invalid ''MySQL pool user lacks the PROCESS / CONNECTION_ADMIN privilege'' grants))))"

section \<open>SQLite and health\<close>

text \<open>Session variables do not apply to SQLite.\<close>

definition lite_args :: "conn_env \<Rightarrow> bound_param list \<Rightarrow> bind_arg list" where
  "lite_args env args = map (\<lambda>a. bind_sqlite (ne_jtext env) (ne_ntext env) (bp_value a)) args"

definition lite_pool_execute :: "conn_env \<Rightarrow> prepared_stmt \<Rightarrow> bound_param list \<Rightarrow> (str \<times> str) list \<Rightarrow> row_batch wired" where
  "lite_pool_execute env stmt args session =
     acquire LitePool env
       (wbind (ask (FetchW (ps_sql stmt) (lite_args env args)) (\<lambda>w. ne_fetch env w (ps_sql stmt) (lite_args env args)))
         (\<lambda>rows. wreturn (rows_batch (row_to_json_sqlite (ne_b64 env)) rows)))"

definition lite_pool_execute_affected :: "conn_env \<Rightarrow> prepared_stmt \<Rightarrow> bound_param list \<Rightarrow> (str \<times> str) list \<Rightarrow> u64 wired" where
  "lite_pool_execute_affected env stmt args session =
     acquire LitePool env
       (ask (ExecW (ps_sql stmt) (lite_args env args)) (\<lambda>w. ne_exec env w (ps_sql stmt) (lite_args env args)))"

text \<open>\<open>SELECT 1\<close> on a connection of the pool, the same for every driver.\<close>

definition health_check :: "pool_handle \<Rightarrow> conn_env \<Rightarrow> unit wired" where
  "health_check p env = acquire p env (ask PingW (ne_ping env))"

section \<open>What a connection keeps\<close>

fun user_var_step :: "wire_event \<times> bool \<Rightarrow> (str \<rightharpoonup> str) \<Rightarrow> str \<rightharpoonup> str" where
  "user_var_step (SetW k v, True) m = m(k \<mapsto> v)"
| "user_var_step (ClearW k, True) m = m(k := None)"
| "user_var_step _ m = m"

definition user_vars :: "wire \<Rightarrow> str \<rightharpoonup> str" where
  "user_vars w = fold user_var_step w Map.empty"

fun tx_var_step :: "wire_event \<times> bool \<Rightarrow> (str \<rightharpoonup> str) \<Rightarrow> str \<rightharpoonup> str" where
  "tx_var_step (SetW k v, True) m = m(k \<mapsto> v)"
| "tx_var_step (CommitW, True) m = Map.empty"
| "tx_var_step (DropW, _) m = Map.empty"
| "tx_var_step _ m = m"

definition tx_vars :: "wire \<Rightarrow> str \<rightharpoonup> str" where
  "tx_vars w = fold tx_var_step w Map.empty"

lemma vars_append:
  "user_vars (w @ evs) = fold user_var_step evs (user_vars w)" "tx_vars (w @ evs) = fold tx_var_step evs (tx_vars w)"
  by (simp_all add: user_vars_def tx_vars_def)

text \<open>A body sends statements only; it neither sets a variable nor ends a transaction.\<close>

definition statement_event :: "wire_event \<Rightarrow> bool" where
  "statement_event e = (case e of FetchW _ _ \<Rightarrow> True | ExecW _ _ \<Rightarrow> True | StreamW _ _ \<Rightarrow> True | _ \<Rightarrow> False)"

definition plain_body :: "'a wired \<Rightarrow> bool" where
  "plain_body body \<longleftrightarrow> (\<forall>w. \<exists>evs. fst (body w) = w @ evs \<and> (\<forall>e \<in> set evs. statement_event (fst e)))"

lemma statement_steps:
  assumes "\<forall>e \<in> set evs. statement_event (fst e)"
  shows "fold user_var_step evs m = m" and "fold tx_var_step evs m = m"
  using assms
proof (induction evs)
  case (Cons e evs)
  case 1
  then show ?case using Cons by (cases e; cases "fst e") (auto simp: statement_event_def)
  case 2
  then show ?case using Cons by (cases e; cases "fst e") (auto simp: statement_event_def)
qed simp_all

lemma plain_vars:
  "plain_body body \<Longrightarrow> user_vars (fst (body w)) = user_vars w" "plain_body body \<Longrightarrow> tx_vars (fst (body w)) = tx_vars w"
  using statement_steps by (metis plain_body_def vars_append(1)) (use statement_steps in \<open>metis plain_body_def vars_append(2)\<close>)

lemma plain_bodies:
  "plain_body (pg_fetch env stmt args)" "plain_body (pg_exec env stmt args)" "plain_body (my_fetch env stmt args)"
  "plain_body (my_exec env stmt args)" "plain_body (my_stream env stmt args)"
  by (auto simp: plain_body_def pg_fetch_def pg_exec_def my_fetch_def my_exec_def my_stream_def wbind_def ask_def
      wreturn_def statement_event_def split: sum.splits prod.splits)

lemma sets_step:
  "distinct (map fst session) \<Longrightarrow> fold user_var_step (map (\<lambda>(k, v). (SetW k v, True)) session) m = m ++ map_of session"
  "distinct (map fst session) \<Longrightarrow> fold tx_var_step (map (\<lambda>(k, v). (SetW k v, True)) session) m = m ++ map_of session"
proof (induction session arbitrary: m)
  case (Cons p session)
  case 1
  then show ?case using Cons by (cases p) (auto simp: fun_eq_iff map_add_def map_of_eq_None_iff [THEN iffD2] split: option.splits)
  case 2
  then show ?case using Cons by (cases p) (auto simp: fun_eq_iff map_add_def map_of_eq_None_iff [THEN iffD2] split: option.splits)
qed simp_all

lemma set_session_ok:
  "set_session env session w = (w1, Inr u) \<Longrightarrow> w1 = w @ map (\<lambda>(k, v). (SetW k v, True)) session"
proof (induction session arbitrary: w)
  case (Cons p session)
  obtain k v where p: "p = (k, v)" by (cases p)
  from Cons.prems have "set_session env session (w @ [(SetW k v, True)]) = (w1, Inr u)"
    by (auto simp: p wbind_def ask_def split: sum.splits prod.splits)
  from Cons.IH [OF this] show ?case by (simp add: p)
qed (simp add: wreturn_def)

text \<open>When a variable cannot be set, those before it are set already.\<close>

lemma set_session_failed:
  "set_session env session w = (w1, Inl e) \<Longrightarrow>
     \<exists>before k v later. session = before @ (k, v) # later
       \<and> w1 = w @ map (\<lambda>(k, v). (SetW k v, True)) before @ [(SetW k v, False)]"
proof (induction session arbitrary: w)
  case (Cons p session)
  obtain k v where p: "p = (k, v)" by (cases p)
  show ?case
  proof (cases "ne_set env w k v")
    case (Inl x)
    with Cons.prems have "w1 = w @ [(SetW k v, False)]" by (auto simp: p wbind_def ask_def)
    then show ?thesis unfolding p by (intro exI [of _ "[]"] exI [of _ k] exI [of _ v] exI [of _ session]) simp
  next
    case (Inr x)
    with Cons.prems have "set_session env session (w @ [(SetW k v, True)]) = (w1, Inl e)"
      by (auto simp: p wbind_def ask_def)
    from Cons.IH [OF this] obtain before k' v' later where
      "session = before @ (k', v') # later"
      "w1 = (w @ [(SetW k v, True)]) @ map (\<lambda>(k, v). (SetW k v, True)) before @ [(SetW k' v', False)]" by blast
    then show ?thesis unfolding p by (intro exI [of _ "(k, v) # before"] exI [of _ k'] exI [of _ v'] exI [of _ later]) simp
  qed
qed (simp add: wreturn_def)

lemma clear_session_vars_gone:
  assumes "\<And>w k. is_ok (ne_clear env w k)"
  shows "user_vars (clear_session env session w) = (\<lambda>k. if k \<in> fst ` set session then None else user_vars w k)"
proof (induction session arbitrary: w)
  case (Cons p session)
  then show ?case using assms by (cases p) (auto simp: vars_append fun_eq_iff)
qed (simp add: fun_eq_iff)

section \<open>The contract of a scope\<close>

text \<open>
  A scope runs a statement with the variables of its session and no others, and leaves none behind.
  \<open>reliable\<close> is what the scope relies on the server for.
\<close>

locale session_scope =
  fixes run :: "(str \<times> str) list \<Rightarrow> 'a wired \<Rightarrow> 'a wired" and vars :: "wire \<Rightarrow> str \<rightharpoonup> str" and reliable :: bool
  assumes fresh: "vars [] = Map.empty"
    and in_force: "plain_body body \<Longrightarrow> distinct (map fst session) \<Longrightarrow> vars w = Map.empty \<Longrightarrow> snd (run session body w) = Inr x \<Longrightarrow>
      \<exists>w1. snd (body w1) = Inr x \<and> vars w1 = map_of session"
    and cleaned: "reliable \<Longrightarrow> plain_body body \<Longrightarrow> distinct (map fst session) \<Longrightarrow> vars w = Map.empty \<Longrightarrow>
      vars (fst (run session body w)) = Map.empty"
begin

lemma serve_clean:
  "reliable \<Longrightarrow> \<forall>(session, body) \<in> set calls. plain_body body \<and> distinct (map fst session) \<Longrightarrow> vars w = Map.empty \<Longrightarrow>
     vars (fold (\<lambda>(session, body) w. fst (run session body w)) calls w) = Map.empty"
  by (induction calls arbitrary: w) (auto simp: cleaned)

lemma isolated:
  assumes "reliable" and "\<forall>(s, b) \<in> set calls. plain_body b \<and> distinct (map fst s)"
    and "plain_body body" and "distinct (map fst session)"
    and "snd (run session body (fold (\<lambda>(s, b) w. fst (run s b w)) calls [])) = Inr x"
  shows "\<exists>w1. snd (body w1) = Inr x \<and> vars w1 = map_of session"
  by (rule in_force [OF assms(3,4) serve_clean [OF assms(1,2) fresh] assms(5)])

end

interpretation pg_scope: session_scope
  "pg_scoped env :: (str \<times> str) list \<Rightarrow> row_batch wired \<Rightarrow> row_batch wired" tx_vars True for env
proof
  fix body :: "row_batch wired" and session :: "(str \<times> str) list" and w x
  assume b: "plain_body body" and d: "distinct (map fst session)" and e: "tx_vars w = Map.empty"
  let ?sets = "map (\<lambda>(k, v). (SetW k v, True)) session"
  have set_vars: "tx_vars ((w @ [(BeginW, True)]) @ ?sets) = map_of session"
    using e sets_step(2) [OF d] by (simp add: vars_append)
  show "tx_vars (fst (pg_scoped env session body w)) = Map.empty"
    using plain_vars(2) [OF b] e
    by (auto simp: pg_scoped_def wbind_def ask_def wreturn_def vars_append split: sum.splits prod.splits)
  show "\<exists>w1. snd (body w1) = Inr x \<and> tx_vars w1 = map_of session" if r: "snd (pg_scoped env session body w) = Inr x"
  proof (cases "session = []")
    case True
    with r e show ?thesis by (auto simp: pg_scoped_def)
  next
    case False
    with r obtain w1 where w1: "set_session env session (w @ [(BeginW, True)]) = (w1, Inr ())" "snd (body w1) = Inr x"
      by (auto simp: pg_scoped_def wbind_def ask_def wreturn_def split: sum.splits prod.splits)
    then have "w1 = (w @ [(BeginW, True)]) @ ?sets" by (intro set_session_ok)
    with w1(2) set_vars show ?thesis by blast
  qed
qed (simp add: tx_vars_def)

interpretation my_scope: session_scope
  "my_scoped env :: (str \<times> str) list \<Rightarrow> row_batch wired \<Rightarrow> row_batch wired" user_vars
  "(\<forall>w k v. is_ok (ne_set env w k v)) \<and> (\<forall>w k. is_ok (ne_clear env w k))" for env
proof
  fix body :: "row_batch wired" and session :: "(str \<times> str) list" and w x
  assume b: "plain_body body" and d: "distinct (map fst session)" and e: "user_vars w = Map.empty"
  let ?sets = "map (\<lambda>(k, v). (SetW k v, True)) session"
  have set_vars: "user_vars (w @ ?sets) = map_of session"
    using e sets_step(1) [OF d] by (simp add: vars_append)
  show "\<exists>w1. snd (body w1) = Inr x \<and> user_vars w1 = map_of session" if r: "snd (my_scoped env session body w) = Inr x"
  proof -
    from r obtain w1 where w1: "set_session env session w = (w1, Inr ())" "snd (body w1) = Inr x"
      by (auto simp: my_scoped_def wbind_def split: sum.splits prod.splits)
    then have "w1 = w @ ?sets" by (intro set_session_ok)
    with w1(2) set_vars show ?thesis by blast
  qed
  show "user_vars (fst (my_scoped env session body w)) = Map.empty"
    if ok: "(\<forall>w k v. is_ok (ne_set env w k v)) \<and> (\<forall>w k. is_ok (ne_clear env w k))"
  proof -
    have "\<exists>w1. set_session env session w = (w1, Inr ())"
      using ok by (induction session arbitrary: w)
        (auto simp: wreturn_def wbind_def ask_def is_ok_def map_err_def split: sum.splits)
    then obtain w1 where w1: "set_session env session w = (w1, Inr ())" by blast
    then have "w1 = w @ ?sets" by (rule set_session_ok)
    with set_vars have "user_vars (fst (body w1)) = map_of session" using plain_vars(1) [OF b] by simp
    moreover have "fst (my_scoped env session body w) = clear_session env session (fst (body w1))"
      by (simp add: my_scoped_def wbind_def w1 split: prod.splits)
    ultimately show ?thesis using ok
      by (auto simp: clear_session_vars_gone fun_eq_iff map_of_eq_None_iff)
  qed
qed (simp add: user_vars_def)

section \<open>Properties\<close>


text \<open>
  The call times the driver's future out: a future that is not done when the deadline passes is dropped
  where it is, and the connection goes back to the pool with what was sent so far.  \<open>Some n\<close> drops it after
  \<open>n\<close> statements.
\<close>

definition timed_out :: "nat option \<Rightarrow> 'a wired \<Rightarrow> wire \<Rightarrow> wire \<times> 'a sql_result option" where
  "timed_out stop m w =
     (case stop of
        None \<Rightarrow> (case m w of (w1, r) \<Rightarrow> (w1, Some r))
      | Some n \<Rightarrow> (w @ take n (drop (length w) (fst (m w))), None))"

text \<open>What is on a connection after calls that were answered or dropped.\<close>

definition served :: "conn_env \<Rightarrow> ((str \<times> str) list \<times> row_batch wired \<times> nat option) list \<Rightarrow> wire" where
  "served env calls = fold (\<lambda>(s, b, stop) w. fst (timed_out stop (my_scoped env s b) w)) calls []"

lemma user_var_origin:
  "fold user_var_step evs m k = Some v \<Longrightarrow> m k = Some v \<or> (SetW k v, True) \<in> set evs"
proof (induction evs arbitrary: m)
  case (Cons e evs)
  from Cons.IH Cons.prems have "user_var_step e m k = Some v \<or> (SetW k v, True) \<in> set evs" by simp
  then show ?case by (cases "(e, m)" rule: user_var_step.cases) (auto split: if_splits)
qed simp

lemma clear_session_sends:
  "\<exists>evs. clear_session env session w = w @ evs \<and> (\<forall>e \<in> set evs. \<exists>k. fst e = ClearW k)"
proof (induction session arbitrary: w)
  case (Cons p session)
  obtain k v where p: "p = (k, v)" by (cases p)
  from Cons.IH [of "w @ [(ClearW k, is_ok (ne_clear env w k))]"] show ?case by (auto simp: p)
qed simp

lemma set_session_runs:
  assumes "\<And>w k v. is_ok (ne_set env w k v)"
  shows "set_session env session w = (w @ map (\<lambda>(k, v). (SetW k v, True)) session, Inr ())"
proof -
  have "\<forall>w k v. is_ok (ne_set env w k v)" using assms by blast
  then have "\<exists>w1. set_session env session w = (w1, Inr ())"
    by (induction session arbitrary: w) (auto simp: wreturn_def wbind_def ask_def is_ok_def map_err_def split: sum.splits)
  then show ?thesis using set_session_ok by blast
qed

lemma my_scoped_wire:
  assumes "\<And>w k v. is_ok (ne_set env w k v)"
  shows "my_scoped env session body w =
    (case body (w @ map (\<lambda>(k, v). (SetW k v, True)) session) of (w1, r) \<Rightarrow> (clear_session env session w1, r))"
  by (simp add: my_scoped_def wbind_def set_session_runs [OF assms])

text \<open>What a call of MySQL sends, and which variables that leaves: those of its session at any point, none at the end.\<close>

lemma my_scoped_sends:
  assumes "\<And>w k v. is_ok (ne_set env w k v)" and "plain_body body"
  shows "\<exists>evs. fst (my_scoped env session body w) = w @ evs \<and> (\<forall>k v. (SetW k v, True) \<in> set evs \<longrightarrow> (k, v) \<in> set session)"
proof -
  let ?sets = "map (\<lambda>(k, v). (SetW k v, True)) session"
  obtain stm where stm: "fst (body (w @ ?sets)) = (w @ ?sets) @ stm" "\<forall>e \<in> set stm. statement_event (fst e)"
    using assms(2) unfolding plain_body_def by blast
  obtain clears where clears: "clear_session env session ((w @ ?sets) @ stm) = ((w @ ?sets) @ stm) @ clears"
    "\<forall>e \<in> set clears. \<exists>k. fst e = ClearW k" using clear_session_sends by blast
  have "fst (my_scoped env session body w) = w @ ?sets @ stm @ clears"
    using stm(1) clears(1) by (simp add: my_scoped_wire [OF assms(1)] case_prod_beta)
  moreover have "(SetW k v, True) \<in> set (?sets @ stm @ clears) \<longrightarrow> (k, v) \<in> set session" for k v
    using stm(2) clears(2) by (auto simp: statement_event_def)
  ultimately show ?thesis by blast
qed

lemma my_scoped_leaves:
  assumes "\<And>w k v. is_ok (ne_set env w k v)" and "\<And>w k. is_ok (ne_clear env w k)" and "plain_body body"
    and "distinct (map fst session)" and "user_vars (fst (my_scoped env session body w)) k = Some v"
  shows "user_vars w k = Some v"
proof -
  let ?w1 = "w @ map (\<lambda>(k, v). (SetW k v, True)) session"
  have "fst (my_scoped env session body w) = clear_session env session (fst (body ?w1))"
    by (simp add: my_scoped_wire [OF assms(1)] case_prod_beta)
  moreover have "user_vars (fst (body ?w1)) = user_vars w ++ map_of session"
    using sets_step(1) [OF assms(4)] plain_vars(1) [OF assms(3)] by (simp add: vars_append)
  ultimately show ?thesis using assms(5)
    by (simp add: clear_session_vars_gone [OF assms(2)] map_add_Some_iff split: if_splits)
       (metis fst_conv image_iff map_of_SomeD)
qed

lemma timed_out_leaves:
  assumes "\<And>w k v. is_ok (ne_set env w k v)" and "\<And>w k. is_ok (ne_clear env w k)" and "plain_body body"
    and "distinct (map fst session)" and "user_vars (fst (timed_out stop (my_scoped env session body) w)) k = Some v"
  shows "user_vars w k = Some v \<or> stop \<noteq> None \<and> (k, v) \<in> set session"
proof (cases stop)
  case None
  with assms(5) have "user_vars (fst (my_scoped env session body w)) k = Some v" by (simp add: timed_out_def case_prod_beta)
  then show ?thesis by (intro disjI1) (rule my_scoped_leaves [OF assms(1-4)])
next
  case (Some n)
  obtain evs where evs: "fst (my_scoped env session body w) = w @ evs"
    "\<forall>k v. (SetW k v, True) \<in> set evs \<longrightarrow> (k, v) \<in> set session"
    using my_scoped_sends [OF assms(1,3)] by blast
  from assms(5) have "fold user_var_step (take n evs) (user_vars w) k = Some v"
    by (simp add: Some timed_out_def evs(1) vars_append)
  with Some evs(2) show ?thesis using user_var_origin in_set_takeD by fastforce
qed

lemma served_leaves:
  assumes "\<And>w k v. is_ok (ne_set env w k v)" and "\<And>w k. is_ok (ne_clear env w k)"
    and "\<forall>(s, b, stop) \<in> set calls. plain_body b \<and> distinct (map fst s)" and "user_vars (served env calls) k = Some v"
  shows "\<exists>s b n. (s, b, Some n) \<in> set calls \<and> (k, v) \<in> set s"
  using assms(3,4)
proof (induction calls rule: rev_induct)
  case (snoc call calls)
  obtain s b stop where call: "call = (s, b, stop)" by (cases call)
  have "user_vars (served env calls) k = Some v \<or> stop \<noteq> None \<and> (k, v) \<in> set s"
    using snoc.prems by (intro timed_out_leaves [OF assms(1,2)]) (auto simp: served_def call)
  with snoc.IH snoc.prems(1) show ?case by (auto simp: call)
qed (simp add: served_def user_vars_def)

text \<open>
  C12. MySQL, when the server accepts the statements that set and clear the variables: whatever calls a
  pooled connection served before, with whatever sessions and outcomes, some of them dropped by their timeout
  at any point, a statement that answers answers as it does under the variables of its own session, and a
  variable its session does not set is one that a call dropped before it had set.  Where no call was
  dropped, there is none.
\<close>

theorem mysql_sessions_isolated:
  assumes "\<And>w k v. is_ok (ne_set env w k v)" and "\<And>w k. is_ok (ne_clear env w k)"
    and "\<forall>(s, b, stop) \<in> set calls. plain_body b \<and> distinct (map fst s)" and "distinct (map fst session)"
    and "snd (my_scoped env session (my_fetch env stmt args) (served env calls)) = Inr batch"
  shows "\<exists>w1 left. snd (my_fetch env stmt args w1) = Inr batch \<and> user_vars w1 = left ++ map_of session \<and>
    (\<forall>k v. left k = Some v \<longrightarrow> (\<exists>s b n. (s, b, Some n) \<in> set calls \<and> (k, v) \<in> set s))"
proof -
  let ?w = "served env calls" and ?sets = "map (\<lambda>(k, v). (SetW k v, True)) session"
  from assms(5) have "snd (my_fetch env stmt args (?w @ ?sets)) = Inr batch"
    by (simp add: my_scoped_wire [OF assms(1)] case_prod_beta)
  moreover have "user_vars (?w @ ?sets) = user_vars ?w ++ map_of session"
    using sets_step(1) [OF assms(4)] by (simp add: vars_append)
  ultimately show ?thesis using served_leaves [OF assms(1-3)] by blast
qed

text \<open>
  And such a call leaves them: dropped once its statement is sent and before the teardown, it hands a
  connection with all its variables to the next call.
\<close>

theorem mysql_timeout_leaks:
  assumes "\<And>w k v. is_ok (ne_set env w k v)" and "distinct (map fst session)"
  shows "user_vars (fst (timed_out (Some (Suc (length session))) (my_scoped env session (my_fetch env stmt args)) w)) =
    user_vars w ++ map_of session"
proof -
  let ?sets = "map (\<lambda>(k, v). (SetW k v, True)) session"
  let ?ev = "(FetchW (ps_sql stmt) (my_args env args), is_ok (ne_fetch env (w @ ?sets) (ps_sql stmt) (my_args env args)))"
  have "fst (my_fetch env stmt args (w @ ?sets)) = w @ ?sets @ [?ev]"
    by (simp add: my_fetch_def wbind_def ask_def wreturn_def split: prod.splits sum.splits)
  moreover obtain clears where "clear_session env session (w @ ?sets @ [?ev]) = (w @ ?sets @ [?ev]) @ clears"
    using clear_session_sends by blast
  ultimately have "fst (my_scoped env session (my_fetch env stmt args) w) = w @ ?sets @ [?ev] @ clears"
    by (simp add: my_scoped_wire [OF assms(1)] case_prod_beta)
  then show ?thesis using sets_step(1) [OF assms(2)] by (simp add: timed_out_def vars_append)
qed

definition sample_conn :: conn_env where
  "sample_conn =
     \<lparr>ne_pool = PgPool, ne_acquire = Inr (), ne_pid = (\<lambda>_. Inr 7), ne_conn_id = (\<lambda>_. Inr 7), ne_begin = (\<lambda>_. Inr ()),
      ne_set = (\<lambda>_ _ _. Inr ()), ne_clear = (\<lambda>_ _. Inr ()), ne_fetch = (\<lambda>_ _ _. Inr []), ne_exec = (\<lambda>_ _ _. Inr 1),
      ne_stream = (\<lambda>_ _ _. ([], Inr ())), ne_commit = (\<lambda>_. Inr ()), ne_ping = (\<lambda>_. Inr ()), ne_grants = (\<lambda>_. Inr []),
      ne_ntext = (\<lambda>_. []), ne_jtext = (\<lambda>_. []), ne_b64 = id\<rparr>"

definition sample_stmt :: prepared_stmt where
  "sample_stmt = \<lparr>ps_sql = ''SELECT 1'', ps_param_order = [], ps_driver = Postgres\<rparr>"


theorem mysql_sessions_isolated_witness:
  "\<exists>w1 left. snd (my_fetch sample_conn sample_stmt [] w1) = Inr (batch_of [] []) \<and> user_vars w1 = left ++ [''tenant'' \<mapsto> ''b''] \<and>
     (\<forall>k v. left k = Some v \<longrightarrow> (k, v) = (''role'', ''admin''))"
proof -
  let ?calls = "[([(''tenant'', ''a'')], my_fetch sample_conn sample_stmt [], None),
    ([(''role'', ''admin'')], my_fetch sample_conn sample_stmt [], Some 2)]"
  have "\<forall>(s, b, stop) \<in> set ?calls. plain_body b \<and> distinct (map fst s)" by (simp add: plain_bodies)
  moreover have "distinct (map fst [(''tenant'', ''b'')])" by simp
  moreover have "is_ok (ne_set sample_conn w k v)" "is_ok (ne_clear sample_conn w k)" for w k v
    by (simp_all add: sample_conn_def)
  moreover have "snd (my_scoped sample_conn [(''tenant'', ''b'')] (my_fetch sample_conn sample_stmt []) w) = Inr (batch_of [] [])" for w
    by (simp add: my_scoped_def my_fetch_def wbind_def wreturn_def ask_def sample_conn_def rows_batch_def)
  ultimately show ?thesis
    using mysql_sessions_isolated [of sample_conn ?calls "[(''tenant'', ''b'')]" sample_stmt "[]" "batch_of [] []"] by auto
qed

theorem mysql_timeout_leaks_witness:
  "user_vars (fst (timed_out (Some 2) (my_scoped sample_conn [(''tenant'', ''a'')] (my_fetch sample_conn sample_stmt [])) [])) =
     [''tenant'' \<mapsto> ''a'']"
  using mysql_timeout_leaks [of sample_conn "[(''tenant'', ''a'')]" sample_stmt "[]" "[]"]
  by (simp add: sample_conn_def user_vars_def numeral_2_eq_2)

text \<open>
  MySQL, when a variable cannot be set: the call fails, no statement and no teardown is sent, and the
  variables set before stay on the connection for the next call.
\<close>

theorem mysql_failed_set_leaks:
  assumes "set_session env session w = (w1, Inl e)" and "distinct (map fst session)"
  shows "\<exists>before k v later. session = before @ (k, v) # later \<and> my_scoped env session body w = (w1, Inl e)
       \<and> user_vars w1 = user_vars w ++ map_of before"
proof -
  from set_session_failed [OF assms(1)] obtain before k v later where
    s: "session = before @ (k, v) # later"
    and w1: "w1 = w @ map (\<lambda>(k, v). (SetW k v, True)) before @ [(SetW k v, False)]" by blast
  have "distinct (map fst before)" using assms(2) by (simp add: s)
  then have "user_vars w1 = user_vars w ++ map_of before" by (simp add: w1 vars_append sets_step)
  with s assms(1) show ?thesis by (auto simp: my_scoped_def wbind_def)
qed

theorem mysql_failed_set_leaks_witness:
  "\<exists>w1 e. my_scoped (sample_conn\<lparr>ne_set := (\<lambda>_ k _. if k = ''b'' then Inl PoolClosed else Inr ())\<rparr>)
       [(''a'', ''1''), (''b'', ''2'')] (my_fetch sample_conn sample_stmt []) [] = (w1, Inl e) \<and> user_vars w1 \<noteq> Map.empty"
proof -
  let ?env = "sample_conn\<lparr>ne_set := (\<lambda>_ k _. if k = ''b'' then Inl PoolClosed else Inr ())\<rparr>"
  let ?session = "[(''a'', ''1''), (''b'', ''2'')]"
  have s: "set_session ?env ?session [] = ([(SetW ''a'' ''1'', True), (SetW ''b'' ''2'', False)], Inl (from_execute PoolClosed))"
    by (simp add: wbind_def ask_def)
  have d: "distinct (map fst ?session)" by simp
  from mysql_failed_set_leaks [OF s d, of "my_fetch sample_conn sample_stmt []"] have
    "my_scoped ?env ?session (my_fetch sample_conn sample_stmt []) [] =
       ([(SetW ''a'' ''1'', True), (SetW ''b'' ''2'', False)], Inl (from_execute PoolClosed))"
    by (elim exE conjE; simp)
  moreover have "user_vars [(SetW ''a'' ''1'', True), (SetW ''b'' ''2'', False)] \<noteq> Map.empty"
    by (simp add: user_vars_def)
  ultimately show ?thesis by blast
qed

section \<open>Result sets\<close>

text \<open>The reference: the rows cut at every boundary, empty sets left out.\<close>

fun cut_sets :: "('a + unit) list \<Rightarrow> 'a list list" where
  "cut_sets [] = [[]]"
| "cut_sets (Inl row # items) = (case cut_sets items of s # rest \<Rightarrow> (row # s) # rest | [] \<Rightarrow> [[row]])"
| "cut_sets (Inr _ # items) = [] # cut_sets items"

lemma cut_sets_nonempty: "cut_sets items \<noteq> []"
  by (induction items rule: cut_sets.induct) (auto split: list.splits)

lemma group_items_cut:
  "(case group_items sets cur items of (ss, c) \<Rightarrow> if c \<noteq> [] then ss @ [c] else ss) =
     sets @ filter (\<lambda>s. s \<noteq> []) ((cur @ hd (cut_sets items)) # tl (cut_sets items))"
proof (induction sets cur items rule: group_items.induct)
  case (2 sets cur row items)
  then show ?case using cut_sets_nonempty [of items] by (auto split: list.splits)
next
  case (3 sets cur u items)
  then show ?case using cut_sets_nonempty [of items] by (cases "cut_sets items") auto
qed simp

text \<open>
  The sets of a call are the rows of the stream cut at the result-set boundaries, in order, with the
  empty ones left out.
\<close>

theorem result_sets_cut: "group_sets items = filter (\<lambda>s. s \<noteq> []) (cut_sets items)"
  using group_items_cut [of "[]" "[]" items] cut_sets_nonempty [of items]
  by (cases "cut_sets items") (auto simp: group_sets_def)

section \<open>Cancelling\<close>

text \<open>
  With a context, the identifier the registry gets is the one the connection itself answered, before
  the statement is sent on that connection.
\<close>

theorem registered_id_is_own:
  assumes "pg_execute_with_ctx env (Some rid) stmt args session w = (w1, Inr batch)"
  shows "\<exists>pid rest. ne_pid env w = Inr pid \<and> w1 = w @ [(AskId, True), (Registered rid (PostgresId pid), True)] @ rest
       \<and> (FetchW (ps_sql stmt) (pg_args env args), True) \<in> set rest"
  using assms
  by (auto simp: pg_execute_with_ctx_def pg_pinned_def acquire_def wbind_def ask_def register_id_def pg_scoped_def pg_fetch_def
      wreturn_def split: sum.splits prod.splits if_splits dest!: set_session_ok)

theorem registered_id_is_own_witness:
  "\<exists>w1. pg_execute_with_ctx sample_conn (Some ''r1'') sample_stmt [] [] [] = (w1, Inr (batch_of [] []))
     \<and> (Registered ''r1'' (PostgresId 7), True) \<in> set w1"
proof -
  let ?w1 = "[(AskId, True), (Registered ''r1'' (PostgresId 7), True), (FetchW ''SELECT 1'' [], True)]"
  have run: "pg_execute_with_ctx sample_conn (Some ''r1'') sample_stmt [] [] [] = (?w1, Inr (batch_of [] []))"
    by (simp add: pg_execute_with_ctx_def pg_pinned_def acquire_def wbind_def ask_def register_id_def pg_scoped_def
        pg_fetch_def wreturn_def sample_conn_def sample_stmt_def pg_args_def rows_batch_def)
  from registered_id_is_own [OF this] have "ne_pid sample_conn [] = Inr 7" by (simp add: sample_conn_def)
  with run show ?thesis by (intro exI [of _ ?w1]) simp
qed

text \<open>
  The scope of a grant is not looked at: all privileges on any one object count as the right to cancel
  another connection's statement.
\<close>

lemma trim_all_privileges: "trim '' ALL PRIVILEGES'' = ''ALL PRIVILEGES''" "trim ''ALL PRIVILEGES'' = ''ALL PRIVILEGES''"
proof -
  have s: "trim_start ''ALL PRIVILEGES'' = ''ALL PRIVILEGES''"
    by (rule trim_start_no_ws) (simp add: ws1_def ws2_def ws3_def)
  have e: "trim_end_rev (rev ''ALL PRIVILEGES'') = rev ''ALL PRIVILEGES''"
    by (subst trim_end_rev.simps) (simp add: ws1_def ws2_def ws3_def)
  have "trim_start '' ALL PRIVILEGES'' = ''ALL PRIVILEGES''" using s by (simp add: trim_start_ws1 ws1_def)
  then show "trim '' ALL PRIVILEGES'' = ''ALL PRIVILEGES''" "trim ''ALL PRIVILEGES'' = ''ALL PRIVILEGES''"
    by (simp_all only: trim_def s e rev_rev_ident)
qed

theorem grant_scope_ignored: "grant_line_implies_kill (''GRANT ALL PRIVILEGES ON '' @ scope)"
proof -
  have "map to_ascii_upper ''GRANT ALL PRIVILEGES ON '' = ''GRANT ALL PRIVILEGES ON ''" by code_simp
  moreover have "split_once_str '' ON '' (''GRANT ALL PRIVILEGES ON '' @ t) = Some (''GRANT ALL PRIVILEGES'', t)" for t
    by simp
  ultimately have "grant_line_implies_kill (''GRANT ALL PRIVILEGES ON '' @ scope) =
     list_ex (\<lambda>tok. trim tok \<in> set [''PROCESS'', ''CONNECTION_ADMIN'', ''ALL PRIVILEGES''])
           (split_on (CHR '','') (trim (trim_start_matches ''GRANT'' ''GRANT ALL PRIVILEGES'')))"
    unfolding grant_line_implies_kill_def Let_def map_append by (simp only: option.case prod.case)
  moreover have "trim_start_matches ''GRANT'' ''GRANT ALL PRIVILEGES'' = '' ALL PRIVILEGES''"
    by (subst trim_start_matches.simps) (simp add: trim_start_matches.simps [of "''GRANT''" "'' ALL PRIVILEGES''"])
  moreover have "split_on (CHR '','') ''ALL PRIVILEGES'' = [''ALL PRIVILEGES'']" by code_simp
  ultimately show ?thesis by (simp add: trim_all_privileges)
qed

end
