(* ===== verification/Rotation.thy ===== *)
theory Rotation
  imports Registration
begin

text \<open>
  Opening a pool and keeping its credential fresh: \<open>ConnectCfg\<close> of \<open>src/driver/mod.rs\<close>, \<open>connect\<close> of the
  three drivers, \<open>build_pool\<close> of \<open>src/pool.rs\<close>, \<open>build_provider\<close> of \<open>src/auth/mod.rs\<close>, the providers under
  \<open>src/auth\<close> and the rotator of \<open>src/auth/rotator.rs\<close>, the last as a step relation over time.  The URL
  parsers, the AWS credential chain, its signature and the opening of a connection are arguments.
\<close>

section \<open>Durations and the rotator's configuration\<close>

text \<open>A \<open>Duration\<close> is a number of nanoseconds, at most \<open>Duration::MAX\<close>.\<close>

definition duration_max :: nat where
  "duration_max = (2 ^ 64 - 1) * 10 ^ 9 + 999999999"

definition secs :: "nat \<Rightarrow> nat" where
  "secs n = n * 10 ^ 9"

definition as_millis_u64 :: "nat \<Rightarrow> u64" where
  "as_millis_u64 d = of_nat (d div 10 ^ 6)"

record rotator_config =
  safety_margin :: nat
  min_interval :: nat

definition default_rotator_config :: rotator_config where
  "default_rotator_config = \<lparr>safety_margin = secs 60, min_interval = secs 5\<rparr>"

definition interval_for :: "rotator_config \<Rightarrow> nat \<Rightarrow> nat option" where
  "interval_for cfg ttl = (if ttl = duration_max then None else Some (max (ttl - safety_margin cfg) (min_interval cfg)))"

definition pool_max_lifetime_for :: "rotator_config \<Rightarrow> nat \<Rightarrow> nat option" where
  "pool_max_lifetime_for cfg ttl =
     (if ttl = duration_max then None else Some (max (ttl - safety_margin cfg) (min_interval cfg)))"

section \<open>Providers\<close>

text \<open>The user name in a token's URL.\<close>

definition unreserved :: "char \<Rightarrow> bool" where
  "unreserved c \<longleftrightarrow> is_ascii_alphanumeric c \<or> c \<in> set ''-_.~''"

definition hex_upper :: "nat \<Rightarrow> char" where
  "hex_upper n = ''0123456789ABCDEF'' ! n"

definition urlencode :: "str \<Rightarrow> str" where
  "urlencode s =
     concat (map (\<lambda>c. if unreserved c then [c] else [CHR ''%'', hex_upper (byte c div 16), hex_upper (byte c mod 16)]) s)"

record rds_provider =
  rds_region_of :: str
  rds_user_of :: str
  rds_profile_of :: "str option"
  rds_endpoint :: "(str \<times> u16) option"

definition rds_new :: "str \<Rightarrow> str \<Rightarrow> str option \<Rightarrow> auth_error + rds_provider" where
  "rds_new region username profile =
     and_then (reject_if (is_blank region) (InvalidConfig (Msg ''rds_iam.region empty'' []))) (\<lambda>_.
     and_then (reject_if (is_blank username) (InvalidConfig (Msg ''rds_iam.username empty'' []))) (\<lambda>_.
     Inr \<lparr>rds_region_of = region, rds_user_of = username, rds_profile_of = profile, rds_endpoint = None\<rparr>))"

definition rds_set_endpoint :: "str \<Rightarrow> u16 \<Rightarrow> rds_provider \<Rightarrow> rds_provider \<times> (auth_error + unit)" where
  "rds_set_endpoint host port p =
     (case rds_endpoint p of
        None \<Rightarrow> (p\<lparr>rds_endpoint := Some (host, port)\<rparr>, Inr ())
      | Some (h, q) \<Rightarrow>
          (p, if h = host \<and> q = port then Inr ()
              else Inl (InvalidConfig (Msg ''rds_iam: endpoint changed; re-register the binding'' [h, host]))))"

text \<open>
  The AWS side: the loaded credential chain, the signature of a URL as query parameters, and the host
  and query of the URL with them appended.
\<close>

record aws_env =
  aw_credentials :: "str \<Rightarrow> str option \<Rightarrow> auth_error + unit"
  aw_sign :: "str \<Rightarrow> str \<Rightarrow> auth_error + (str \<times> str) list"
  aw_host :: "str \<Rightarrow> str option"
  aw_query :: "str \<Rightarrow> (str \<times> str) list \<Rightarrow> str option"

definition rds_url :: "str \<Rightarrow> u16 \<Rightarrow> str \<Rightarrow> str" where
  "rds_url host port user =
     ''https://'' @ host @ '':'' @ show_nat (unat port) @ ''/?Action=connect&DBUser='' @ urlencode user"

definition rds_presign :: "aws_env \<Rightarrow> rds_provider \<Rightarrow> auth_error + str" where
  "rds_presign aws p =
     (case rds_endpoint p of
        None \<Rightarrow> Inl (InvalidConfig (Msg ''rds_iam: pool builder did not register a target endpoint'' []))
      | Some (host, port) \<Rightarrow>
          and_then (aw_credentials aws (rds_region_of p) (rds_profile_of p)) (\<lambda>_.
          let url = rds_url host port (rds_user_of p) in
          and_then (aw_sign aws (rds_region_of p) url) (\<lambda>params.
          and_then (ok_or (aw_host aws url) (InvalidConfig (Msg ''rds_iam: presigned URL has no host'' []))) (\<lambda>h.
          Inr (h @ '':'' @ show_nat (unat port) @ ''/'' @
               (case aw_query aws url params of Some q \<Rightarrow> CHR ''?'' # q | None \<Rightarrow> []))))))"

datatype provider = RdsProvider rds_provider | StubProvider str nat

definition provider_scheme :: "provider \<Rightarrow> str" where
  "provider_scheme p = (case p of RdsProvider _ \<Rightarrow> ''rds_iam'' | StubProvider scheme _ \<Rightarrow> scheme)"

definition token_ttl :: "provider \<Rightarrow> nat" where
  "token_ttl p = (case p of RdsProvider _ \<Rightarrow> secs 900 | StubProvider _ ttl \<Rightarrow> ttl)"

definition fetch_token :: "aws_env \<Rightarrow> provider \<Rightarrow> auth_error + str" where
  "fetch_token aws p = (case p of RdsProvider r \<Rightarrow> rds_presign aws r | StubProvider scheme _ \<Rightarrow> Inl (NotImplemented scheme))"

definition bind_endpoint :: "str \<Rightarrow> u16 \<Rightarrow> provider \<Rightarrow> provider \<times> (auth_error + unit)" where
  "bind_endpoint host port p =
     (case p of RdsProvider r \<Rightarrow> apfst RdsProvider (rds_set_endpoint host port r) | StubProvider _ _ \<Rightarrow> (p, Inr ()))"

text \<open>\<open>enabled\<close> says which schemes are compiled in.\<close>

definition build_provider :: "(str \<Rightarrow> bool) \<Rightarrow> auth_config \<Rightarrow> auth_error + provider" where
  "build_provider enabled cfg =
     (if \<not> enabled (auth_scheme cfg) then Inl (NotImplemented (auth_scheme cfg))
      else
        (case cfg of
           RdsIam region username profile \<Rightarrow> and_then (rds_new region username profile) (\<lambda>p. Inr (RdsProvider p))
         | AzureAd _ _ \<Rightarrow> Inr (StubProvider ''azure_ad'' (secs 900))
         | GcpIam _ \<Rightarrow> Inr (StubProvider ''gcp_iam'' (secs 3600))
         | AuroraFailover _ \<Rightarrow> Inr (StubProvider ''aurora_failover'' (secs 900))))"

section \<open>Opening a pool\<close>

record connect_cfg =
  cc_url :: str
  cc_max_connections :: u32
  cc_min_idle :: u32
  cc_acquire_timeout_ms :: u64
  cc_idle_timeout_ms :: u64
  cc_max_lifetime_ms :: u64
  cc_test_before_acquire :: bool
  cc_statement_timeout_ms :: "u64 option"
  cc_auth_provider :: "provider option"

definition from_config :: "sql_backend_config \<Rightarrow> connect_cfg" where
  "from_config cfg =
     \<lparr>cc_url = cfg_url cfg, cc_max_connections = max_connections (cfg_pool cfg), cc_min_idle = min_idle (cfg_pool cfg),
      cc_acquire_timeout_ms = acquire_timeout_ms (cfg_pool cfg), cc_idle_timeout_ms = idle_timeout_ms (cfg_pool cfg),
      cc_max_lifetime_ms = max_lifetime_ms (cfg_pool cfg), cc_test_before_acquire = test_before_acquire (cfg_pool cfg),
      cc_statement_timeout_ms = query_timeout_ms (cfg_query cfg), cc_auth_provider = None\<rparr>"

text \<open>What a pool is opened with.\<close>

record pool_options =
  po_url :: str
  po_password :: "str option"
  po_options :: "(str \<times> str) list"
  po_on_connect :: "str list"
  po_max_connections :: u32
  po_min_connections :: u32
  po_acquire_timeout_ms :: u64
  po_idle_timeout_ms :: u64
  po_max_lifetime_ms :: "u64 option"
  po_test_before_acquire :: bool

record connect_env =
  oe_parse :: "driver_kind \<Rightarrow> str \<Rightarrow> str + unit"
  oe_host :: "str \<Rightarrow> str option"
  oe_port :: "str \<Rightarrow> u16 option"
  oe_aws :: aws_env
  oe_open :: "pool_options \<Rightarrow> sqlx_error + unit"
  oe_render :: "msg \<Rightarrow> str"

definition base_options :: "connect_cfg \<Rightarrow> pool_options" where
  "base_options cfg =
     \<lparr>po_url = cc_url cfg, po_password = None, po_options = [], po_on_connect = [],
      po_max_connections = cc_max_connections cfg, po_min_connections = cc_min_idle cfg,
      po_acquire_timeout_ms = cc_acquire_timeout_ms cfg, po_idle_timeout_ms = cc_idle_timeout_ms cfg,
      po_max_lifetime_ms = Some (cc_max_lifetime_ms cfg), po_test_before_acquire = cc_test_before_acquire cfg\<rparr>"

definition pg_startup_options :: "connect_cfg \<Rightarrow> (str \<times> str) list" where
  "pg_startup_options cfg =
     [(''client_encoding'', ''UTF8''), (''DateStyle'', ''ISO,YMD''), (''IntervalStyle'', ''iso_8601'')] @
     (case cc_statement_timeout_ms cfg of Some ms \<Rightarrow> [(''statement_timeout'', show_nat (unat ms) @ ''ms'')] | None \<Rightarrow> [])"

text \<open>The lifetime of a connection, capped by the token's; 0 stands for no limit.\<close>

definition capped_lifetime_ms :: "u64 \<Rightarrow> nat option \<Rightarrow> u64" where
  "capped_lifetime_ms ms cap =
     (case cap of
        None \<Rightarrow> ms
      | Some c \<Rightarrow> if ms = 0 \<or> as_millis_u64 c < ms then as_millis_u64 c else ms)"

definition lifetime_option :: "u64 \<Rightarrow> u64 option" where
  "lifetime_option ms = (if ms = 0 then None else Some ms)"

definition open_pool :: "connect_env \<Rightarrow> pool_options \<Rightarrow> pool_options sql_result" where
  "open_pool env opts = and_then (map_err Connect (oe_open env opts)) (\<lambda>_. Inr opts)"

text \<open>The pool, with the provider of the rotator that refreshes its password.\<close>

definition pg_connect :: "connect_env \<Rightarrow> connect_cfg \<Rightarrow> (pool_options \<times> provider option) sql_result" where
  "pg_connect env cfg =
     and_then (map_err (\<lambda>e. invalid ''postgres url'' [e]) (oe_parse env Postgres (cc_url cfg))) (\<lambda>_.
     let base = (base_options cfg)\<lparr>po_options := pg_startup_options cfg\<rparr> in
     case cc_auth_provider cfg of
       None \<Rightarrow>
         and_then (open_pool env (base\<lparr>po_max_lifetime_ms := lifetime_option (cc_max_lifetime_ms cfg)\<rparr>)) (\<lambda>opts. Inr (opts, None))
     | Some p \<Rightarrow>
         and_then (ok_or (oe_host env (cc_url cfg))
           (invalid ''auth: could not parse host out of url'' [provider_scheme p])) (\<lambda>host.
         case bind_endpoint host (case oe_port env (cc_url cfg) of Some q \<Rightarrow> q | None \<Rightarrow> 5432) p of (p1, bound) \<Rightarrow>
         and_then (map_err (from_auth_error (oe_render env)) bound) (\<lambda>_.
         and_then (map_err (from_auth_error (oe_render env)) (fetch_token (oe_aws env) p1)) (\<lambda>token.
         and_then (open_pool env (base\<lparr>po_password := Some token,
             po_max_lifetime_ms := lifetime_option (capped_lifetime_ms (cc_max_lifetime_ms cfg)
               (pool_max_lifetime_for default_rotator_config (token_ttl p1)))\<rparr>)) (\<lambda>opts. Inr (opts, Some p1))))))"

definition my_url :: "str \<Rightarrow> str" where
  "my_url url = (case strip_prefix ''mariadb://'' url of Some rest \<Rightarrow> ''mysql://'' @ rest | None \<Rightarrow> url)"

definition my_connect :: "connect_env \<Rightarrow> connect_cfg \<Rightarrow> (pool_options \<times> provider option) sql_result" where
  "my_connect env cfg =
     and_then (reject_if (cc_auth_provider cfg \<noteq> None)
       (invalid ''auth block is not yet supported for MySQL/MariaDB'' [])) (\<lambda>_.
     and_then (map_err (\<lambda>e. invalid ''mysql url'' [e]) (oe_parse env Mysql (my_url (cc_url cfg)))) (\<lambda>_.
     and_then (open_pool env ((base_options cfg)\<lparr>po_url := my_url (cc_url cfg), po_on_connect := [''SET NAMES utf8mb4'']\<rparr>))
       (\<lambda>opts. Inr (opts, None))))"

definition lite_connect :: "connect_env \<Rightarrow> connect_cfg \<Rightarrow> (pool_options \<times> provider option) sql_result" where
  "lite_connect env cfg =
     and_then (reject_if (cc_auth_provider cfg \<noteq> None)
       (invalid ''auth blocks are not applicable to SQLite (file-backed)'' [])) (\<lambda>_.
     and_then (map_err (\<lambda>e. invalid ''sqlite url'' [e]) (oe_parse env Sqlite (cc_url cfg))) (\<lambda>_.
     and_then (open_pool env ((base_options cfg)\<lparr>po_options := [(''create_if_missing'', ''true'')]\<rparr>)) (\<lambda>opts. Inr (opts, None))))"

definition driver_connect :: "connect_env \<Rightarrow> driver_kind \<Rightarrow> connect_cfg \<Rightarrow> (pool_options \<times> provider option) sql_result" where
  "driver_connect env d cfg =
     (case d of Postgres \<Rightarrow> pg_connect env cfg | Sqlite \<Rightarrow> lite_connect env cfg | _ \<Rightarrow> my_connect env cfg)"

definition build_pool :: "connect_env \<Rightarrow> (str \<Rightarrow> bool) \<Rightarrow> sql_backend_config \<Rightarrow> (pool_options \<times> provider option) sql_result" where
  "build_pool env enabled cfg =
     (case cfg_auth cfg of
        None \<Rightarrow> driver_connect env (cfg_driver cfg) (from_config cfg)
      | Some auth \<Rightarrow>
          and_then (map_err (from_auth_error (oe_render env)) (build_provider enabled auth)) (\<lambda>p.
            driver_connect env (cfg_driver cfg) ((from_config cfg)\<lparr>cc_auth_provider := Some p\<rparr>)))"

definition build_pool_with_url :: "connect_env \<Rightarrow> sql_backend_config \<Rightarrow> str \<Rightarrow> pool_options sql_result" where
  "build_pool_with_url env cfg url =
     and_then (driver_connect env (cfg_driver cfg) ((from_config cfg)\<lparr>cc_url := url\<rparr>)) (\<lambda>r. Inr (fst r))"

section \<open>Rotating\<close>

text \<open>
  A pool under a rotator: the time, when the token in its options was issued, what the rotator does, how
  many refreshes failed since that token, and the open connections with the time they were opened at and
  the time of the token they were opened with.  The rotator is spawned when the pool is connected, sleeps an
  interval, and then fetches and applies.
\<close>

datatype rotor = Connecting | Sleeping nat | Fetching nat

record rotation =
  ro_now :: nat
  ro_token_at :: nat
  ro_rotor :: rotor
  ro_failures :: nat
  ro_conns :: "(nat \<times> nat) list"

definition rotation_init :: "rotation \<Rightarrow> bool" where
  "rotation_init s \<longleftrightarrow> ro_token_at s = ro_now s \<and> ro_rotor s = Connecting \<and> ro_failures s = 0 \<and> ro_conns s = []"

text \<open>
  Each stage takes the time it takes: \<open>lag\<close> bounds how long the pool takes to connect, how late the task
  wakes from its sleep, and how long fetching and applying take.  The code sets no such bound.
\<close>

definition rotor_patient :: "nat \<Rightarrow> rotation \<Rightarrow> nat \<Rightarrow> bool" where
  "rotor_patient lag s t \<longleftrightarrow>
     (case ro_rotor s of
        Connecting \<Rightarrow> t \<le> ro_token_at s + lag
      | Sleeping due \<Rightarrow> t \<le> due + lag
      | Fetching began \<Rightarrow> t \<le> began + lag)"

text \<open>
  The steps: the pool is connected and the rotator spawned; the sleep is over; the fetch yields a token,
  issued while it ran, and the token is applied; or one of the two fails, which is logged and tried again after the
  next sleep.  The pool opens connections with its token of the moment, closes them when it likes, and
  closes them at their lifetime.
\<close>

inductive rotation_step :: "nat \<Rightarrow> nat \<Rightarrow> nat \<Rightarrow> rotation \<Rightarrow> rotation \<Rightarrow> bool" for lag interval lifetime where
  elapses: "ro_now s \<le> t \<Longrightarrow> rotor_patient lag s t \<Longrightarrow> \<forall>c \<in> set (ro_conns s). t \<le> fst c + lifetime \<Longrightarrow>
     rotation_step lag interval lifetime s (s\<lparr>ro_now := t\<rparr>)"
| spawned: "ro_rotor s = Connecting \<Longrightarrow>
     rotation_step lag interval lifetime s (s\<lparr>ro_rotor := Sleeping (ro_now s + interval)\<rparr>)"
| wakes: "ro_rotor s = Sleeping due \<Longrightarrow> due \<le> ro_now s \<Longrightarrow>
     rotation_step lag interval lifetime s (s\<lparr>ro_rotor := Fetching (ro_now s)\<rparr>)"
| refreshed: "ro_rotor s = Fetching began \<Longrightarrow> began \<le> issued \<Longrightarrow> issued \<le> ro_now s \<Longrightarrow>
     rotation_step lag interval lifetime s
       (s\<lparr>ro_token_at := issued, ro_rotor := Sleeping (ro_now s + interval), ro_failures := 0\<rparr>)"
| refresh_failed: "ro_rotor s = Fetching began \<Longrightarrow>
     rotation_step lag interval lifetime s
       (s\<lparr>ro_rotor := Sleeping (ro_now s + interval), ro_failures := Suc (ro_failures s)\<rparr>)"
| opened: "rotation_step lag interval lifetime s (s\<lparr>ro_conns := (ro_now s, ro_token_at s) # ro_conns s\<rparr>)"
| closed: "rotation_step lag interval lifetime s (s\<lparr>ro_conns := removeAll c (ro_conns s)\<rparr>)"

inductive_cases rotation_stepE: "rotation_step lag interval lifetime s t"

definition rotation_inv :: "nat \<Rightarrow> nat \<Rightarrow> rotation \<Rightarrow> bool" where
  "rotation_inv lag interval s \<longleftrightarrow>
     rotor_patient lag s (ro_now s) \<and>
     (case ro_rotor s of
        Connecting \<Rightarrow> ro_failures s = 0
      | Sleeping due \<Rightarrow> due \<le> ro_token_at s + (ro_failures s + 1) * interval + (2 * ro_failures s + 1) * lag
      | Fetching began \<Rightarrow> began \<le> ro_token_at s + (ro_failures s + 1) * interval + (2 * ro_failures s + 2) * lag)"

interpretation rotation: transition_invariant rotation_init "rotation_step lag interval lifetime"
  "rotation_inv lag interval" for lag interval lifetime
proof
  show "rotation_inv lag interval s" if "rotation_init s" for s
    using that by (simp add: rotation_init_def rotation_inv_def rotor_patient_def)
  show "rotation_inv lag interval t" if "rotation_inv lag interval s" "rotation_step lag interval lifetime s t" for s t
    using that(2,1)
    by (cases rule: rotation_step.cases)
       (auto simp: rotation_inv_def rotor_patient_def algebra_simps split: rotor.splits)
qed

text \<open>
  The interval of a provider's rotator leaves the safety margin, when the token's life is longer
  than margin and minimum together.
\<close>

lemma interval_within_ttl:
  assumes "interval_for cfg ttl = Some interval" and "safety_margin cfg + min_interval cfg \<le> ttl"
  shows "interval + safety_margin cfg = ttl" and "0 < safety_margin cfg \<Longrightarrow> interval < ttl"
  using assms by (auto simp: interval_for_def split: if_splits)

text \<open>
  C13. How old the token is that a pool opens connections with, when connecting, waking up and a refresh
  each take at most \<open>lag\<close>: after \<open>n\<close> failed refreshes in a row at most \<open>n + 1\<close> intervals and \<open>2 n + 3\<close> lags.  For
  a token that lives longer than margin and minimum interval together, it is not expired while
  refreshes succeed, when a lag is at most a third of the safety margin.
\<close>

theorem rotated_token_fresh:
  assumes "interval_for cfg (token_ttl p) = Some interval" and "safety_margin cfg + min_interval cfg \<le> token_ttl p"
    and "rotation_init s0" and "(rotation_step lag interval lifetime)\<^sup>*\<^sup>* s0 s"
  shows "ro_now s \<le> ro_token_at s + (ro_failures s + 1) * interval + (2 * ro_failures s + 3) * lag
       \<and> (ro_failures s = 0 \<and> 3 * lag \<le> safety_margin cfg \<longrightarrow> ro_now s \<le> ro_token_at s + token_ttl p)"
proof -
  have "rotation_inv lag interval s" by (rule rotation.reachable_inv [OF assms(3,4)])
  then have "ro_now s \<le> ro_token_at s + (ro_failures s + 1) * interval + (2 * ro_failures s + 3) * lag"
    by (auto simp: rotation_inv_def rotor_patient_def algebra_simps split: rotor.splits)
  with interval_within_ttl(1) [OF assms(1,2)] show ?thesis by auto
qed

definition sample_rds :: rds_provider where
  "sample_rds = \<lparr>rds_region_of = ''eu-west-1'', rds_user_of = ''app'', rds_profile_of = None, rds_endpoint = None\<rparr>"

definition fresh_pool :: rotation where
  "fresh_pool = \<lparr>ro_now = 0, ro_token_at = 0, ro_rotor = Connecting, ro_failures = 0, ro_conns = []\<rparr>"

lemma rds_interval:
  "interval_for default_rotator_config (token_ttl (RdsProvider r)) = Some (secs 840)"
  "pool_max_lifetime_for default_rotator_config (token_ttl (RdsProvider r)) = Some (secs 840)"
  by (simp_all add: interval_for_def pool_max_lifetime_for_def default_rotator_config_def token_ttl_def secs_def duration_max_def)

lemma fresh_pool_init: "rotation_init fresh_pool"
  by (simp add: rotation_init_def fresh_pool_def)

text \<open>The first interval of a pool whose rotator is spawned at once, and the wake-up after it.\<close>

lemma first_interval:
  "(rotation_step lag (secs 840) lifetime)\<^sup>*\<^sup>* fresh_pool
     \<lparr>ro_now = secs 840, ro_token_at = 0, ro_rotor = Sleeping (secs 840), ro_failures = 0, ro_conns = []\<rparr>"
proof -
  let ?s1 = "fresh_pool\<lparr>ro_rotor := Sleeping (ro_now fresh_pool + secs 840)\<rparr>"
  have "rotation_step lag (secs 840) lifetime fresh_pool ?s1"
    by (rule rotation_step.spawned) (simp add: fresh_pool_def)
  moreover have "rotation_step lag (secs 840) lifetime ?s1 (?s1\<lparr>ro_now := secs 840\<rparr>)"
    by (rule rotation_step.elapses) (simp_all add: fresh_pool_def rotor_patient_def)
  ultimately show ?thesis by (simp add: fresh_pool_def)
qed

theorem rotated_token_fresh_witness:
  "\<exists>s. (rotation_step (secs 20) (secs 840) (secs 840))\<^sup>*\<^sup>* fresh_pool s \<and> ro_now s = secs 840 \<and>
     ro_now s \<le> ro_token_at s + secs 900"
proof -
  let ?s = "\<lparr>ro_now = secs 840, ro_token_at = 0, ro_rotor = Sleeping (secs 840), ro_failures = 0, ro_conns = []\<rparr> :: rotation"
  have "safety_margin default_rotator_config + min_interval default_rotator_config \<le> token_ttl (RdsProvider sample_rds)"
    by (simp add: default_rotator_config_def token_ttl_def secs_def)
  from rotated_token_fresh [OF rds_interval(1) this fresh_pool_init first_interval, of "secs 20"]
  have "ro_now ?s \<le> ro_token_at ?s + secs 900" by (simp add: default_rotator_config_def token_ttl_def secs_def)
  then show ?thesis using first_interval [of "secs 20" "secs 840"] by (intro exI [of _ ?s]) simp
qed

text \<open>
  Nothing in the loop bounds a refresh: a fetch that takes longer than the margin leaves the pool with an
  expired token, with no refresh failed and none counted.
\<close>

theorem slow_refresh_expires_token:
  assumes "safety_margin default_rotator_config < lag"
  shows "\<exists>s. (rotation_step lag (secs 840) lifetime)\<^sup>*\<^sup>* fresh_pool s \<and> ro_failures s = 0
    \<and> ro_token_at s + token_ttl (RdsProvider r) < ro_now s"
proof -
  let ?R = "rotation_step lag (secs 840) lifetime"
  let ?s1 = "\<lparr>ro_now = secs 840, ro_token_at = 0, ro_rotor = Sleeping (secs 840), ro_failures = 0, ro_conns = []\<rparr> :: rotation"
  let ?s2 = "?s1\<lparr>ro_rotor := Fetching (ro_now ?s1)\<rparr>"
  have "?R ?s1 ?s2" by (rule rotation_step.wakes [where due = "secs 840"]) simp_all
  moreover have "?R ?s2 (?s2\<lparr>ro_now := secs 840 + lag\<rparr>)"
    by (rule rotation_step.elapses) (simp_all add: rotor_patient_def)
  ultimately have "?R\<^sup>*\<^sup>* fresh_pool (?s2\<lparr>ro_now := secs 840 + lag\<rparr>)"
    using first_interval [of lag lifetime] by (meson rtranclp.rtrancl_into_rtrancl)
  then show ?thesis
    using assms by (intro exI [of _ "?s2\<lparr>ro_now := secs 840 + lag\<rparr>"]) (simp add: default_rotator_config_def token_ttl_def secs_def)
qed

theorem slow_refresh_expires_token_witness:
  "\<exists>s. (rotation_step (secs 61) (secs 840) (secs 840))\<^sup>*\<^sup>* fresh_pool s \<and> ro_failures s = 0 \<and> ro_token_at s + secs 900 < ro_now s"
  using slow_refresh_expires_token [of "secs 61" "secs 840" sample_rds]
  by (simp add: default_rotator_config_def token_ttl_def secs_def)

text \<open>
  A live connection can outlive the token it was opened with, with every refresh succeeding at once: a
  connection opened just before a refresh has the old token and a whole lifetime ahead.
\<close>

theorem connection_outlives_token:
  "\<exists>s c. rotation_init fresh_pool
     \<and> interval_for default_rotator_config (token_ttl (RdsProvider r)) = Some (secs 840)
     \<and> pool_max_lifetime_for default_rotator_config (token_ttl (RdsProvider r)) = Some (secs 840)
     \<and> (rotation_step 0 (secs 840) (secs 840))\<^sup>*\<^sup>* fresh_pool s \<and> ro_failures s = 0
     \<and> c \<in> set (ro_conns s) \<and> snd c + token_ttl (RdsProvider r) < ro_now s"
proof -
  let ?R = "rotation_step 0 (secs 840) (secs 840)"
  let ?s1 = "\<lparr>ro_now = secs 840, ro_token_at = 0, ro_rotor = Sleeping (secs 840), ro_failures = 0, ro_conns = []\<rparr> :: rotation"
  let ?s2 = "?s1\<lparr>ro_conns := (ro_now ?s1, ro_token_at ?s1) # ro_conns ?s1\<rparr>"
  let ?s3 = "?s2\<lparr>ro_rotor := Fetching (ro_now ?s2)\<rparr>"
  let ?s4 = "?s3\<lparr>ro_token_at := secs 840, ro_rotor := Sleeping (ro_now ?s3 + secs 840), ro_failures := 0\<rparr>"
  let ?s5 = "?s4\<lparr>ro_now := secs 901\<rparr>"
  note step = rtranclp.rtrancl_into_rtrancl [where r = ?R]
  have s2: "?R ?s1 ?s2" by (rule rotation_step.opened)
  have s3: "?R ?s2 ?s3" by (rule rotation_step.wakes [where due = "secs 840"]) simp_all
  have s4: "?R ?s3 ?s4" by (rule rotation_step.refreshed [where began = "secs 840"]) simp_all
  have s5: "?R ?s4 ?s5" by (rule rotation_step.elapses) (simp_all add: rotor_patient_def secs_def)
  have "?R\<^sup>*\<^sup>* fresh_pool ?s5" by (rule step [OF _ s5], rule step [OF _ s4], rule step [OF _ s3], rule step [OF _ s2], rule first_interval)
  moreover have "ro_failures ?s5 = 0" "(secs 840, 0) \<in> set (ro_conns ?s5)" "snd (secs 840, 0) + token_ttl (RdsProvider r) < ro_now ?s5"
    by (simp_all add: token_ttl_def secs_def)
  ultimately show ?thesis using rds_interval [of r] fresh_pool_init by blast
qed

section \<open>The lifetime of a connection\<close>

lemma fetched_is_rds: "fetch_token aws p = Inr token \<Longrightarrow> \<exists>r. p = RdsProvider r"
  by (cases p) (simp_all add: fetch_token_def)

lemma capped_by: "as_millis_u64 c \<noteq> 0 \<Longrightarrow> \<exists>l. lifetime_option (capped_lifetime_ms ms (Some c)) = Some l \<and> l \<le> as_millis_u64 c \<and> 0 < l"
  by (auto simp: capped_lifetime_ms_def lifetime_option_def word_gt_0)

lemma connect_no_provider: "cc_auth_provider cfg = None \<Longrightarrow> driver_connect env d cfg \<noteq> Inr (opts, Some p)"
  by (cases d) (auto simp: driver_connect_def pg_connect_def my_connect_def lite_connect_def and_then_eq_Inr Let_def)

lemma pg_connect_token:
  assumes "cc_auth_provider cfg = Some p0" and "pg_connect env cfg = Inr (opts, Some p)"
  shows "\<exists>token host. fetch_token (oe_aws env) p = Inr token \<and> oe_host env (cc_url cfg) = Some host
     \<and> p = fst (bind_endpoint host (case oe_port env (cc_url cfg) of Some q \<Rightarrow> q | None \<Rightarrow> 5432) p0)
     \<and> po_password opts = Some token \<and> po_url opts = cc_url cfg
     \<and> po_max_lifetime_ms opts =
         lifetime_option (capped_lifetime_ms (cc_max_lifetime_ms cfg) (pool_max_lifetime_for default_rotator_config (token_ttl p)))"
  using assms
  by (auto simp: pg_connect_def open_pool_def base_options_def and_then_eq_Inr map_err_eq_Inr ok_or_eq_Inr Let_def case_prod_beta)

text \<open>
  C14. A pool that authenticates by token is a PostgreSQL pool with an RDS provider, and is opened with a token
  that was signed just then for the host and port of its own URL (5432 where it names none), in the region
  and for the user of the configuration.  Whatever lifetime the operator set, its connections have one,
  counted from when each is opened, that is shorter than the life of a token by the safety margin at least.
  (A connection can be opened with a token that is no longer young: \<open>connection_outlives_token\<close>.)
\<close>

theorem token_pool_lifetime_capped:
  assumes "build_pool env enabled cfg = Inr (opts, Some p)"
  shows "cfg_driver cfg = Postgres \<and> po_url opts = cfg_url cfg \<and>
    (\<exists>region user profile host port params h.
       cfg_auth cfg = Some (RdsIam region user profile) \<and> oe_host env (cfg_url cfg) = Some host \<and>
       port = (case oe_port env (cfg_url cfg) of Some q \<Rightarrow> q | None \<Rightarrow> 5432) \<and>
       (let url = ''https://'' @ host @ '':'' @ show_nat (unat port) @ ''/?Action=connect&DBUser='' @ urlencode user
        in aw_sign (oe_aws env) region url = Inr params \<and> aw_host (oe_aws env) url = Some h \<and>
           po_password opts = Some (h @ '':'' @ show_nat (unat port) @ ''/'' @
             (case aw_query (oe_aws env) url params of Some q \<Rightarrow> CHR ''?'' # q | None \<Rightarrow> [])))) \<and>
    (\<exists>l. po_max_lifetime_ms opts = Some l \<and> 0 < l \<and> unat l * 10 ^ 6 + secs 60 \<le> token_ttl p)"
proof -
  from assms connect_no_provider [of "from_config cfg"] obtain auth p0 where
    auth: "cfg_auth cfg = Some auth" "build_provider enabled auth = Inr p0"
    and c: "driver_connect env (cfg_driver cfg) ((from_config cfg)\<lparr>cc_auth_provider := Some p0\<rparr>) = Inr (opts, Some p)"
    by (cases "cfg_auth cfg") (auto simp: build_pool_def and_then_eq_Inr map_err_eq_Inr from_config_def)
  have d: "cfg_driver cfg = Postgres"
    using c by (auto simp: driver_connect_def my_connect_def lite_connect_def and_then_eq_Inr split: driver_kind.splits)
  let ?port = "case oe_port env (cfg_url cfg) of Some q \<Rightarrow> q | None \<Rightarrow> 5432"
  from pg_connect_token [of "(from_config cfg)\<lparr>cc_auth_provider := Some p0\<rparr>" p0 env opts p] c d obtain token host where
    tok: "fetch_token (oe_aws env) p = Inr token" and host: "oe_host env (cfg_url cfg) = Some host"
    and bound: "p = fst (bind_endpoint host ?port p0)"
    and o: "po_password opts = Some token" "po_url opts = cfg_url cfg" "po_max_lifetime_ms opts =
      lifetime_option (capped_lifetime_ms (cc_max_lifetime_ms (from_config cfg)) (pool_max_lifetime_for default_rotator_config (token_ttl p)))"
    by (auto simp: driver_connect_def from_config_def)
  from fetched_is_rds [OF tok] obtain r where r: "p = RdsProvider r" by blast
  then obtain region user profile where rds: "auth = RdsIam region user profile"
    "p0 = RdsProvider \<lparr>rds_region_of = region, rds_user_of = user, rds_profile_of = profile, rds_endpoint = None\<rparr>"
    using auth(2) bound
    by (cases auth) (auto simp: build_provider_def rds_new_def bind_endpoint_def and_then_eq_Inr split: if_splits)
  then have "r = \<lparr>rds_region_of = region, rds_user_of = user, rds_profile_of = profile, rds_endpoint = Some (host, ?port)\<rparr>"
    using bound r by (simp add: bind_endpoint_def rds_set_endpoint_def)
  then obtain params h where signed: "let url = ''https://'' @ host @ '':'' @ show_nat (unat ?port) @ ''/?Action=connect&DBUser='' @ urlencode user
        in aw_sign (oe_aws env) region url = Inr params \<and> aw_host (oe_aws env) url = Some h \<and>
           po_password opts = Some (h @ '':'' @ show_nat (unat ?port) @ ''/'' @
             (case aw_query (oe_aws env) url params of Some q \<Rightarrow> CHR ''?'' # q | None \<Rightarrow> []))"
    using tok o(1) r unfolding Let_def
    by (auto simp: fetch_token_def rds_presign_def rds_url_def and_then_eq_Inr ok_or_eq_Inr Let_def)
  have ms: "as_millis_u64 (secs 840) = 840000" by (simp add: as_millis_u64_def secs_def)
  from capped_by [of "secs 840" "cc_max_lifetime_ms (from_config cfg)"] obtain l where
    l: "po_max_lifetime_ms opts = Some l" "l \<le> 840000" "0 < l"
    by (auto simp: o(3) r rds_interval ms)
  then have "unat l \<le> 840000" by (simp add: word_le_nat_alt)
  then have "unat l * 10 ^ 6 + secs 60 \<le> token_ttl p" by (simp add: r token_ttl_def secs_def)
  with d auth(1) rds(1) host signed o(2) l show ?thesis by blast
qed

definition sample_aws :: aws_env where
  "sample_aws =
     \<lparr>aw_credentials = (\<lambda>_ _. Inr ()), aw_sign = (\<lambda>_ _. Inr [(''X-Amz-Signature'', ''s'')]), aw_host = (\<lambda>_. Some ''db''),
      aw_query = (\<lambda>_ _. Some ''q'')\<rparr>"

definition sample_connect_env :: connect_env where
  "sample_connect_env =
     \<lparr>oe_parse = (\<lambda>_ _. Inr ()), oe_host = (\<lambda>_. Some ''db''), oe_port = (\<lambda>_. None), oe_aws = sample_aws,
      oe_open = (\<lambda>_. Inr ()), oe_render = (\<lambda>_. [])\<rparr>"

definition sample_token_cfg :: sql_backend_config where
  "sample_token_cfg = sample_cfg\<lparr>cfg_driver := Postgres, cfg_auth := Some (RdsIam ''eu'' ''app'' None)\<rparr>"

theorem token_pool_lifetime_capped_witness:
  "\<exists>opts p. build_pool sample_connect_env (\<lambda>_. True) sample_token_cfg = Inr (opts, Some p)
     \<and> (\<exists>l. po_max_lifetime_ms opts = Some l \<and> unat l * 10 ^ 6 + secs 60 \<le> token_ttl p)"
proof -
  have b: "\<not> is_blank ''eu''" "\<not> is_blank ''app''"
    by (simp_all add: is_blank_def trim_start_no_ws ws1_def ws2_def ws3_def)
  have "\<exists>opts p. build_pool sample_connect_env (\<lambda>_. True) sample_token_cfg = Inr (opts, Some p)"
    by (simp add: build_pool_def sample_token_cfg_def sample_connect_env_def sample_aws_def build_provider_def rds_new_def b
        driver_connect_def pg_connect_def from_config_def bind_endpoint_def rds_set_endpoint_def fetch_token_def rds_presign_def
        Let_def open_pool_def)
  then obtain opts p where b: "build_pool sample_connect_env (\<lambda>_. True) sample_token_cfg = Inr (opts, Some p)" by blast
  from token_pool_lifetime_capped [OF b] b show ?thesis by blast
qed

section \<open>The user name in a token\<close>

definition hex_value :: "char \<Rightarrow> nat" where
  "hex_value c = (if is_ascii_digit c then byte c - 48 else byte c - 55)"

fun percent_decode :: "str \<Rightarrow> str" where
  "percent_decode (c # a # b # s) =
     (if c = CHR ''%'' then char_of (16 * hex_value a + hex_value b) # percent_decode s
      else c # percent_decode (a # b # s))"
| "percent_decode (c # s) = c # percent_decode s"
| "percent_decode [] = []"

lemma hex_digits: "n < 16 \<Longrightarrow> hex_value (hex_upper n) = n \<and> unreserved (hex_upper n)"
proof -
  assume "n < 16"
  then have "n \<in> set [0..<16]" by simp
  moreover have "list_all (\<lambda>n. hex_value (hex_upper n) = n \<and> unreserved (hex_upper n)) [0..<16]" by code_simp
  ultimately show ?thesis unfolding list_all_iff by (metis (lifting))
qed

lemma percent_decode_plain: "c \<noteq> CHR ''%'' \<Longrightarrow> percent_decode (c # s) = c # percent_decode s"
  by (cases "(c # s)" rule: percent_decode.cases) auto

text \<open>The user name is read back from the URL of a token, and no other character than those of a query value is in it.\<close>

theorem urlencode_roundtrip: "percent_decode (urlencode s) = s \<and> (\<forall>c \<in> set (urlencode s). unreserved c \<or> c = CHR ''%'')"
proof (induction s)
  case Nil
  then show ?case by (simp add: urlencode_def)
next
  case (Cons c s)
  have u: "urlencode (c # s) = (if unreserved c then [c] else [CHR ''%'', hex_upper (byte c div 16), hex_upper (byte c mod 16)]) @ urlencode s"
    by (simp add: urlencode_def)
  have "byte c < 256" by (rule nat_of_char_less_256)
  then have "byte c div 16 < 16" "byte c mod 16 < 16" by (simp_all add: less_mult_imp_div_less)
  note hex = hex_digits [OF this(1)] hex_digits [OF this(2)]
  have "\<not> unreserved (CHR ''%'')" by (simp add: unreserved_def bytes_simps)
  then have "unreserved c \<Longrightarrow> percent_decode (c # urlencode s) = c # percent_decode (urlencode s)"
    by (intro percent_decode_plain) auto
  then show ?case using Cons hex by (auto simp: u)
qed

end
