(* ===== verification/Completion.thy ===== *)
theory Completion
  imports Dispatch
begin

text \<open>
  \<open>complete_template_variable\<close> of \<open>src/lib.rs\<close>: completion of a template variable by a query the operator
  declares.  Its configuration is what \<open>serde_json\<close> reads (\<open>Inl\<close> its error), the completion context an
  ordered map; \<open>exec\<close> is the driver's \<open>execute\<close> on the static pool of the binding.  The result carries what
  was handed to the driver, as a call's does.
\<close>

section \<open>Definitions\<close>

record completion_config =
  cc_query :: str
  cc_max_results :: "u32 option"

definition ctx_key_ok :: "str \<Rightarrow> bool" where
  "ctx_key_ok k \<longleftrightarrow> k \<noteq> [] \<and> list_all is_ident_byte k"

definition ctx_binds :: "str omap \<Rightarrow> str \<rightharpoonup> str" where
  "ctx_binds ctx =
     fold (\<lambda>(k, v) m. if ctx_key_ok k then m(map to_ascii_lower k \<mapsto> v) else m) ctx Map.empty"

definition completion_value :: "(msg \<Rightarrow> str) \<Rightarrow> str \<Rightarrow> (str \<rightharpoonup> str) \<Rightarrow> str \<Rightarrow> json backend_result" where
  "completion_value mtext prefix_text binds name =
     (if name = ''prefix'' then Inr (JStr prefix_text)
      else
        (case strip_prefix ''ctx_'' name of
           Some rest \<Rightarrow>
             (case binds rest of
                Some v \<Rightarrow> Inr (JStr v)
              | None \<Rightarrow> Inl (BInvalidSpec (mtext (Msg ''completion context has no such entry'' [rest]))))
         | None \<Rightarrow> Inl (BInvalidSpec (mtext (Msg ''unsupported placeholder'' [name])))))"

definition completion_args ::
    "(msg \<Rightarrow> str) \<Rightarrow> str \<Rightarrow> (str \<rightharpoonup> str) \<Rightarrow> str list \<Rightarrow> bound_param list backend_result" where
  "completion_args mtext prefix_text binds param_order =
     try_map (\<lambda>name. and_then (completion_value mtext prefix_text binds name)
                (\<lambda>value. Inr \<lparr>bp_name = name, bp_value = value\<rparr>)) param_order"

definition completion_stmt :: "completion_config \<Rightarrow> driver_kind \<Rightarrow> prepared_stmt" where
  "completion_stmt cfg d =
     (case rewrite_placeholders (cc_query cfg) d of
        (rewritten, order) \<Rightarrow> \<lparr>ps_sql = rewritten, ps_param_order = order, ps_driver = d\<rparr>)"

definition completion_cell :: "str list \<Rightarrow> json \<Rightarrow> str option" where
  "completion_cell columns row =
     (case (columns, row) of
        (col # _, JObj m) \<Rightarrow> (case omap_get m col of Some (JStr s) \<Rightarrow> Some s | _ \<Rightarrow> None)
      | _ \<Rightarrow> None)"

definition completion_max :: "completion_config \<Rightarrow> nat" where
  "completion_max cfg = (case cc_max_results cfg of None \<Rightarrow> 100 | Some n \<Rightarrow> unat n)"

definition complete_template_variable ::
    "(msg \<Rightarrow> str) \<Rightarrow> (sql_error \<Rightarrow> backend_error) \<Rightarrow> driver_execute \<Rightarrow> plugin_state \<Rightarrow> str \<Rightarrow> str \<Rightarrow>
     str + completion_config \<Rightarrow> str omap \<Rightarrow> str list traced" where
  "complete_template_variable mtext to_be exec plugin backend_name prefix_text config ctx =
     tbind (quiet (map_err (\<lambda>e. BInvalidSpec (mtext (Msg ''variable_completions.config'' [e]))) config)) (\<lambda>cfg.
     if \<not> sublist '':prefix'' (cc_query cfg)
     then quiet (Inl (BInvalidSpec ''variable_completions.config.query must reference `:prefix`''))
     else
       tbind (quiet (map_err to_be (ok_or (profiles plugin backend_name) (ProfileNotFound backend_name)))) (\<lambda>rt.
       let stmt = completion_stmt cfg (rt_driver_kind rt)
       in tbind (quiet (completion_args mtext prefix_text (ctx_binds ctx) (ps_param_order stmt))) (\<lambda>args.
          tbind (emit [Submitted \<lparr>dc_pool = StaticPool, dc_stmt = stmt, dc_args = args, dc_session = rt_session_vars rt\<rparr>]) (\<lambda>_.
          tbind (quiet (map_err to_be (exec stmt args (rt_session_vars rt)))) (\<lambda>batch.
          quiet (Inr (List.map_filter (completion_cell (rb_columns batch))
                 (take (completion_max cfg) (rb_rows batch)))))))))"

section \<open>The context\<close>

lemma fold_binds:
  "fold (\<lambda>(k, v) m. if ctx_key_ok k then m(map to_ascii_lower k \<mapsto> v) else m) ctx m0 =
     m0 ++ ctx_binds ctx"
proof (induction ctx arbitrary: m0)
  case Nil
  then show ?case by (simp add: ctx_binds_def)
next
  case (Cons kv ctx)
  obtain k v where kv: "kv = (k, v)" by (cases kv)
  show ?case
    unfolding ctx_binds_def [of "kv # ctx"]
    by (simp add: kv Cons.IH map_add_assoc [symmetric] del: map_add_assoc) (simp add: map_add_def fun_eq_iff split: option.splits)
qed

lemma ctx_binds_Nil [simp]: "ctx_binds [] = Map.empty"
  by (simp add: ctx_binds_def)

lemma ctx_binds_Cons:
  "ctx_binds ((k, v) # ctx) =
     (if ctx_key_ok k then [map to_ascii_lower k \<mapsto> v] else Map.empty) ++ ctx_binds ctx"
  by (subst ctx_binds_def) (simp add: fold_binds)

lemma ctx_binds_from:
  "ctx_binds ctx name = Some v \<Longrightarrow>
     \<exists>k. (k, v) \<in> set ctx \<and> ctx_key_ok k \<and> name = map to_ascii_lower k"
  by (induction ctx) (auto simp: ctx_binds_Cons map_add_Some_iff split: if_splits, blast+)

lemma to_ascii_lower_not_upper: "\<not> is_ascii_uppercase (to_ascii_lower c)"
  by (simp add: to_ascii_lower_def is_ascii_uppercase_def)

lemma completion_stmt_simps [simp]:
  "ps_sql (completion_stmt cfg d) = fst (rewrite_placeholders (cc_query cfg) d)"
  "ps_param_order (completion_stmt cfg d) = snd (rewrite_placeholders (cc_query cfg) d)"
  by (simp_all add: completion_stmt_def split: prod.splits)

lemma try_map_Inl: "try_map f xs = Inl e \<Longrightarrow> \<exists>x \<in> set xs. f x = Inl e"
  by (induction xs) (auto simp: result_simps)

lemma completion_value_ok:
  "completion_value mtext p (ctx_binds ctx) name = Inr value \<Longrightarrow>
     name = ''prefix'' \<and> value = JStr p \<or>
     (\<exists>k v. (k, v) \<in> set ctx \<and> ctx_key_ok k \<and> name = ''ctx_'' @ map to_ascii_lower k \<and> value = JStr v)"
  by (auto simp: completion_value_def strip_prefix_Some split: if_splits option.splits dest!: ctx_binds_from)

lemma completion_args_ok:
  assumes "completion_args mtext p (ctx_binds ctx) order = Inr args"
  shows "map bp_name args = order \<and>
    (\<forall>a \<in> set args. bp_name a = ''prefix'' \<and> bp_value a = JStr p \<or>
       (\<exists>k v. (k, v) \<in> set ctx \<and> ctx_key_ok k \<and> bp_name a = ''ctx_'' @ map to_ascii_lower k \<and>
          bp_value a = JStr v))"
proof -
  have "list_all2 (\<lambda>name a. bp_name a = name \<and>
      completion_value mtext p (ctx_binds ctx) name = Inr (bp_value a)) order args"
    using assms unfolding completion_args_def try_map_ok
    by (rule list_all2_mono) auto
  then show ?thesis
  proof (induction rule: list_all2_induct)
    case Nil
    then show ?case by simp
  next
    case (Cons name order a args)
    then show ?case using completion_value_ok [of mtext p ctx name] by auto
  qed
qed

section \<open>Properties\<close>

text \<open>
  C17. A completion never writes what the caller typed into a statement: whatever it answers, it has
  handed the driver nothing, and then it failed, or exactly one statement, whose text is the rewriting of the
  configured query and nothing else, with one argument for each placeholder, which is the prefix or the value
  of a context entry whose key is an identifier, under the lower-cased key.  Its answer is the error of that
  statement, or the strings in the first column of its first \<open>max_results\<close> rows (100 where none is set), in
  order.
\<close>

theorem completion_binds_only:
  assumes "complete_template_variable mtext to_be exec plugin name p (Inr cfg) ctx = (evs, r)"
  shows "evs = [] \<and> (\<exists>e. r = Inl e) \<or>
    (\<exists>rt c. profiles plugin name = Some rt \<and> evs = [Submitted c] \<and>
       dc_stmt c = \<lparr>ps_sql = fst (rewrite_placeholders (cc_query cfg) (rt_driver_kind rt)),
         ps_param_order = snd (rewrite_placeholders (cc_query cfg) (rt_driver_kind rt)), ps_driver = rt_driver_kind rt\<rparr> \<and>
       map bp_name (dc_args c) = snd (rewrite_placeholders (cc_query cfg) (rt_driver_kind rt)) \<and>
       (\<forall>a \<in> set (dc_args c). bp_name a = ''prefix'' \<and> bp_value a = JStr p \<or>
          (\<exists>k v. (k, v) \<in> set ctx \<and> ctx_key_ok k \<and> bp_name a = ''ctx_'' @ map to_ascii_lower k \<and>
             bp_value a = JStr v)) \<and>
       dc_session c = rt_session_vars rt \<and>
       (case exec (dc_stmt c) (dc_args c) (dc_session c) of
          Inl e \<Rightarrow> r = Inl (to_be e)
        | Inr batch \<Rightarrow>
            r = Inr (List.map_filter
                  (\<lambda>row. case (rb_columns batch, row) of
                     (col # _, JObj m) \<Rightarrow> (case omap_get m col of Some (JStr s) \<Rightarrow> Some s | _ \<Rightarrow> None)
                   | _ \<Rightarrow> None)
                  (take (case cc_max_results cfg of None \<Rightarrow> 100 | Some n \<Rightarrow> unat n) (rb_rows batch)))))"
proof (cases "sublist '':prefix'' (cc_query cfg) \<and> profiles plugin name \<noteq> None")
  case False
  then have "evs = [] \<and> (\<exists>e. r = Inl e)"
    using assms by (cases "sublist '':prefix'' (cc_query cfg)"; cases "profiles plugin name")
      (auto simp: complete_template_variable_def quiet_def tbind_def ok_or_def)
  then show ?thesis by (rule disjI1)
next
  case True
  then obtain rt where rt: "profiles plugin name = Some rt" and pre: "sublist '':prefix'' (cc_query cfg)" by auto
  let ?stmt = "completion_stmt cfg (rt_driver_kind rt)"
  show ?thesis
  proof (cases "completion_args mtext p (ctx_binds ctx) (ps_param_order ?stmt)")
    case (Inl e)
    then have "evs = [] \<and> (\<exists>e. r = Inl e)"
      using assms rt pre by (auto simp: complete_template_variable_def quiet_def tbind_def ok_or_def Let_def)
    then show ?thesis by (rule disjI1)
  next
    case (Inr args)
    let ?c = "\<lparr>dc_pool = StaticPool, dc_stmt = ?stmt, dc_args = args, dc_session = rt_session_vars rt\<rparr>"
    have stmt: "?stmt = \<lparr>ps_sql = fst (rewrite_placeholders (cc_query cfg) (rt_driver_kind rt)),
        ps_param_order = snd (rewrite_placeholders (cc_query cfg) (rt_driver_kind rt)), ps_driver = rt_driver_kind rt\<rparr>"
      by (simp add: completion_stmt_def split: prod.splits)
    have run: "evs = [Submitted ?c]" "case exec ?stmt args (rt_session_vars rt) of
        Inl e \<Rightarrow> r = Inl (to_be e)
      | Inr batch \<Rightarrow> r = Inr (List.map_filter (completion_cell (rb_columns batch)) (take (completion_max cfg) (rb_rows batch)))"
      using assms rt pre Inr
      by (auto simp: complete_template_variable_def quiet_def tbind_def emit_def ok_or_def Let_def split: sum.splits)
    show ?thesis
      using rt run stmt completion_args_ok [OF Inr] unfolding completion_cell_def completion_max_def
      by (intro disjI2 exI [of _ rt] exI [of _ ?c]) simp
  qed
qed

text \<open>
  A placeholder whose name has an upper-case letter can never be bound: the keys of the context are
  lower-cased and the name is looked up as written, so such a query fails whatever the context holds.
\<close>

theorem completion_uppercase_unbound:
  assumes "''ctx_'' @ k \<in> set (snd (rewrite_placeholders (cc_query cfg) (rt_driver_kind rt)))"
    and "\<exists>c \<in> set k. is_ascii_uppercase c" and "profiles plugin name = Some rt"
  shows "\<exists>e. complete_template_variable mtext to_be exec plugin name p (Inr cfg) ctx = ([], Inl (BInvalidSpec e))"
proof -
  have "completion_value mtext p (ctx_binds ctx) (''ctx_'' @ k) \<noteq> Inr w" for w
  proof
    assume "completion_value mtext p (ctx_binds ctx) (''ctx_'' @ k) = Inr w"
    then obtain k' where "k = map to_ascii_lower k'" using completion_value_ok by fastforce
    with assms(2) show False using to_ascii_lower_not_upper by auto
  qed
  then have "completion_args mtext p (ctx_binds ctx) order \<noteq> Inr args" if "''ctx_'' @ k \<in> set order" for order args
    using that by (auto simp: completion_args_def try_map_ok list_all2_conv_all_nth in_set_conv_nth)
  moreover have "completion_args mtext p (ctx_binds ctx) order = Inl e \<Longrightarrow> \<exists>m. e = BInvalidSpec m" for order e
    by (auto simp: completion_args_def result_simps completion_value_def dest!: try_map_Inl split: if_splits option.splits)
  ultimately have "\<exists>m. completion_args mtext p (ctx_binds ctx)
      (snd (rewrite_placeholders (cc_query cfg) (rt_driver_kind rt))) = Inl (BInvalidSpec m)"
    using assms(1) by (metis sum.exhaust)
  then show ?thesis
    using assms(3) by (auto simp: complete_template_variable_def quiet_def tbind_def Let_def)
qed

text \<open>
  A context entry whose key is in lower case keeps its value: an entry whose key differs from it only in
  case is inserted before it, because the context is ordered by bytes.
\<close>

lemma lower_less: "map to_ascii_lower k' = k \<Longrightarrow> k' \<noteq> k \<Longrightarrow> k' < (k :: str)"
proof (induction k' arbitrary: k)
  case Nil
  then show ?case by simp
next
  case (Cons c k')
  then have k: "k = to_ascii_lower c # map to_ascii_lower k'" by simp
  show ?case
  proof (cases "is_ascii_uppercase c")
    case True
    then have "c < to_ascii_lower c"
      by (auto simp: to_ascii_lower_def is_ascii_uppercase_def less_char_def)
    then show ?thesis by (simp add: k)
  next
    case False
    then have "to_ascii_lower c = c" by (simp add: to_ascii_lower_def)
    with Cons k show ?thesis by auto
  qed
qed

theorem completion_lower_case_wins:
  assumes "omap_ok ctx" and "omap_get ctx k = Some v" and "ctx_key_ok k" and "map to_ascii_lower k = k"
  shows "ctx_binds ctx k = Some v"
  using assms(1,2)
proof (induction ctx)
  case Nil
  then show ?case by simp
next
  case (Cons kv ctx)
  obtain k0 v0 where kv: "kv = (k0, v0)" by (cases kv)
  show ?case
  proof (cases "k0 = k")
    case True
    have "ctx_binds ctx k = None"
    proof (rule ccontr)
      assume "ctx_binds ctx k \<noteq> None"
      then obtain k' v' where k': "(k', v') \<in> set ctx" "k = map to_ascii_lower k'" using ctx_binds_from by blast
      then have "k' \<le> k" using lower_less [of k' k] by fastforce
      moreover have "k < k'" using k' Cons.prems(1) True kv by (force simp: omap_ok_def)
      ultimately show False by simp
    qed
    with True Cons.prems(2) kv assms(3,4) show ?thesis
      by (auto simp: ctx_binds_Cons map_add_def omap_get_def split: option.splits)
  next
    case False
    with Cons kv have "ctx_binds ctx k = Some v" by (auto simp: omap_ok_def omap_get_def)
    then show ?thesis by (simp add: kv ctx_binds_Cons)
  qed
qed

text \<open>
  The completion query is run as it is written: no screen for several statements or for privileged DDL
  stands before it, unlike every statement of a registered profile.
\<close>

definition stacked_completion :: completion_config where
  "stacked_completion = \<lparr>cc_query = ''SELECT :prefix; DROP TABLE t'', cc_max_results = None\<rparr>"

theorem completion_unscreened:
  assumes "profiles plugin name = Some rt" and "rt_driver_kind rt = Postgres"
    and "exec \<lparr>ps_sql = ''SELECT $1; DROP TABLE t'', ps_param_order = [''prefix''], ps_driver = Postgres\<rparr>
           [\<lparr>bp_name = ''prefix'', bp_value = JStr p\<rparr>] (rt_session_vars rt) = Inr batch"
  shows "is_ok (snd (complete_template_variable mtext to_be exec plugin name p (Inr stacked_completion) ctx)) \<and>
    \<not> is_ok (reject_multi_statement (cc_query stacked_completion))"
proof -
  have rw: "rewrite_placeholders (cc_query stacked_completion) Postgres = (''SELECT $1; DROP TABLE t'', [''prefix''])"
    by code_simp
  have "sublist '':prefix'' (cc_query stacked_completion)" by code_simp
  then have "snd (complete_template_variable mtext to_be exec plugin name p (Inr stacked_completion) ctx) =
      Inr (List.map_filter (completion_cell (rb_columns batch))
        (take (completion_max stacked_completion) (rb_rows batch)))"
    using assms by (simp add: complete_template_variable_def completion_args_def completion_value_def
        completion_stmt_def rw)
  then have "is_ok (snd (complete_template_variable mtext to_be exec plugin name p (Inr stacked_completion) ctx))"
    by (simp add: is_ok_def)
  moreover have "\<not> is_ok (reject_multi_statement (cc_query stacked_completion))" by code_simp
  ultimately show ?thesis by simp
qed

section \<open>Witnesses\<close>

definition owner_completion :: completion_config where
  "owner_completion =
     \<lparr>cc_query = ''SELECT r FROM t WHERE o = :ctx_owner AND r LIKE :prefix'', cc_max_results = Some 1\<rparr>"

definition completion_exec :: driver_execute where
  "completion_exec stmt args session =
     (if length args = length (ps_param_order stmt)
      then Inr (batch_of [''r''] [json_obj [(''r'', JStr ''api'')], json_obj [(''r'', JStr ''app'')]])
      else Inl (invalid ''arguments'' []))"

definition owner_answer :: "str list traced" where
  "owner_answer =
     complete_template_variable (\<lambda>_. []) (\<lambda>_. draining_error) completion_exec (sample_plugin sample_rt) ''orders'' ''a''
       (Inr owner_completion) [(''Owner'', ''x''), (''owner'', ''y'')]"

lemma owner_runs: "length (fst owner_answer) = 1 \<and> snd owner_answer = Inr [''api'']"
  by code_simp

theorem completion_binds_only_witness:
  "\<exists>c. fst owner_answer = [Submitted c] \<and> map bp_name (dc_args c) = [''ctx_owner'', ''prefix''] \<and> snd owner_answer = Inr [''api'']"
proof -
  have order: "snd (rewrite_placeholders (cc_query owner_completion) Postgres) = [''ctx_owner'', ''prefix'']"
    by code_simp
  have rt: "profiles (sample_plugin sample_rt) ''orders'' = Some sample_rt" "rt_driver_kind sample_rt = Postgres"
    by (simp_all add: sample_plugin_def sample_rt_def)
  define evs where "evs = fst owner_answer"
  have run: "owner_answer = (evs, Inr [''api''])" "evs \<noteq> []"
    using owner_runs by (simp_all add: prod_eq_iff evs_def) auto
  note ok = completion_binds_only [OF run(1) [unfolded owner_answer_def]]
  obtain c where c: "evs = [Submitted c]" "map bp_name (dc_args c) = [''ctx_owner'', ''prefix'']"
    by (rule disjE [OF ok]) (use run(2) in \<open>auto simp only: rt order option.inject\<close>)
  show ?thesis unfolding run(1) fst_conv snd_conv by (intro exI conjI) (rule c(1), rule c(2), rule refl)
qed

theorem completion_lower_case_wins_witness:
  "ctx_binds [(''Owner'', ''x''), (''owner'', ''y'')] ''owner'' = Some ''y''"
  by (rule completion_lower_case_wins) code_simp+

theorem completion_uppercase_unbound_witness:
  "\<exists>e. complete_template_variable (\<lambda>_. []) (\<lambda>_. draining_error) completion_exec (sample_plugin sample_rt) ''orders'' ''a''
     (Inr \<lparr>cc_query = ''SELECT :prefix, :ctx_Owner'', cc_max_results = None\<rparr>) [(''Owner'', ''x'')] = ([], Inl (BInvalidSpec e))"
  by (rule completion_uppercase_unbound [where k = "''Owner''" and rt = sample_rt]) code_simp+

theorem completion_unscreened_witness:
  "is_ok (snd (complete_template_variable (\<lambda>_. []) (\<lambda>_. draining_error) completion_exec (sample_plugin sample_rt) ''orders'' ''a''
     (Inr stacked_completion) []))"
  using completion_unscreened [of "sample_plugin sample_rt" "''orders''" sample_rt completion_exec "''a''"]
  by (simp add: sample_plugin_def sample_rt_def completion_exec_def)

end
