(* ===== verification/Rounding.thy ===== *)
theory Rounding
  imports Complex_Main Cost
begin

text \<open>
  The error of the floating-point model: \<open>f64_bits\<close> (theory \<open>Decimal\<close>) is the double nearest to a quotient up to
  half a unit in the last place, and so is a product of \<open>f64_mul\<close> (theory \<open>Cost\<close>).
\<close>

lemma bit_length_spec: "0 < n \<Longrightarrow> 0 < bit_length n \<and> 2 ^ (bit_length n - 1) \<le> n \<and> n < 2 ^ bit_length n"
proof (induction n rule: bit_length.induct)
  case (1 n)
  show ?case
  proof (cases "n div 2 = 0")
    case True
    with "1.prems" have "n = 1" by simp
    then show ?thesis by (simp add: bit_length.simps)
  next
    case False
    let ?b = "bit_length (n div 2)"
    have ih: "0 < ?b" "2 ^ (?b - 1) \<le> n div 2" "n div 2 < 2 ^ ?b" using 1 False by auto
    then have "2 ^ ?b \<le> n" by (cases ?b) auto
    moreover have "n < 2 * 2 ^ ?b" using ih(3) by linarith
    moreover have "bit_length n = Suc ?b" using "1.prems" by (subst bit_length.simps) simp
    ultimately show ?thesis by simp
  qed
qed

lemma bit_length_real:
  assumes "0 < n"
  shows "2 powi (int (bit_length n) - 1) \<le> real n \<and> real n < 2 powi int (bit_length n)"
proof -
  have b: "0 < bit_length n" "2 ^ (bit_length n - 1) \<le> n" "n < 2 ^ bit_length n"
    using bit_length_spec [OF assms] by blast+
  have "int (bit_length n) - 1 = int (bit_length n - 1)" using b(1) by (simp add: of_nat_diff)
  then have "2 powi (int (bit_length n) - 1) = real (2 ^ (bit_length n - 1))"
    by (simp only: power_int_of_nat of_nat_power of_nat_numeral)
  also have "\<dots> \<le> real n" using b(2) by (simp only: of_nat_le_iff)
  finally have "2 powi (int (bit_length n) - 1) \<le> real n" .
  moreover have "real n < real (2 ^ bit_length n)" using b(3) by (simp only: of_nat_less_iff)
  ultimately show ?thesis by (simp only: power_int_of_nat of_nat_power of_nat_numeral simp_thms)
qed

lemma two_le_iff:
  "(if 0 \<le> d then den * 2 ^ nat d \<le> num else den \<le> num * 2 ^ nat (- d)) \<longleftrightarrow>
     real den * 2 powi d \<le> real num" for d :: int and num den :: nat
proof (cases "0 \<le> d")
  case True
  have "real den * 2 powi d \<le> real num \<longleftrightarrow> real (den * 2 ^ nat d) \<le> real num"
    using True by (simp add: power_int_def)
  then show ?thesis unfolding of_nat_le_iff using True by simp
next
  case False
  have "real den * 2 powi d \<le> real num \<longleftrightarrow> real den \<le> real (num * 2 ^ nat (- d))"
    using False by (simp add: power_int_def field_simps)
  then show ?thesis unfolding of_nat_le_iff using False by simp
qed

lemma floor_log2_spec:
  assumes "0 < num" and "0 < den"
  shows "2 powi floor_log2 num den \<le> real num / real den \<and> real num / real den < 2 powi (floor_log2 num den + 1)"
proof -
  let ?a = "bit_length num" and ?b = "bit_length den"
  let ?d = "int ?a - int ?b"
  have ra: "2 powi (int ?a - 1) \<le> real num" "real num < 2 powi int ?a"
    and rb: "2 powi (int ?b - 1) \<le> real den" "real den < 2 powi int ?b"
    using bit_length_real assms by blast+
  have "2 powi (?d - 1) * real den < 2 powi (?d - 1) * 2 powi int ?b" using rb(2) by simp
  also have "\<dots> = 2 powi (int ?a - 1)" by (subst power_int_add [symmetric]) simp_all
  finally have low: "2 powi (?d - 1) \<le> real num / real den" using ra(1) assms(2) by (simp add: field_simps)
  have "real num < 2 powi (?d + 1) * 2 powi (int ?b - 1)"
    using ra(2) by (subst power_int_add [symmetric]) simp_all
  also have "\<dots> \<le> 2 powi (?d + 1) * real den" using rb(1) by simp
  finally have high: "real num / real den < 2 powi (?d + 1)" using assms(2) by (simp add: field_simps)
  show ?thesis
  proof (cases "real den * 2 powi ?d \<le> real num")
    case True
    then have "floor_log2 num den = ?d" by (simp only: floor_log2_def Let_def two_le_iff if_True)
    moreover have "2 powi ?d \<le> real num / real den" using True assms(2) by (simp add: field_simps)
    ultimately show ?thesis using high by (simp only: simp_thms)
  next
    case False
    then have "floor_log2 num den = ?d - 1" by (simp only: floor_log2_def Let_def two_le_iff if_False)
    moreover have "real num / real den < 2 powi ?d" using False assms(2) by (simp add: field_simps)
    ultimately show ?thesis using low by (simp only: diff_add_cancel simp_thms)
  qed
qed

lemma round_div_error:
  assumes "0 < b"
  shows "\<bar>real (round_div a b) - real a / real b\<bar> \<le> 1 / 2"
proof -
  have ab: "real a = real b * real (a div b) + real (a mod b)"
    by (metis mult_div_mod_eq of_nat_add of_nat_mult)
  have "real a / real b = real (a div b) + real (a mod b) / real b" using assms by (simp add: ab field_simps)
  moreover have "2 * (a mod b) \<le> b \<Longrightarrow> real (a mod b) / real b \<le> 1 / 2"
  proof -
    assume "2 * (a mod b) \<le> b"
    then have "real (2 * (a mod b)) \<le> real b" by (simp only: of_nat_le_iff)
    then show ?thesis using assms by (simp add: field_simps)
  qed
  moreover have "b \<le> 2 * (a mod b) \<Longrightarrow> 1 / 2 \<le> real (a mod b) / real b"
  proof -
    assume "b \<le> 2 * (a mod b)"
    then have "real b \<le> real (2 * (a mod b))" by (simp only: of_nat_le_iff)
    then show ?thesis using assms by (simp add: field_simps)
  qed
  moreover have "real (a mod b) / real b < 1" using assms by simp
  moreover have "0 \<le> real (a mod b) / real b" by simp
  ultimately show ?thesis by (auto simp: round_div_def Let_def abs_le_iff)
qed

lemma mag_units_normal:
  assumes "2 ^ 52 \<le> m" and "m \<le> 2 ^ 53"
  shows "mag_units (k * 2 ^ 52 + m) = m * 2 ^ k"
proof (cases "m = 2 ^ 53")
  case True
  then have "k * 2 ^ 52 + m = (k + 2) * 2 ^ 52" by simp
  then show ?thesis using True by (simp add: mag_units_def)
next
  case False
  then have "m < 2 ^ 53" using assms(2) by simp
  define r where "r = m - 2 ^ 52"
  have r: "m = 2 ^ 52 + r" "r < 2 ^ 52" using assms(1) \<open>m < 2 ^ 53\<close> by (auto simp: r_def)
  then have "k * 2 ^ 52 + m = (k + 1) * 2 ^ 52 + r" by simp
  moreover have "((k + 1) * 2 ^ 52 + r) div 2 ^ 52 = k + 1" using r(2) by (subst div_mult_self3) simp_all
  moreover have "((k + 1) * 2 ^ 52 + r) mod 2 ^ 52 = r" using r(2) by (subst mod_mult_self3) simp
  ultimately show ?thesis by (simp only: mag_units_def) (simp add: r(1))
qed

text \<open>The significand \<open>f64_bits\<close> rounds, with its exponent.\<close>

lemma scale_down: "x < 2 powi (e + 53) \<Longrightarrow> x * 2 powi (- e) < 9007199254740992" for x :: real
  by (simp add: power_int_add power_int_minus field_simps)

lemma f64_bits_parts:
  assumes "0 < num" and "0 < den"
  defines "e \<equiv> max (- 1074) (floor_log2 num den - 52)"
  obtains m where "f64_bits num den = min f64_inf (nat (e + 1074) * 2 ^ 52 + m)"
    and "\<bar>real m - real num / real den * 2 powi (- e)\<bar> \<le> 1 / 2" and "m \<le> 2 ^ 53"
proof -
  let ?m = "if 0 \<le> e then round_div num (den * 2 ^ nat e) else round_div (num * 2 ^ nat (- e)) den"
  let ?x = "real num / real den"
  have bits: "f64_bits num den = min f64_inf (nat (e + 1074) * 2 ^ 52 + ?m)"
    using assms(1) by (simp only: f64_bits_def Let_def e_def f64_inf_def) simp
  have m: "\<bar>real ?m - ?x * 2 powi (- e)\<bar> \<le> 1 / 2"
  proof (cases "0 \<le> e")
    case True
    have "?x * 2 powi (- e) = real num / real (den * 2 ^ nat e)"
      using True by (simp add: power_int_def field_simps)
    then show ?thesis using True round_div_error [of "den * 2 ^ nat e" num] assms(2) by (simp only: if_True) simp
  next
    case False
    have "?x * 2 powi (- e) = real (num * 2 ^ nat (- e)) / real den"
      using False by (simp add: power_int_def field_simps)
    then show ?thesis using False round_div_error [of den "num * 2 ^ nat (- e)"] assms(2) by (simp only: if_False)
  qed
  have "floor_log2 num den + 1 \<le> e + 53" by (simp add: e_def max_def)
  then have "2 powi (floor_log2 num den + 1) \<le> (2 powi (e + 53) :: real)" by (rule power_int_increasing) simp
  then have "?x < 2 powi (e + 53)" using floor_log2_spec [OF assms(1,2)] by linarith
  then have "?x * 2 powi (- e) < 9007199254740992" by (rule scale_down)
  then have "real ?m < 9007199254740993" using m by linarith
  then have "?m \<le> 2 ^ 53" by simp
  then show ?thesis using bits m by (intro that)
qed

lemma f64_bits_finite:
  assumes "0 < num" and "0 < den" and "real num / real den < 2 powi 1000"
  shows "f64_bits num den < f64_inf"
proof -
  define e where "e = max (- 1074) (floor_log2 num den - 52)"
  obtain m where bits: "f64_bits num den = min f64_inf (nat (e + 1074) * 2 ^ 52 + m)" and m: "m \<le> 2 ^ 53"
    using f64_bits_parts [OF assms(1,2)] unfolding e_def by blast
  have "2 powi floor_log2 num den < (2 powi 1000 :: real)" using floor_log2_spec [OF assms(1,2)] assms(3) by linarith
  then have "floor_log2 num den < 1000"
    using power_int_increasing [of 1000 "floor_log2 num den" "2 :: real"] by linarith
  then have "nat (e + 1074) \<le> 2022" by (simp add: e_def)
  then have "nat (e + 1074) * 2 ^ 52 \<le> 2022 * 2 ^ 52" by (rule mult_le_mono1)
  then show ?thesis using m unfolding bits f64_inf_def by simp
qed

lemma f64_bits_units:
  assumes "0 < num" and "0 < den" and "f64_bits num den < f64_inf"
  defines "fl \<equiv> floor_log2 num den"
  defines "e \<equiv> max (- 1074) (fl - 52)"
  obtains m where "mag_units (f64_bits num den) = m * 2 ^ nat (e + 1074)"
    and "\<bar>real m - real num / real den * 2 powi (- e)\<bar> \<le> 1 / 2"
proof -
  define x where "x = real num / real den"
  have floor: "2 powi fl \<le> x" using floor_log2_spec [OF assms(1,2)] by (simp add: fl_def x_def)
  obtain m where "f64_bits num den = min f64_inf (nat (e + 1074) * 2 ^ 52 + m)"
    and m: "\<bar>real m - x * 2 powi (- e)\<bar> \<le> 1 / 2" and top: "m \<le> 2 ^ 53"
    using f64_bits_parts [OF assms(1,2)] unfolding e_def fl_def x_def by blast
  then have bits: "f64_bits num den = nat (e + 1074) * 2 ^ 52 + m" using assms(3) by linarith
  have "mag_units (f64_bits num den) = m * 2 ^ nat (e + 1074)"
  proof (cases "e = - 1074 \<and> m < 2 ^ 52")
    case True
    then show ?thesis by (simp add: bits mag_units_def)
  next
    case False
    have "2 ^ 52 \<le> m"
    proof (cases "e = - 1074")
      case True
      with False show ?thesis by simp
    next
      case ne: False
      then have "fl = e + 52" by (simp add: e_def max_def split: if_splits)
      then have "4503599627370496 \<le> x * 2 powi (- e)"
        using floor by (simp add: power_int_add power_int_minus field_simps)
      then have "4503599627370495 < real m" using m by linarith
      then show ?thesis by simp
    qed
    then show ?thesis unfolding bits by (rule mag_units_normal) (rule top)
  qed
  with m show thesis unfolding x_def by (rule that [rotated])
qed

text \<open>
  The double nearest to a quotient: the error is at most half of the last place, relative to the
  quotient or, below the normal numbers, absolute.
\<close>

theorem f64_bits_error:
  assumes "0 < num" and "0 < den" and "f64_bits num den < f64_inf"
  shows "\<bar>real (mag_units (f64_bits num den)) * 2 powi (- 1074) - real num / real den\<bar>
    \<le> max (2 powi (- 1075)) (real num / real den * 2 powi (- 53))"
proof -
  define x where "x = real num / real den"
  define fl where "fl = floor_log2 num den"
  define e where "e = max (- 1074) (fl - 52)"
  have x: "2 powi fl \<le> x" using floor_log2_spec [OF assms(1,2)] by (simp add: x_def fl_def)
  obtain m where units: "mag_units (f64_bits num den) = m * 2 ^ nat (e + 1074)"
    and m: "\<bar>real m - x * 2 powi (- e)\<bar> \<le> 1 / 2"
    using f64_bits_units [OF assms] unfolding e_def fl_def x_def by blast
  have e: "- 1074 \<le> e" by (simp add: e_def)
  have "real (mag_units (f64_bits num den)) * 2 powi (- 1074) = real m * (2 powi (e + 1074) * 2 powi (- 1074))"
    using e by (simp add: units power_int_def [of _ "e + 1074"])
  also have "\<dots> = real m * 2 powi e" by (subst power_int_add [symmetric]) simp_all
  finally have "real (mag_units (f64_bits num den)) * 2 powi (- 1074) - x = 2 powi e * (real m - x * 2 powi (- e))"
    by (simp add: power_int_minus field_simps)
  then have "\<bar>real (mag_units (f64_bits num den)) * 2 powi (- 1074) - x\<bar> \<le> 2 powi e * (1 / 2)"
    using m by (simp add: abs_mult)
  also have "\<dots> = 2 powi (e - 1)" by (simp add: power_int_diff)
  also have "\<dots> \<le> max (2 powi (- 1075)) (x * 2 powi (- 53))"
  proof (cases "e = - 1074")
    case False
    then have "e - 1 = fl + - 53" by (simp add: e_def max_def split: if_splits)
    then have "2 powi (e - 1) = 2 powi fl * (2 powi (- 53) :: real)" by (simp only:) (subst power_int_add, simp_all)
    then show ?thesis using x by simp
  qed simp
  finally show ?thesis by (simp only: x_def)
qed

end
