(* ===== verification/Metrics.thy ===== *)
theory Metrics
  imports Rounding Dispatch Lifecycle
begin

text \<open>
  \<open>src/metrics.rs\<close>: what the plugin tells the metrics recorder.  The recorder belongs to the \<open>metrics\<close>
  crate; an emission is a \<open>metric_op\<close>, and a function of the source is the list of the operations it
  performs.  A series is a name with its labels.  Values of histograms and gauges are the bits of an
  \<open>f64\<close>; the seconds of a duration are given as such.
\<close>

section \<open>Operations\<close>

type_synonym labels = "(str \<times> str) list"

datatype metric_op =
    CounterIncrement (op_name: str) (op_labels: labels) u64
  | HistogramRecord (op_name: str) (op_labels: labels) u64
  | GaugeSet (op_name: str) (op_labels: labels) u64
  | GaugeIncrement (op_name: str) (op_labels: labels) u64
  | GaugeDecrement (op_name: str) (op_labels: labels) u64

text \<open>The names of \<open>metrics::names\<close>.\<close>

definition CALLS_TOTAL :: str where "CALLS_TOTAL = ''mcpg_sql_calls_total''"
definition DURATION_SECONDS :: str where "DURATION_SECONDS = ''mcpg_sql_duration_seconds''"
definition ROWS_RETURNED :: str where "ROWS_RETURNED = ''mcpg_sql_rows_returned''"
definition PROGRESS_HEARTBEATS :: str where "PROGRESS_HEARTBEATS = ''mcpg_sql_progress_heartbeats_total''"
definition REQUESTS_IN_FLIGHT :: str where "REQUESTS_IN_FLIGHT = ''mcpg_sql_requests_in_flight''"
definition PREPARE_RETRIES :: str where "PREPARE_RETRIES = ''mcpg_sql_prepare_retries_total''"
definition AWAIT_POLLS :: str where "AWAIT_POLLS = ''mcpg_sql_await_polls_total''"
definition AWAIT_WAITS_ACTIVE :: str where "AWAIT_WAITS_ACTIVE = ''mcpg_sql_await_waits_active''"
definition AWAIT_DURATION_SECONDS :: str where "AWAIT_DURATION_SECONDS = ''mcpg_sql_await_duration_seconds''"
definition AWAIT_WAKES :: str where "AWAIT_WAKES = ''mcpg_sql_await_wakes_total''"
definition CACHE_HITS :: str where "CACHE_HITS = ''mcpg_sql_cache_hits_total''"
definition CACHE_MISSES :: str where "CACHE_MISSES = ''mcpg_sql_cache_misses_total''"
definition CACHE_WRITES :: str where "CACHE_WRITES = ''mcpg_sql_cache_writes_total''"
definition COST_TOTAL :: str where "COST_TOTAL = ''mcpg_sql_cost_total''"
definition CALL_COST :: str where "CALL_COST = ''mcpg_sql_call_cost''"
definition COST_REFUNDED :: str where "COST_REFUNDED = ''mcpg_sql_cost_refunded_total''"

definition f64_one :: u64 where "f64_one = f64_of_nat 1"

datatype call_status = SuccessStatus | TimeoutStatus | TransportErrorStatus | InvalidSpecStatus

definition call_status_as_str :: "call_status \<Rightarrow> str" where
  "call_status_as_str s =
     (case s of
        SuccessStatus \<Rightarrow> ''success''
      | TimeoutStatus \<Rightarrow> ''timeout''
      | TransportErrorStatus \<Rightarrow> ''transport_error''
      | InvalidSpecStatus \<Rightarrow> ''invalid_spec'')"

definition record_call :: "str \<Rightarrow> str \<Rightarrow> driver_kind \<Rightarrow> call_status \<Rightarrow> u64 \<Rightarrow> u64 option \<Rightarrow> metric_op list" where
  "record_call binding query_ref driver status seconds rows =
     [CounterIncrement CALLS_TOTAL
        [(''backend'', binding), (''query'', query_ref), (''driver'', driver_as_str driver),
         (''status'', call_status_as_str status)] 1,
      HistogramRecord DURATION_SECONDS
        [(''backend'', binding), (''query'', query_ref), (''driver'', driver_as_str driver)] seconds] @
     (case rows of
        None \<Rightarrow> []
      | Some n \<Rightarrow>
          [HistogramRecord ROWS_RETURNED [(''backend'', binding), (''query'', query_ref)]
             (f64_of_nat (unat n))])"

definition backend_labels :: "str \<Rightarrow> driver_kind \<Rightarrow> labels" where
  "backend_labels binding driver = [(''backend'', binding), (''driver'', driver_as_str driver)]"

definition record_prepare_retry :: "str \<Rightarrow> driver_kind \<Rightarrow> metric_op list" where
  "record_prepare_retry binding driver =
     [CounterIncrement PREPARE_RETRIES (backend_labels binding driver) 1]"

definition record_in_flight :: "nat \<Rightarrow> driver_kind \<Rightarrow> metric_op list" where
  "record_in_flight count driver =
     [GaugeSet REQUESTS_IN_FLIGHT [(''driver'', driver_as_str driver)] (f64_of_nat count)]"

text \<open>The number of polls is cast to \<open>i64\<close> and back.\<close>

definition record_await_wait :: "str \<Rightarrow> driver_kind \<Rightarrow> str \<Rightarrow> u64 \<Rightarrow> metric_op list" where
  "record_await_wait binding driver outcome_label polls =
     (if sint polls > 0
      then [CounterIncrement AWAIT_POLLS
              (backend_labels binding driver @ [(''outcome'', outcome_label)]) polls]
      else [])"

definition await_waits_guard :: "driver_kind \<Rightarrow> metric_op list" where
  "await_waits_guard driver =
     [GaugeIncrement AWAIT_WAITS_ACTIVE [(''driver'', driver_as_str driver)] f64_one]"

definition await_waits_drop :: "driver_kind \<Rightarrow> metric_op list" where
  "await_waits_drop driver =
     [GaugeDecrement AWAIT_WAITS_ACTIVE [(''driver'', driver_as_str driver)] f64_one]"

definition record_await_wake :: "str \<Rightarrow> driver_kind \<Rightarrow> str \<Rightarrow> metric_op list" where
  "record_await_wake binding driver kind =
     [CounterIncrement AWAIT_WAKES (backend_labels binding driver @ [(''kind'', kind)]) 1]"

definition record_await_duration :: "str \<Rightarrow> driver_kind \<Rightarrow> str \<Rightarrow> u64 \<Rightarrow> metric_op list" where
  "record_await_duration binding driver outcome_label seconds =
     [HistogramRecord AWAIT_DURATION_SECONDS
        (backend_labels binding driver @ [(''outcome'', outcome_label)]) seconds]"

definition record_progress_heartbeat :: "str \<Rightarrow> driver_kind \<Rightarrow> metric_op list" where
  "record_progress_heartbeat binding driver =
     [CounterIncrement PROGRESS_HEARTBEATS (backend_labels binding driver) 1]"

definition record_cache_hit :: "str \<Rightarrow> driver_kind \<Rightarrow> metric_op list" where
  "record_cache_hit binding driver =
     [CounterIncrement CACHE_HITS (backend_labels binding driver) 1]"

definition record_cache_miss :: "str \<Rightarrow> driver_kind \<Rightarrow> metric_op list" where
  "record_cache_miss binding driver =
     [CounterIncrement CACHE_MISSES (backend_labels binding driver) 1]"

definition record_cache_write :: "str \<Rightarrow> driver_kind \<Rightarrow> metric_op list" where
  "record_cache_write binding driver =
     [CounterIncrement CACHE_WRITES (backend_labels binding driver) 1]"

section \<open>Amounts\<close>

definition f64_real :: "u64 \<Rightarrow> real" where
  "f64_real b = real_of_int (f64_value b) * 2 powi (- 1074)"

text \<open>\<open>round()\<close> of a number that is not negative: to the nearest integer, ties away from zero.\<close>

definition f64_round_nat :: "u64 \<Rightarrow> nat" where
  "f64_round_nat b = (2 * mag_units (f64_mag b) + 2 ^ 1074) div 2 ^ 1075"

definition million :: u64 where
  "million = f64_of_nat 1000000"

definition micro_units :: "u64 \<Rightarrow> u64" where
  "micro_units amount =
     (if f64_is_finite amount \<and> \<not> f64_less amount 0
      then of_nat (min (2 ^ 64 - 1) (f64_round_nat (f64_mul amount million)))
      else 0)"

definition cost_labels :: "str \<Rightarrow> driver_kind \<Rightarrow> str \<Rightarrow> cost_unit \<Rightarrow> labels" where
  "cost_labels binding driver currency unit =
     backend_labels binding driver @ [(''currency'', currency), (''unit'', cost_unit_as_str unit)]"

definition record_cost :: "str \<Rightarrow> driver_kind \<Rightarrow> str \<Rightarrow> cost_unit \<Rightarrow> u64 \<Rightarrow> metric_op list" where
  "record_cost binding driver currency unit amount =
     [CounterIncrement COST_TOTAL (cost_labels binding driver currency unit) (micro_units amount),
      HistogramRecord CALL_COST (cost_labels binding driver currency unit) amount]"

definition record_cost_refunded :: "str \<Rightarrow> driver_kind \<Rightarrow> str \<Rightarrow> str \<Rightarrow> u64 \<Rightarrow> metric_op list" where
  "record_cost_refunded binding driver currency reason amount =
     [CounterIncrement COST_REFUNDED
        (backend_labels binding driver @ [(''currency'', currency), (''reason'', reason)])
        (micro_units amount)]"

lemma million_bits: "million = 0x412E848000000000"
  by (simp add: million_def f64_of_nat_def f64_of_def f64_bits_def floor_log2_def round_div_def bit_length.simps Let_def)

lemma million_mag: "f64_mag million = 1041 * 2 ^ 52 + 1000000 * 2 ^ 33"
  by (simp add: million_bits f64_mag_def)

lemma million_units: "mag_units (f64_mag million) = 1000000 * 2 ^ 1074"
proof -
  have "mag_units (f64_mag million) = 1000000 * 2 ^ 33 * 2 ^ 1041"
    unfolding million_mag by (rule mag_units_normal) simp_all
  also have "\<dots> = 1000000 * 2 ^ (33 + 1041)" unfolding power_add by (simp only: mult.assoc)
  finally show ?thesis by simp
qed

lemma million_normal: "f64_mag million < f64_inf" "f64_mag million \<noteq> 0" "\<not> f64_sign million"
  by (simp_all only: million_mag) (simp_all add: f64_inf_def f64_sign_def million_bits)

lemma round_nat_error: "\<bar>real (f64_round_nat b) - real (mag_units (f64_mag b)) * 2 powi (- 1074)\<bar> \<le> 1 / 2"
proof -
  define v where "v = mag_units (f64_mag b)"
  define q where "q = f64_round_nat b"
  define u where "u = (2 :: nat) ^ 1074"
  have "q = (2 * v + u) div (2 * u)" by (simp add: q_def v_def u_def f64_round_nat_def)
  moreover have "0 < u" by (simp add: u_def)
  ultimately have q: "2 * u * q + (2 * v + u) mod (2 * u) = 2 * v + u" "(2 * v + u) mod (2 * u) < 2 * u"
    using mult_div_mod_eq [of "2 * u" "2 * v + u"] mod_less_divisor [of "2 * u" "2 * v + u"] by simp_all
  then have "2 * u * q \<le> 2 * v + u" "2 * v + u < 2 * u * q + 2 * u" by linarith+
  then have "real (2 * u * q) \<le> real (2 * v + u)" "real (2 * v + u) < real (2 * u * q + 2 * u)"
    by (simp_all only: of_nat_le_iff of_nat_less_iff)
  moreover have "0 < real u" using \<open>0 < u\<close> by simp
  ultimately have "real q - 1 / 2 \<le> real v / real u" "real v / real u \<le> real q + 1 / 2" by (simp_all add: field_simps)
  then have "\<bar>real q - real v / real u\<bar> \<le> 1 / 2" by linarith
  moreover have "2 powi (- 1074) = 1 / real u" by (simp add: u_def power_int_minus field_simps)
  ultimately show ?thesis by (simp add: q_def v_def)
qed

lemma finite_mag:
  assumes "f64_is_finite b"
  shows "f64_mag b < f64_inf"
proof (rule ccontr)
  assume "\<not> f64_mag b < f64_inf"
  then have inf: "f64_inf \<le> f64_mag b" by simp
  have "unat b < 2 ^ LENGTH(64)" by (rule unsigned_less)
  then have "f64_mag b = unat b \<or> unat b = 2 ^ 63 + f64_mag b"
    by (cases "unat b < 2 ^ 63") (simp_all add: f64_mag_def le_mod_geq)
  moreover have "f64_mag b div 4503599627370496 = 2047"
  proof (rule div_nat_eqI)
    show "4503599627370496 * 2047 \<le> f64_mag b" using inf by (simp add: f64_inf_def)
    show "f64_mag b < 4503599627370496 * Suc 2047" by (simp add: f64_mag_def)
  qed
  moreover have "(2048 * 4503599627370496 + f64_mag b) div 4503599627370496 = 2048 + f64_mag b div 4503599627370496"
    by (rule div_mult_self3) simp
  ultimately show False using assms by (auto simp: f64_is_finite_def)
qed

lemma nonneg_value:
  assumes "f64_is_finite b" and "\<not> f64_less b 0"
  shows "f64_value b = int (mag_units (f64_mag b))"
proof -
  have "\<not> f64_is_nan b" "\<not> f64_is_nan 0" using finite_mag [OF assms(1)] by (auto simp: f64_is_nan_def f64_mag_def f64_inf_def)
  then have "f64_sign b \<Longrightarrow> f64_mag b = 0" using assms(2) by (auto simp: f64_less_def f64_key_def f64_mag_def f64_sign_def)
  then show ?thesis by (auto simp: f64_value_def mag_units_def)
qed

lemma mul_million:
  assumes "f64_is_finite b" 
  shows "f64_mag (f64_mul b million) = f64_bits (mag_units (f64_mag b) * (1000000 * 2 ^ 1074)) (2 ^ 2148)"
proof -
  have "f64_bits n d < 2 ^ 63" for n d using f64_bits_le [of n d] unfolding f64_inf_def by (rule le_less_trans) simp
  then show ?thesis
    using finite_mag [OF assms] million_normal unfolding f64_mul_def Let_def million_units
    by (simp add: f64_mag_of del: power_numeral)
qed

lemma quotient_million: "real (v * (1000000 * 2 ^ 1074)) / real (2 ^ 2148) = 1000000 * (real v * 2 powi (- 1074))"
proof -
  have cancel: "real (v * (1000000 * u)) / (real u * real u) = 1000000 * (real v * inverse (real u))" if "0 < u" for u :: nat
    using that by (simp add: field_simps)
  have "(2 :: nat) ^ 2148 = 2 ^ (1074 + 1074)" by (simp only: numeral_plus_numeral semiring_norm)
  then have "real (2 ^ 2148) = real (2 ^ 1074) * real (2 ^ 1074)" by (simp only: power_add of_nat_mult)
  moreover have "2 powi (- 1074) = inverse (real (2 ^ 1074))"
    by (simp only: power_int_minus of_nat_power of_nat_numeral power_int_numeral)
  ultimately show ?thesis using cancel [of "2 ^ 1074"] by (simp only: zero_less_power zero_less_numeral)
qed


section \<open>Properties\<close>

text \<open>
  C27. The micro-unit counters count what was charged: for an amount that is finite and not below zero, the
  increment differs from a million times the amount by at most half a micro-unit and the rounding of
  the product, a \<open>2\<^sup>-\<^sup>5\<^sup>3\<close>-th of it, as long as it stays below \<open>2\<^sup>6\<^sup>3\<close>.
\<close>

theorem micro_units_drift:
  assumes "f64_is_finite amount" and "\<not> f64_less amount 0" and "1000000 * f64_real amount < 2 ^ 63"
  shows "\<bar>real (unat (micro_units amount)) - 1000000 * f64_real amount\<bar>
    \<le> 1 / 2 + max (2 powi (- 1075)) (1000000 * f64_real amount * 2 powi (- 53))"
proof -
  define v where "v = mag_units (f64_mag amount)"
  define p where "p = f64_bits (v * (1000000 * 2 ^ 1074)) (2 ^ 2148)"
  define n where "n = f64_round_nat (f64_mul amount million)"
  have mag: "f64_mag (f64_mul amount million) = p" using mul_million [OF assms(1)] by (simp only: p_def v_def)
  have real_amount: "f64_real amount = real v * 2 powi (- 1074)"
    using nonneg_value [OF assms(1,2)] by (simp add: f64_real_def v_def)
  have product: "\<bar>real (mag_units p) * 2 powi (- 1074) - 1000000 * f64_real amount\<bar>
      \<le> max (2 powi (- 1075)) (1000000 * f64_real amount * 2 powi (- 53))"
  proof (cases "v = 0")
    case True
    then show ?thesis by (simp add: p_def f64_bits_def real_amount mag_units_def)
  next
    case False
    let ?num = "v * (1000000 * 2 ^ 1074)"
    have q: "real ?num / real (2 ^ 2148) = 1000000 * f64_real amount" by (simp only: real_amount quotient_million)
    have "2 powi 63 \<le> (2 powi 1000 :: real)" by (rule power_int_increasing) simp_all
    then have "real ?num / real (2 ^ 2148) < 2 powi 1000" unfolding q using assms(3) by simp
    then have "p < f64_inf" unfolding p_def using False by (intro f64_bits_finite) simp_all
    then show ?thesis using f64_bits_error [of ?num "2 ^ 2148"] False unfolding q p_def [symmetric] by simp
  qed
  then have drift: "\<bar>real n - 1000000 * f64_real amount\<bar>
      \<le> 1 / 2 + max (2 powi (- 1075)) (1000000 * f64_real amount * 2 powi (- 53))"
    using round_nat_error [of "f64_mul amount million"] unfolding mag n_def [symmetric] by linarith
  have "max (2 powi (- 1075)) (1000000 * f64_real amount * 2 powi (- 53)) \<le> 1024"
  proof (rule max.boundedI)
    have "2 powi (- 1075) \<le> (2 powi 0 :: real)" by (rule power_int_increasing) simp_all
    then show "2 powi (- 1075) \<le> (1024 :: real)" by simp
    show "1000000 * f64_real amount * 2 powi (- 53) \<le> 1024" using assms(3) by (simp add: power_int_minus field_simps)
  qed
  then have "real n < 18446744073709551615" using drift assms(3) by simp
  then have "n < 18446744073709551615" by simp
  then have "unat (micro_units amount) = n"
    using assms(1,2) by (simp add: micro_units_def n_def [symmetric] min_def unat_of_nat take_bit_nat_eq_self_iff)
  then show ?thesis using drift by simp
qed

text \<open>Half a unit of currency.\<close>

lemma half_real: "f64_real 0x3FE0000000000000 = 1 / 2"
proof -
  have "mag_units (1021 * 2 ^ 52 + 2 ^ 52) = 2 ^ 52 * 2 ^ 1021" by (rule mag_units_normal) simp_all
  moreover have "f64_mag 0x3FE0000000000000 = 1021 * 2 ^ 52 + 2 ^ 52" by (simp add: f64_mag_def)
  moreover have "\<not> f64_sign 0x3FE0000000000000" by (simp add: f64_sign_def)
  ultimately have "f64_real 0x3FE0000000000000 = 2 powi 52 * 2 powi 1021 * 2 powi (- 1074)"
    by (simp only: f64_real_def f64_value_def if_False of_int_of_nat_eq of_nat_mult of_nat_power of_nat_numeral of_int_mult of_int_power of_int_numeral
        power_int_numeral)
  also have "\<dots> = 2 powi (52 + 1021 + - 1074)" by (subst power_int_add, simp)+ (rule refl)
  finally show ?thesis by simp
qed

theorem micro_units_drift_witness: "\<bar>real (unat (micro_units 0x3FE0000000000000)) - 500000\<bar> < 1"
proof -
  have hyps: "f64_is_finite 0x3FE0000000000000" "\<not> f64_less 0x3FE0000000000000 0"
    by (simp_all add: f64_is_finite_def f64_less_def f64_key_def f64_mag_def f64_sign_def)
  have "2 powi (- 1075) \<le> (2 powi (- 2) :: real)" by (rule power_int_increasing) simp_all
  then have small: "max (2 powi (- 1075)) (500000 * 2 powi (- 53)) \<le> (1 / 4 :: real)" by (simp add: power_int_minus)
  show ?thesis using micro_units_drift [OF hyps] small unfolding half_real by simp
qed

section \<open>The gauge of the requests in flight\<close>

text \<open>
  What a recorder shows for a gauge after some operations, and the two places that set the gauge:
  registering a guard and dropping it (\<open>src/in_flight.rs\<close>).
\<close>

fun apply_gauge :: "metric_op \<Rightarrow> (str \<times> labels \<rightharpoonup> u64) \<Rightarrow> (str \<times> labels \<rightharpoonup> u64)" where
  "apply_gauge (GaugeSet name ls v) g = g((name, ls) \<mapsto> v)"
| "apply_gauge _ g = g"

datatype guard_op = Register str str driver_kind | DropGuard str driver_kind

fun guard_driver :: "guard_op \<Rightarrow> driver_kind" where
  "guard_driver (Register request_id backend_name driver) = driver"
| "guard_driver (DropGuard request_id driver) = driver"

fun guard_step :: "guard_op \<Rightarrow> in_flight \<times> (str \<times> labels \<rightharpoonup> u64) \<Rightarrow> in_flight \<times> (str \<times> labels \<rightharpoonup> u64)" where
  "guard_step (Register request_id backend_name driver) (reg, g) =
     (let reg' = guard_register request_id backend_name driver 0 0 reg
      in (reg', fold apply_gauge (record_in_flight (length reg') driver) g))"
| "guard_step (DropGuard request_id driver) (reg, g) =
     (let reg' = in_flight_drop request_id reg
      in (reg', fold apply_gauge (record_in_flight (length reg') driver) g))"

abbreviation in_flight_series :: "driver_kind \<Rightarrow> str \<times> labels" where
  "in_flight_series driver \<equiv> (REQUESTS_IN_FLIGHT, [(''driver'', driver_as_str driver)])"

lemma guard_step_gauge:
  "snd (guard_step op s) = (snd s)(in_flight_series (guard_driver op) \<mapsto> f64_of_nat (length (fst (guard_step op s))))"
  by (cases op; cases s) (simp_all add: record_in_flight_def Let_def)

text \<open>With one driver, the gauge is the number of requests in the registry.\<close>

theorem in_flight_gauge_exact:
  assumes "\<forall>op \<in> set ops. guard_driver op = driver" and "ops \<noteq> []"
  shows "snd (fold guard_step ops s) (in_flight_series driver) = Some (f64_of_nat (length (fst (fold guard_step ops s))))"
proof -
  obtain ops' op where ops: "ops = ops' @ [op]" using assms(2) by (cases ops rule: rev_cases) auto
  with assms(1) show ?thesis by (simp add: guard_step_gauge)
qed

text \<open>
  With two drivers it is not: the count is that of the whole registry but only the series of the
  driver at hand is set, so once a MySQL request ends while a Postgres one runs, the gauge of MySQL
  stays at one, also when no request is left.
\<close>

theorem in_flight_gauge_stale:
  "case fold guard_step [Register ''r1'' ''a'' Postgres, Register ''r2'' ''b'' Mysql, DropGuard ''r2'' Mysql,
       DropGuard ''r1'' Postgres] ([], Map.empty) of
     (reg, g) \<Rightarrow> reg = [] \<and> g (in_flight_series Mysql) = Some f64_one \<and>
       g (in_flight_series Postgres) = Some (f64_of_nat 0)"
  by (simp add: guard_register_def in_flight_drop_def omap_remove_def record_in_flight_def f64_one_def
      driver_as_str_def Let_def)

theorem in_flight_gauge_exact_witness:
  "snd (fold guard_step [Register ''r1'' ''a'' Postgres] ([], Map.empty)) (in_flight_series Postgres) = Some f64_one"
proof -
  have "snd (fold guard_step [Register ''r1'' ''a'' Postgres] ([], Map.empty)) (in_flight_series Postgres) =
      Some (f64_of_nat (length (fst (fold guard_step [Register ''r1'' ''a'' Postgres] ([], Map.empty)))))"
    by (rule in_flight_gauge_exact) simp_all
  then show ?thesis by (simp add: guard_register_def f64_one_def Let_def)
qed

section \<open>Cardinality\<close>

text \<open>
  The places of \<open>src/lib.rs\<close>, \<open>src/cost.rs\<close> and \<open>src/in_flight.rs\<close> that record something, each with what it
  passes beside the binding, its driver and its cost.
\<close>

datatype emission =
    CallDone "response backend_result" u64 "u64 option"
  | PrepareRetried
  | InFlightChanged nat
  | AwaitStarted
  | AwaitLeft
  | AwaitSpurious
  | AwaitOver bool u64 u64
  | Heartbeat
  | CacheHitSeen
  | CacheMissSeen
  | CacheWritten
  | ChargeRecorded u64
  | RefundRecorded backend_error u64

definition status_of :: "'a backend_result \<Rightarrow> call_status" where
  "status_of result =
     (case result of
        Inr _ \<Rightarrow> SuccessStatus
      | Inl (BTimeout _) \<Rightarrow> TimeoutStatus
      | Inl (BInvalidSpec _) \<Rightarrow> InvalidSpecStatus
      | Inl _ \<Rightarrow> TransportErrorStatus)"

definition await_outcome :: "bool \<Rightarrow> str" where
  "await_outcome matched = (if matched then ''matched'' else ''timeout'')"

fun emission_ops :: "str \<Rightarrow> driver_kind \<Rightarrow> backend_cost option \<Rightarrow> emission \<Rightarrow> metric_op list" where
  "emission_ops b d c (CallDone r seconds rows) = record_call b b d (status_of r) seconds rows"
| "emission_ops b d c PrepareRetried = record_prepare_retry b d"
| "emission_ops b d c (InFlightChanged n) = record_in_flight n d"
| "emission_ops b d c AwaitStarted = await_waits_guard d"
| "emission_ops b d c AwaitLeft = await_waits_drop d"
| "emission_ops b d c AwaitSpurious = record_await_wake b d ''spurious''"
| "emission_ops b d c (AwaitOver matched polls seconds) =
     record_await_wait b d (await_outcome matched) polls @ record_await_wake b d (await_outcome matched) @
     record_await_duration b d (await_outcome matched) seconds"
| "emission_ops b d c Heartbeat = record_progress_heartbeat b d"
| "emission_ops b d c CacheHitSeen = record_cache_hit b d"
| "emission_ops b d c CacheMissSeen = record_cache_miss b d"
| "emission_ops b d c CacheWritten = record_cache_write b d"
| "emission_ops b d c (ChargeRecorded amount) =
     (case c of None \<Rightarrow> [] | Some cost \<Rightarrow> record_cost b d (bc_currency cost) (bc_unit cost) amount)"
| "emission_ops b d c (RefundRecorded e amount) =
     (case c of None \<Rightarrow> [] | Some cost \<Rightarrow> record_cost_refunded b d (bc_currency cost) (refund_reason_for e) amount)"

abbreviation series :: "metric_op \<Rightarrow> str \<times> labels" where
  "series op \<equiv> (op_name op, op_labels op)"

text \<open>Every series one binding can have, given its driver and its cost.\<close>

definition binding_series :: "str \<Rightarrow> driver_kind \<Rightarrow> backend_cost option \<Rightarrow> (str \<times> labels) list" where
  "binding_series b d c =
     (let bl = backend_labels b d; cl = [(''backend'', b), (''query'', b), (''driver'', driver_as_str d)]
      in map (\<lambda>s. (CALLS_TOTAL, cl @ [(''status'', call_status_as_str s)]))
           [SuccessStatus, TimeoutStatus, TransportErrorStatus, InvalidSpecStatus] @
         [(DURATION_SECONDS, cl), (ROWS_RETURNED, [(''backend'', b), (''query'', b)])] @
         map (\<lambda>n. (n, bl))
           [PREPARE_RETRIES, PROGRESS_HEARTBEATS, CACHE_HITS,
            CACHE_MISSES, CACHE_WRITES] @
         map (\<lambda>n. (n, [(''driver'', driver_as_str d)]))
           [REQUESTS_IN_FLIGHT, AWAIT_WAITS_ACTIVE] @
         map (\<lambda>k. (AWAIT_WAKES, bl @ [(''kind'', k)])) [''matched'', ''timeout'', ''spurious''] @
         concat (map (\<lambda>o_label.
             [(AWAIT_POLLS, bl @ [(''outcome'', o_label)]),
              (AWAIT_DURATION_SECONDS, bl @ [(''outcome'', o_label)])]) [''matched'', ''timeout'']) @
         (case c of
            None \<Rightarrow> []
          | Some cost \<Rightarrow>
              [(COST_TOTAL, cost_labels b d (bc_currency cost) (bc_unit cost)),
               (CALL_COST, cost_labels b d (bc_currency cost) (bc_unit cost))] @
              map (\<lambda>r. (COST_REFUNDED, bl @ [(''currency'', bc_currency cost), (''reason'', r)]))
                [''timeout'', ''transport'', ''invalid_spec'']))"

lemmas record_defs =
  record_call_def record_prepare_retry_def record_in_flight_def await_waits_guard_def await_waits_drop_def
  record_await_wake_def record_await_wait_def record_await_duration_def record_progress_heartbeat_def
  record_cache_hit_def record_cache_miss_def record_cache_write_def record_cost_def record_cost_refunded_def

lemma emission_series: "list_all (\<lambda>op. series op \<in> set (binding_series b d c)) (emission_ops b d c e)"
proof (cases e)
  case (CallDone r seconds rows)
  then show ?thesis
    by (cases "status_of r") (simp_all add: record_defs binding_series_def Let_def split: option.splits)
next
  case (RefundRecorded err amount)
  then show ?thesis
    by (simp add: record_defs binding_series_def Let_def refund_reason_for_def split: option.splits backend_error.splits)
qed (simp_all add: record_defs binding_series_def Let_def await_outcome_def split: option.splits)

text \<open>
  The labels are bounded by the configuration, whatever the callers send: everything the plugin records
  over any number of calls to its bindings lies in at most 25 series for each binding.
\<close>

theorem label_cardinality_bounded:
  assumes "finite bindings"
    and "\<forall>(b, e) \<in> set emissions. b \<in> bindings"
  shows "\<exists>all. finite all \<and> card all \<le> 25 * card bindings \<and>
    (\<forall>(b, e) \<in> set emissions. \<forall>op \<in> set (emission_ops b (driver b) (cost b) e). series op \<in> all)"
proof (intro exI conjI)
  let ?all = "\<Union>b \<in> bindings. set (binding_series b (driver b) (cost b))"
  show "finite ?all" using assms(1) by simp
  have len: "length (binding_series b d c) \<le> 25" for b d c
    by (simp add: binding_series_def Let_def split: option.splits)
  have "card ?all \<le> (\<Sum>b \<in> bindings. card (set (binding_series b (driver b) (cost b))))"
    by (rule card_UN_le) (rule assms(1))
  also have "\<dots> \<le> (\<Sum>b \<in> bindings. 25)" by (intro sum_mono order_trans [OF card_length len])
  finally show "card ?all \<le> 25 * card bindings" by (simp add: mult.commute)
  show "\<forall>(b, e) \<in> set emissions. \<forall>op \<in> set (emission_ops b (driver b) (cost b) e). series op \<in> ?all"
    using assms(2) emission_series by (fastforce simp: list_all_iff)
qed

theorem label_cardinality_bounded_witness:
  "\<exists>all. card all \<le> 25 \<and> (\<forall>op \<in> set (emission_ops ''orders'' Postgres None CacheHitSeen). series op \<in> all)"
  using label_cardinality_bounded [of "{''orders''}" "[(''orders'', CacheHitSeen)]" "\<lambda>_. Postgres" "\<lambda>_. None"] by auto

end
