(* ===== verification/Observe.thy ===== *)
theory Observe
  imports Metrics Interval
begin

text \<open>
  What \<open>execute\<close> of \<open>src/lib.rs\<close> tells the outside about a call: the metrics, the audit line, and the span,
  metrics and audit event of the host.  \<open>observed_execute\<close> is the whole handler around \<open>execute_inner\<close>;
  what it tells is a list of \<open>observation\<close>s in order.  The clock, the texts of errors and timestamps and
  the host's alias are in \<open>observe_env\<close>, with whether the blocking task that hands the audit event to the
  host ran to its end (\<open>oe_audit_runs\<close>).  What other tasks do to the plugin while the call waits for
  \<open>execute_inner\<close> is the argument \<open>others\<close>: the profile is looked up again afterwards.
\<close>

section \<open>Observations\<close>

record audit_event =
  ae_event_id :: str
  ae_occurred_at :: str
  ae_actor :: plugin_identity
  ae_action :: str
  ae_resource :: str
  ae_success :: bool
  ae_request_id :: str
  ae_details :: json

datatype observation =
    HostSpan str json
  | During exec_event
  | Metric metric_op
  | AuditLine "(str \<times> str) list" u64 u64
  | HostHistogram str u64 labels
  | HostCounter str u64 labels
  | HostAudit audit_event
  | HostSpanEnd

record observe_env =
  oe_host_alias :: "str option"
  oe_session_id :: "str option"
  oe_seconds :: u64
  oe_duration_ms :: u64
  oe_event_nanos :: str
  oe_now :: str
  oe_display :: "backend_error \<Rightarrow> str"
  oe_audit_runs :: bool

definition synthetic_system_identity :: plugin_identity where
  "synthetic_system_identity =
     \<lparr>pi_kind = ''system'', pi_trust_level = ''verified'', pi_subject_id = Some ''dev.mcpg.backend.sql'',
      pi_auth_provider = None, pi_issuer = None, pi_roles = [], pi_groups = [], pi_scopes = [],
      pi_attributes = []\<rparr>"

definition error_kind :: "'a backend_result \<Rightarrow> str" where
  "error_kind result =
     (case result of
        Inl (BTimeout _) \<Rightarrow> ''timeout''
      | Inl (BInvalidSpec _) \<Rightarrow> ''invalid_spec''
      | Inl (BTransport _ _) \<Rightarrow> ''transport''
      | Inl (BProfileNotFound _) \<Rightarrow> ''profile_not_found''
      | Inr _ \<Rightarrow> [])"

definition observed_rows :: "exec_env \<Rightarrow> response backend_result \<Rightarrow> u64 option" where
  "observed_rows xe result =
     (case result of
        Inr resp \<Rightarrow> (case xe_from_slice xe (br_payload resp) of Inr v \<Rightarrow> row_count_hint v | Inl _ \<Rightarrow> None)
      | Inl _ \<Rightarrow> None)"

definition audit_event_of ::
    "observe_env \<Rightarrow> str \<Rightarrow> request \<Rightarrow> driver_kind \<Rightarrow> str \<Rightarrow> response backend_result \<Rightarrow> str \<Rightarrow> audit_event" where
  "audit_event_of oe backend_name req driver action result alias =
     \<lparr>ae_event_id = ''sql-'' @ rq_id req @ ''-'' @ oe_event_nanos oe, ae_occurred_at = oe_now oe,
      ae_actor = (case rq_identity req of Some i \<Rightarrow> i | None \<Rightarrow> synthetic_system_identity),
      ae_action = action, ae_resource = ''sql-binding://'' @ backend_name, ae_success = False,
      ae_request_id = rq_id req,
      ae_details =
        json_obj
          [(''backend'', JStr backend_name), (''driver'', JStr (driver_as_str driver)),
           (''duration_ms'', json_of_u64 (oe_duration_ms oe)),
           (''reason'', JStr (case result of Inl e \<Rightarrow> oe_display oe e | Inr _ \<Rightarrow> [])), (''alias'', JStr alias)]\<rparr>"

definition host_triad ::
    "observe_env \<Rightarrow> str \<Rightarrow> request \<Rightarrow> driver_kind \<Rightarrow> response backend_result \<Rightarrow> observation list" where
  "host_triad oe backend_name req driver result =
     (case oe_host_alias oe of
        None \<Rightarrow> []
      | Some alias \<Rightarrow>
          (let ls = [(''outcome'', host_outcome_label result), (''driver'', driver_as_str driver)]
           in [HostHistogram ''mcpg_sql_backend_latency_seconds'' (oe_seconds oe) ls,
               HostCounter ''mcpg_sql_backend_calls_total'' 1 ls] @
              (case audit_action_for result of
                 None \<Rightarrow> []
               | Some action \<Rightarrow>
                   if oe_audit_runs oe then [HostAudit (audit_event_of oe backend_name req driver action result alias)] else [])))"

definition observe_call ::
    "observe_env \<Rightarrow> exec_env \<Rightarrow> str \<Rightarrow> request \<Rightarrow> driver_kind \<Rightarrow> response backend_result \<Rightarrow> observation list" where
  "observe_call oe xe backend_name req driver result =
     (let rows = observed_rows xe result; status = status_of result
      in map Metric (record_call backend_name backend_name driver status (oe_seconds oe) rows) @
         [AuditLine
            [(''backend'', backend_name), (''driver'', driver_as_str driver), (''request_id'', rq_id req),
             (''session_id'', case oe_session_id oe of Some s \<Rightarrow> s | None \<Rightarrow> []),
             (''status'', call_status_as_str status), (''error_kind'', error_kind result)]
            (oe_duration_ms oe) (case rows of Some n \<Rightarrow> n | None \<Rightarrow> 0)] @
         host_triad oe backend_name req driver result)"

definition observed_execute ::
    "observe_env \<Rightarrow> exec_env \<Rightarrow> nat \<Rightarrow> nat \<Rightarrow> str \<Rightarrow> request \<Rightarrow> pools \<Rightarrow> (plugin_state \<Rightarrow> plugin_state) \<Rightarrow>
     plugin_state \<Rightarrow> (plugin_state \<times> pools \<times> observation list \<times> response backend_result) option" where
  "observed_execute oe xe t0 t1 backend_name req ps others plugin =
     (if draining plugin then Some (plugin, ps, [], Inl draining_error)
      else
        (let driver_label =
               (case profiles plugin backend_name of Some pr \<Rightarrow> driver_as_str (rt_driver_kind pr) | None \<Rightarrow> ''unknown'');
             span_open =
               (if oe_host_alias oe = None then []
                else [HostSpan ''sql_backend.execute''
                  (json_obj [(''backend'', JStr backend_name), (''driver'', JStr driver_label), (''request_id'', JStr (rq_id req))])]);
             span_end = (if oe_host_alias oe = None then [] else [HostSpanEnd])
         in map_option
              (\<lambda>(plugin1, ps1, evs, result).
                 (others plugin1, ps1,
                  span_open @ map During evs @
                  (case profiles (others plugin1) backend_name of
                     None \<Rightarrow> []
                   | Some pr \<Rightarrow> observe_call oe xe backend_name req (rt_driver_kind pr) result) @
                  span_end, result))
              (execute_inner xe t0 t1 backend_name req ps plugin)))"

section \<open>Properties\<close>

definition during :: "observation list \<Rightarrow> exec_event list" where
  "during obs = List.map_filter (\<lambda>x. case x of During e \<Rightarrow> Some e | _ \<Rightarrow> None) obs"

definition metrics_of :: "observation list \<Rightarrow> metric_op list" where
  "metrics_of obs = List.map_filter (\<lambda>x. case x of Metric op \<Rightarrow> Some op | _ \<Rightarrow> None) obs"

definition audits_of :: "observation list \<Rightarrow> audit_event list" where
  "audits_of obs = List.map_filter (\<lambda>x. case x of HostAudit e \<Rightarrow> Some e | _ \<Rightarrow> None) obs"

lemma observers_append [simp]:
  "during (xs @ ys) = during xs @ during ys" "metrics_of (xs @ ys) = metrics_of xs @ metrics_of ys"
  "audits_of (xs @ ys) = audits_of xs @ audits_of ys"
  by (simp_all add: during_def metrics_of_def audits_of_def map_filter_def)

lemma observers_map [simp]:
  "during (map During evs) = evs" "metrics_of (map During evs) = []" "audits_of (map During evs) = []"
  "during (map Metric ops) = []" "metrics_of (map Metric ops) = ops" "audits_of (map Metric ops) = []"
  by (simp_all add: during_def metrics_of_def audits_of_def map_filter_def comp_def)

lemma observers_Nil [simp]: "during [] = []" "metrics_of [] = []" "audits_of [] = []"
  by (simp_all add: during_def metrics_of_def audits_of_def map_filter_def)

lemma observers_Cons [simp]:
  "during (x # xs) = (case x of During e \<Rightarrow> [e] | _ \<Rightarrow> []) @ during xs"
  "metrics_of (x # xs) = (case x of Metric op \<Rightarrow> [op] | _ \<Rightarrow> []) @ metrics_of xs"
  "audits_of (x # xs) = (case x of HostAudit e \<Rightarrow> [e] | _ \<Rightarrow> []) @ audits_of xs"
  by (cases x; simp add: during_def metrics_of_def audits_of_def map_filter_def)+

lemma triad_observers [simp]:
  "during (host_triad oe b req d r) = []" "metrics_of (host_triad oe b req d r) = []"
  "audits_of (host_triad oe b req d r) =
     (case (oe_host_alias oe, audit_action_for r) of
        (Some alias, Some action) \<Rightarrow> if oe_audit_runs oe then [audit_event_of oe b req d action r alias] else []
      | _ \<Rightarrow> [])"
  by (simp_all add: host_triad_def Let_def split: option.splits)

lemma call_observers [simp]:
  "during (observe_call oe xe b req d r) = []"
  "metrics_of (observe_call oe xe b req d r) =
     record_call b b d (status_of r) (oe_seconds oe) (observed_rows xe r)"
  "audits_of (observe_call oe xe b req d r) = audits_of (host_triad oe b req d r)"
  by (simp_all add: observe_call_def Let_def del: triad_observers(3))


text \<open>
  A binding that is gone when the call ends, because a shutdown or an unregistration came in between,
  takes the account of the call with it: the call ran and was answered, and nothing is counted or
  audited.
\<close>

theorem unregistered_call_unobserved:
  assumes "observed_execute oe xe t0 t1 b req ps others plugin = Some (plugin2, ps1, obs, r)"
    and "profiles plugin2 b = None"
  shows "metrics_of obs = [] \<and> audits_of obs = []"
  using assms by (auto simp: observed_execute_def Let_def split: if_splits)

text \<open>
  A call that is refused leaves no trace: nothing is counted and nothing audited for a call to a plugin
  that drains or to a binding it does not have.
\<close>

theorem refused_call_unobserved:
  assumes "observed_execute oe xe t0 t1 b req ps id plugin = Some (plugin1, ps1, obs, r)"
    and "draining plugin \<or> profiles plugin b = None"
  shows "metrics_of obs = [] \<and> audits_of obs = [] \<and> \<not> is_ok r"
proof (cases "draining plugin")
  case True
  then show ?thesis using assms(1) by (auto simp: observed_execute_def is_ok_def)
next
  case False
  then have none: "profiles plugin b = None" using assms(2) by simp
  then have "execute_inner xe t0 t1 b req ps plugin = Some (plugin, ps, quiet (Inl (BProfileNotFound b)))"
    by (simp add: execute_inner_def)
  then show ?thesis using assms(1) False none by (auto simp: observed_execute_def Let_def quiet_def is_ok_def)
qed

text \<open>
  The histogram of returned rows counts a page of a stream as one row, however many it holds: the
  payload is an object, and an object without \<open>rows_affected\<close> or \<open>contents\<close> counts as one row.
\<close>

theorem stream_page_counted_as_one:
  assumes "shape_response mtext batch StreamMode max_rows = Inr (payload, truncated)"
  shows "row_count_hint (with_next_cursor xe rt b payload) = Some 1"
proof -
  have "payload = json_obj [(''rows'', JArr (if truncated then take (unat max_rows) (rb_rows batch) else rb_rows batch)),
      (''truncated'', JBool truncated)]"
    using assms by (auto simp: shape_response_def Let_def)
  then have "\<exists>m. payload = JObj m \<and> omap_get m ''rows_affected'' = None \<and> omap_get m ''contents'' = None"
    by (simp add: json_obj_def omap_get_def)
  then show ?thesis by (auto simp: with_next_cursor_def row_count_hint_def split: option.splits)
qed

section \<open>Witnesses\<close>

definition sample_oe :: observe_env where
  "sample_oe =
     \<lparr>oe_host_alias = Some ''sql'', oe_session_id = None, oe_seconds = 0, oe_duration_ms = 0, oe_event_nanos = ''1'',
      oe_now = [], oe_display = (\<lambda>_. []), oe_audit_runs = True\<rparr>"

definition late_xe :: exec_env where
  "late_xe = sample_xe\<lparr>xe_execute := (\<lambda>_ _. Elapsed)\<rparr>"

lemma late_call:
  "\<exists>plugin1 ps1 evs. execute_inner late_xe 0 0 ''orders'' sample_request [] (sample_plugin sample_rt) =
     Some (plugin1, ps1, evs, Inl (BTimeout 5000)) \<and> profiles plugin1 ''orders'' = Some sample_rt"
  by (simp add: run_defs sample_defs late_xe_def fail_refunded_def timeout_error_def)


theorem refused_call_unobserved_witness:
  "\<exists>obs. observed_execute sample_oe sample_xe 0 0 ''other'' sample_request [] id (sample_plugin sample_rt) =
       Some (sample_plugin sample_rt, [], obs, Inl (BProfileNotFound ''other'')) \<and> metrics_of obs = []"
proof -
  have none: "draining (sample_plugin sample_rt) \<or> profiles (sample_plugin sample_rt) ''other'' = None"
    by (simp add: sample_plugin_def)
  obtain obs where ex: "observed_execute sample_oe sample_xe 0 0 ''other'' sample_request [] id (sample_plugin sample_rt) =
      Some (sample_plugin sample_rt, [], obs, Inl (BProfileNotFound ''other''))"
    by (simp add: observed_execute_def execute_inner_def sample_plugin_def quiet_def)
  with refused_call_unobserved [OF ex none] show ?thesis by blast
qed

theorem stream_page_counted_as_one_witness:
  "\<exists>payload. shape_response (\<lambda>_. []) (batch_of [] [JNull, JNull]) StreamMode 10 = Inr (payload, False) \<and>
     row_count_hint (with_next_cursor sample_xe sample_rt ''orders'' payload) = Some 1"
proof -
  obtain payload where p: "shape_response (\<lambda>_. []) (batch_of [] [JNull, JNull]) StreamMode 10 = Inr (payload, False)"
    by (simp add: shape_response_def batch_of_def)
  with stream_page_counted_as_one [OF p] show ?thesis by blast
qed

section \<open>Audit metadata\<close>

text \<open>\<open>format!("{v:.6}")\<close>: the exact value rounded to six places, ties to even, then the trailing zeros dropped.\<close>

definition format_six :: "u64 \<Rightarrow> str" where
  "format_six v =
     (if f64_is_nan v then ''NaN''
      else
        (let sign = (if f64_sign v then ''-'' else [])
         in if f64_mag v = f64_inf then sign @ ''inf''
            else
              (let n = round_div (mag_units (f64_mag v) * 1000000) (2 ^ 1074)
               in sign @ show_nat (n div 1000000) @ ''.'' @ pad6 (n mod 1000000))))"

definition format_amount :: "u64 \<Rightarrow> str" where
  "format_amount v =
     (let s = format_six v
      in if CHR ''.'' \<in> set s then
           (let t = rev (dropWhile (\<lambda>c. c = CHR ''0'') (rev s))
            in if t \<noteq> [] \<and> last t = CHR ''.'' then butlast t else t)
         else s)"

definition audit_fields :: "backend_cost \<Rightarrow> (str \<times> json) list" where
  "audit_fields c =
     [(''db.cost.unit'', JStr (cost_unit_as_str (bc_unit c))), (''db.cost.currency'', JStr (bc_currency c)),
      (''db.cost.source'', JStr (bc_source c))] @
     (case bc_max_per_call c of
        None \<Rightarrow> []
      | Some cap \<Rightarrow> [(''db.cost.max_per_call'', JStr (format_amount (lit_bits cap)))])"

definition audit_metadata :: "plugin_state \<Rightarrow> str \<Rightarrow> json omap" where
  "audit_metadata plugin backend_name =
     (case profiles plugin backend_name of
        None \<Rightarrow> []
      | Some rt \<Rightarrow>
          fold (\<lambda>(k, v). omap_insert k v)
            ([(''db.driver'', JStr (driver_as_str (rt_driver_kind rt))), (''db.query_ref'', JStr backend_name)] @
             (case rt_cost rt of None \<Rightarrow> [] | Some c \<Rightarrow> audit_fields c)) [])"

lemma parse_digits_append:
  "parse_digits b acc (xs @ ys) = Option.bind (parse_digits b acc xs) (\<lambda>a. parse_digits b a ys)"
  by (induction xs arbitrary: acc) (auto split: option.splits)

lemma parse_trailing_zeros: "parse_digits 10 a (replicate k (CHR ''0'')) = Some (a * 10 ^ k)"
  by (induction k arbitrary: a) (simp_all add: digit_val_def is_ascii_digit_def)

lemma parse_shift: "parse_digits 10 0 ys = Some y \<Longrightarrow> parse_digits 10 a ys = Some (a * 10 ^ length ys + y)"
proof (induction ys arbitrary: y rule: rev_induct)
  case Nil
  then show ?case by simp
next
  case (snoc c ys)
  then show ?case
    by (auto simp: parse_digits_append algebra_simps split: option.splits if_splits bind_splits)
qed

lemma parse_show_nat: "parse_digits 10 0 (show_nat n) = Some n"
  using parse_show_radix [of 10 n] by (simp add: show_nat_def parse_radix_def split: if_splits)

text \<open>The text of an amount: its whole part, and the fraction without its trailing zeros.\<close>

definition fraction_digits :: "nat \<Rightarrow> str" where
  "fraction_digits r = rev (dropWhile (\<lambda>c. c = CHR ''0'') (rev (pad6 r)))"

lemma pad6_digits: "c \<in> set (pad6 r) \<Longrightarrow> is_ascii_digit c"
  using show_nat_digits by (auto simp: pad6_def is_ascii_digit_def split: if_splits)

lemma fraction_digits_digits: "c \<in> set (fraction_digits r) \<Longrightarrow> is_ascii_digit c"
  using pad6_digits by (auto simp: fraction_digits_def dest: set_dropWhileD)

lemma format_amount_text:
  assumes "\<not> f64_is_nan v" and "f64_mag v \<noteq> f64_inf" and "\<not> f64_sign v"
    and n: "n = round_div (mag_units (f64_mag v) * 1000000) (2 ^ 1074)"
  shows "format_amount v = show_nat (n div 1000000) @
    (if fraction_digits (n mod 1000000) = [] then [] else CHR ''.'' # fraction_digits (n mod 1000000))"
proof -
  let ?f = "fraction_digits (n mod 1000000)"
  have six: "format_six v = show_nat (n div 1000000) @ ''.'' @ pad6 (n mod 1000000)"
    using assms(1-3) unfolding format_six_def Let_def n by simp
  have "rev (dropWhile (\<lambda>c. c = CHR ''0'') (rev (show_nat (n div 1000000) @ ''.'' @ pad6 (n mod 1000000)))) =
      show_nat (n div 1000000) @ CHR ''.'' # ?f"
    by (simp add: fraction_digits_def dropWhile_append3)
  moreover have "?f \<noteq> [] \<Longrightarrow> last ?f \<noteq> CHR ''.''"
    using fraction_digits_digits [of "last ?f" "n mod 1000000"] by (auto simp: is_ascii_digit_def)
  ultimately show ?thesis by (simp add: format_amount_def six butlast_append)
qed

lemma fraction_digits_parse:
  "r < 1000000 \<Longrightarrow> length (fraction_digits r) \<le> 6 \<and>
     (\<exists>m. parse_digits 10 0 (show_nat w @ fraction_digits r) = Some m \<and>
          m * 10 ^ (6 - length (fraction_digits r)) = w * 1000000 + r)"
proof -
  assume r: "r < 1000000"
  let ?f = "fraction_digits r"
  have len: "length (pad6 r) = 6" by (rule pad6_length) (rule r)
  have pad: "?f @ replicate (6 - length ?f) (CHR ''0'') = pad6 r"
    using strip_zeros_pad [of "CHR ''0''" "pad6 r"] by (simp add: fraction_digits_def len)
  have "parse_digits 10 0 (pad6 r) = Some r" by (simp add: pad6_def parse_zeros parse_show_nat)
  then have "parse_digits 10 0 (show_nat w @ pad6 r) = Some (w * 1000000 + r)"
    using parse_shift [of "pad6 r" r w] by (simp add: parse_digits_append parse_show_nat len)
  then have "\<exists>m. parse_digits 10 0 (show_nat w @ ?f) = Some m \<and> m * 10 ^ (6 - length ?f) = w * 1000000 + r"
    unfolding pad [symmetric] append_assoc [symmetric] parse_digits_append [of _ _ "show_nat w @ ?f"]
    by (auto simp: parse_trailing_zeros bind_eq_Some_conv)
  moreover have "length ?f \<le> 6" using arg_cong [OF pad, of length] len by simp
  ultimately show ?thesis by blast
qed

lemma parse_decimal_text:
  assumes "\<forall>c \<in> set w. is_ascii_digit c" and "w \<noteq> []" and "\<forall>c \<in> set f. is_ascii_digit c"
    and "parse_digits 10 0 (w @ f) = Some m"
  shows "parse_f64_lit (w @ (if f = [] then [] else CHR ''.'' # f)) = Some (LitDec False m (- int (length f)))"
proof -
  obtain c cs where w: "w = c # cs" using assms(2) by (cases w) auto
  have c: "is_ascii_digit c" using assms(1) w by simp
  then have sign: "c \<noteq> CHR ''-''" "c \<noteq> CHR ''+''" and low: "to_ascii_lower c \<noteq> CHR ''n''" "to_ascii_lower c \<noteq> CHR ''i''"
    by (auto simp: is_ascii_digit_def to_ascii_lower_def is_ascii_uppercase_def)
  have dot: "\<not> is_ascii_digit (CHR ''.'')" by (simp add: is_ascii_digit_def)
  have tw: "takeWhile is_ascii_digit (w @ CHR ''.'' # f) = w" "dropWhile is_ascii_digit (w @ CHR ''.'' # f) = CHR ''.'' # f"
    "takeWhile is_ascii_digit w = w" "dropWhile is_ascii_digit w = []"
    "takeWhile is_ascii_digit f = f" "dropWhile is_ascii_digit f = []"
    using assms(1,3) dot by (auto simp: takeWhile_append dropWhile_append takeWhile_eq_all_conv)
  have "lit_number False (w @ (if f = [] then [] else CHR ''.'' # f)) = Some (LitDec False m (- int (length f)))"
  proof (cases "f = []")
    case True
    then show ?thesis using assms(2,4) by (simp add: lit_number_def lit_exponent_def Let_def tw(3,4))
  next
    case False
    then show ?thesis unfolding lit_number_def Let_def if_not_P [OF False] tw
      using assms(2,4) by (simp add: tw lit_exponent_def)
  qed
  moreover have "strip_sign (w @ (if f = [] then [] else CHR ''.'' # f)) = (False, w @ (if f = [] then [] else CHR ''.'' # f))"
    using sign by (simp add: strip_sign_def w)
  ultimately show ?thesis using low by (simp add: parse_f64_lit_def Let_def w)
qed

text \<open>
  An amount in the audit log can be read back: the text of a finite amount that is not negative is a
  decimal literal with at most six places, without exponent, whose value is the amount up to half a
  millionth.
\<close>

theorem format_amount_reads_back:
  assumes "f64_is_finite v" and "\<not> f64_sign v"
  shows "\<exists>m k. k \<le> 6 \<and> parse_f64_lit (format_amount v) = Some (LitDec False m (- int k)) \<and>
    \<bar>real m / 10 ^ k - f64_real v\<bar> \<le> 1 / 2000000"
proof -
  define u where "u = (2 :: nat) ^ 1074"
  define n where "n = round_div (mag_units (f64_mag v) * 1000000) u"
  let ?f = "fraction_digits (n mod 1000000)" and ?w = "show_nat (n div 1000000)"
  have inf: "f64_mag v < f64_inf" by (rule finite_mag) (rule assms(1))
  obtain m where m: "parse_digits 10 0 (?w @ ?f) = Some m" "m * 10 ^ (6 - length ?f) = n" and len: "length ?f \<le> 6"
    using fraction_digits_parse [of "n mod 1000000" "n div 1000000"] by auto
  have "format_amount v = ?w @ (if ?f = [] then [] else CHR ''.'' # ?f)"
    using inf assms(2) by (intro format_amount_text) (simp_all only: f64_is_nan_def n_def u_def, simp_all)
  then have parse: "parse_f64_lit (format_amount v) = Some (LitDec False m (- int (length ?f)))"
    using parse_decimal_text [of ?w ?f m] m(1) show_nat_digits fraction_digits_digits by simp
  have "real n = real m * 10 ^ (6 - length ?f)" using arg_cong [OF m(2), of real] by simp
  then have "real n * 10 ^ length ?f = real m * (10 ^ (6 - length ?f) * 10 ^ length ?f)" by (simp only: mult.assoc)
  also have "(10 :: real) ^ (6 - length ?f) * 10 ^ length ?f = 1000000"
    using len by (simp add: power_add [symmetric])
  finally have digits: "real m / 10 ^ length ?f = real n / 1000000" by (simp add: field_simps)
  have "0 < u" by (simp add: u_def)
  then have "\<bar>real n - real (mag_units (f64_mag v) * 1000000) / real u\<bar> \<le> 1 / 2" unfolding n_def by (rule round_div_error)
  moreover have "2 powi (- 1074) = inverse (real u)"
    by (simp only: u_def power_int_minus of_nat_power of_nat_numeral power_int_numeral)
  then have "f64_real v = real (mag_units (f64_mag v)) / real u"
    by (simp only: f64_real_def f64_value_def assms(2) if_False of_int_of_nat_eq divide_inverse)
  ultimately have "\<bar>real n - 1000000 * f64_real v\<bar> \<le> 1 / 2" by (simp add: mult.commute)
  then have "\<bar>real m / 10 ^ length ?f - f64_real v\<bar> \<le> 1 / 2000000" unfolding digits by linarith
  then show ?thesis using parse len by blast
qed

theorem format_amount_reads_back_witness:
  "\<exists>m k. parse_f64_lit (format_amount 0x3FE0000000000000) = Some (LitDec False m (- int k)) \<and>
     \<bar>real m / 10 ^ k - 1 / 2\<bar> \<le> 1 / 2000000"
  using format_amount_reads_back [of "0x3FE0000000000000"]
  by (auto simp: f64_is_finite_def f64_sign_def half_real)

end
