(* ===== verification/Slot.thy ===== *)
theory Slot
  imports Cdc
begin

text \<open>
  \<open>prepare\<close> and \<open>peek_rows\<close> of \<open>src/watch_pg_cdc.rs\<close>: how the change-data-capture watch sets up its publication
  and its replication slot, and how it reads the rows of a peek.  What matters of the database is a
  \<open>catalog\<close>; a statement can be refused, or take effect and lose its answer.
\<close>

section \<open>The catalog\<close>

record catalog =
  ct_wal_level :: str
  ct_publications :: "str \<rightharpoonup> str list"
  ct_slots :: "str set"

datatype prep_stmt = ShowWalLevel | PublicationExists | CreatePublication | SlotExists | CreateSlot

datatype fault = Fine | Refused str | AnswerLost str

text \<open>A query, and a statement that changes the catalog.\<close>

definition query_answer :: "fault \<Rightarrow> str \<Rightarrow> 'a \<Rightarrow> msg + 'a" where
  "query_answer f what x = (case f of Fine \<Rightarrow> Inr x | Refused e \<Rightarrow> Inl (Msg what [e]) | AnswerLost e \<Rightarrow> Inl (Msg what [e]))"

definition change :: "fault \<Rightarrow> str \<Rightarrow> (catalog \<Rightarrow> catalog) \<Rightarrow> catalog \<Rightarrow> catalog \<times> (msg + unit)" where
  "change f what g ct =
     (case f of
        Fine \<Rightarrow> (g ct, Inr ())
      | Refused e \<Rightarrow> (ct, Inl (Msg what [e]))
      | AnswerLost e \<Rightarrow> (g ct, Inl (Msg what [e])))"

definition create_publication_sql :: "str \<Rightarrow> str list \<Rightarrow> str" where
  "create_publication_sql publication tables =
     ''CREATE PUBLICATION '' @ quoted publication @ '' FOR TABLE '' @ join '', '' (map quoted_table tables)"

definition prepare_publication ::
    "(prep_stmt \<Rightarrow> fault) \<Rightarrow> str \<Rightarrow> str list \<Rightarrow> catalog \<Rightarrow> catalog \<times> (msg + unit)" where
  "prepare_publication f publication tables ct =
     (case query_answer (f PublicationExists) ''PostgreSQL publication check failed'' (publication \<in> dom (ct_publications ct)) of
        Inl e \<Rightarrow> (ct, Inl e)
      | Inr published \<Rightarrow>
          if published then (ct, Inr ())
          else if tables = [] then (ct, Inl (Msg ''PostgreSQL publication does not exist; create it, or list tables'' [publication]))
          else change (f CreatePublication) ''PostgreSQL CREATE PUBLICATION failed''
                 (\<lambda>c. c\<lparr>ct_publications := (ct_publications c)(publication \<mapsto> tables)\<rparr>) ct)"

definition prepare_slot :: "(prep_stmt \<Rightarrow> fault) \<Rightarrow> str \<Rightarrow> catalog \<Rightarrow> catalog \<times> (msg + bool)" where
  "prepare_slot f slot ct =
     (case query_answer (f SlotExists) ''PostgreSQL slot check failed'' (slot \<in> ct_slots ct) of
        Inl e \<Rightarrow> (ct, Inl e)
      | Inr slotted \<Rightarrow>
          if slotted then (ct, Inr False)
          else (case change (f CreateSlot) ''PostgreSQL slot creation failed''
                  (\<lambda>c. c\<lparr>ct_slots := insert slot (ct_slots c)\<rparr>) ct of
             (ct1, r) \<Rightarrow> (ct1, and_then r (\<lambda>_. Inr True))))"

text \<open>\<open>prepare\<close>: whether the slot was created.\<close>

definition prepare ::
    "(prep_stmt \<Rightarrow> fault) \<Rightarrow> str \<Rightarrow> str list \<Rightarrow> str \<Rightarrow> catalog \<Rightarrow> catalog \<times> (msg + bool)" where
  "prepare f publication tables slot ct =
     (case query_answer (f ShowWalLevel) ''PostgreSQL SHOW wal_level failed'' (ct_wal_level ct) of
        Inl e \<Rightarrow> (ct, Inl e)
      | Inr level \<Rightarrow>
          if level \<noteq> ''logical'' then (ct, Inl (Msg ''PostgreSQL wal_level; logical decoding needs wal_level = logical'' [level]))
          else
            (case prepare_publication f publication tables ct of
               (ct1, Inl e) \<Rightarrow> (ct1, Inl e)
             | (ct1, Inr _) \<Rightarrow> prepare_slot f slot ct1))"

text \<open>
  \<open>peek_rows\<close>: the answer of the database is its error or the rows, each with what \<open>try_get\<close> answers
  for the position and the data.
\<close>

definition peek_row :: "(str + str) \<times> (str + str) \<Rightarrow> msg + u64 \<times> message" where
  "peek_row row =
     and_then (map_err (\<lambda>e. Msg e []) (fst row)) (\<lambda>lsn_text_value.
     and_then (map_err (\<lambda>e. Msg e []) (snd row)) (\<lambda>data.
     and_then (ok_or (parse_lsn lsn_text_value) (Msg ''PostgreSQL LSN does not parse'' [lsn_text_value])) (\<lambda>lsn.
     and_then (decode data) (\<lambda>m. Inr (lsn, m)))))"

definition peek_rows :: "str + ((str + str) \<times> (str + str)) list \<Rightarrow> msg + (u64 \<times> message) list" where
  "peek_rows answer =
     and_then (map_err (\<lambda>e. Msg ''PostgreSQL slot peek failed'' [e]) answer) (try_map peek_row)"

text \<open>The limit of the statement: \<open>i32::try_from(limit).unwrap_or(i32::MAX)\<close>.\<close>

definition peek_limit :: "nat \<Rightarrow> nat" where
  "peek_limit limit = (if limit < 2 ^ 31 then limit else 2 ^ 31 - 1)"

section \<open>Preparing\<close>

abbreviation no_fault :: "prep_stmt \<Rightarrow> fault" where "no_fault \<equiv> \<lambda>_. Fine"

text \<open>What a catalog is to be once the watch is prepared.\<close>

definition prepared_catalog :: "str \<Rightarrow> str list \<Rightarrow> str \<Rightarrow> catalog \<Rightarrow> catalog" where
  "prepared_catalog publication tables slot ct =
     ct\<lparr>ct_publications :=
          (if publication \<in> dom (ct_publications ct) then ct_publications ct
           else (ct_publications ct)(publication \<mapsto> tables)),
        ct_slots := insert slot (ct_slots ct)\<rparr>"

lemma prepare_fine:
  assumes "ct_wal_level ct = ''logical''" and "tables \<noteq> [] \<or> publication \<in> dom (ct_publications ct)"
  shows "prepare no_fault publication tables slot ct =
    (prepared_catalog publication tables slot ct, Inr (slot \<notin> ct_slots ct))"
  using assms
  by (cases ct; cases "slot \<in> ct_slots ct"; cases "publication \<in> dom (ct_publications ct)")
    (simp_all add: prepare_def prepare_publication_def prepare_slot_def prepared_catalog_def query_answer_def change_def insert_absorb)

lemma publication_between:
  "fst (prepare_publication f publication tables ct) \<in>
     {ct, ct\<lparr>ct_publications := (if publication \<in> dom (ct_publications ct) then ct_publications ct
                               else (ct_publications ct)(publication \<mapsto> tables))\<rparr>}"
  by (simp add: prepare_publication_def query_answer_def change_def split: fault.splits)

lemma slot_between: "fst (prepare_slot f slot ct) \<in> {ct, ct\<lparr>ct_slots := insert slot (ct_slots ct)\<rparr>}"
  by (simp add: prepare_slot_def query_answer_def change_def split: fault.splits)

text \<open>Whatever fails, the catalog is on its way to the prepared one.\<close>

lemma prepare_between:
  assumes "tables \<noteq> [] \<or> publication \<in> dom (ct_publications ct)" and "ct1 = fst (prepare f publication tables slot ct)"
  shows "prepared_catalog publication tables slot ct1 = prepared_catalog publication tables slot ct \<and>
    ct_wal_level ct1 = ct_wal_level ct \<and> (tables \<noteq> [] \<or> publication \<in> dom (ct_publications ct1))"
proof -
  obtain cp r where cp: "prepare_publication f publication tables ct = (cp, r)" by (cases "prepare_publication f publication tables ct")
  have "ct1 \<in> {ct, cp, cp\<lparr>ct_slots := insert slot (ct_slots cp)\<rparr>}"
    using assms(2) slot_between [of f slot cp]
    by (auto simp: prepare_def cp split: sum.splits if_splits)
  moreover have "cp \<in> {ct, ct\<lparr>ct_publications := (if publication \<in> dom (ct_publications ct) then ct_publications ct
      else (ct_publications ct)(publication \<mapsto> tables))\<rparr>}"
    using publication_between [of f publication tables ct] by (simp only: cp fst_conv)
  ultimately show ?thesis
    using assms(1) by (cases ct) (auto simp: prepared_catalog_def fun_upd_idem split: if_splits)
qed

text \<open>
  C16. Preparing can be retried: whichever of its statements fail, also when one took effect and only its
  answer was lost, a later attempt in which nothing fails ends in the same catalog as one that had
  succeeded at first: the publication and the slot are there, one that was there before is as it was,
  and no other is touched.
\<close>

theorem prepare_retried:
  assumes "ct_wal_level ct = ''logical''" and "tables \<noteq> [] \<or> publication \<in> dom (ct_publications ct)"
    and "foldl (\<lambda>c f. fst (prepare f publication tables slot c)) ct faults = ct1"
  shows "prepare no_fault publication tables slot ct1 =
    (prepared_catalog publication tables slot ct, Inr (slot \<notin> ct_slots ct1))"
  using assms
proof (induction faults arbitrary: ct)
  case Nil
  then show ?case using prepare_fine by auto
next
  case (Cons f faults)
  let ?c = "fst (prepare f publication tables slot ct)"
  have "prepared_catalog publication tables slot ?c = prepared_catalog publication tables slot ct"
    "ct_wal_level ?c = ''logical''" "tables \<noteq> [] \<or> publication \<in> dom (ct_publications ?c)"
    using prepare_between [OF Cons.prems(2) refl, where f = f and slot = slot] Cons.prems(1) by simp_all
  then show ?case using Cons.IH [of ?c] Cons.prems(3) by (simp only: foldl_Cons)
qed

section \<open>Gaps\<close>

lemma try_map_mem: "try_map f xs = Inr ys \<Longrightarrow> y \<in> set ys \<Longrightarrow> \<exists>x \<in> set xs. f x = Inr y"
  by (induction xs arbitrary: ys) auto

lemma change_events_no_gap:
  assumes "change_events env slot lsn begin relations m = Inr events" and "e \<in> set events"
  shows "\<not> ev_gap e"
proof -
  have plain: "\<not> ev_gap (change_event env lsn begin t i data)" for t i data
    by (simp add: change_event_def default_event_def)
  then have row: "\<not> ev_gap (row_change_event env slot lsn begin op relation row old unchanged)" for op relation row old unchanged
    by (simp add: row_change_event_def)
  show ?thesis
    using assms plain row
    by (cases m) (auto simp: change_events_def Let_def split_def dest!: try_map_mem)
qed

lemma peek_message_no_gap:
  assumes "\<forall>d \<in> set (pk_deliveries st). \<not> ev_gap (dl_event d)"
  shows "\<forall>d \<in> set (pk_deliveries (fst (peek_message env slot max_new lm st))). \<not> ev_gap (dl_event d)"
proof -
  have new: "\<not> ev_gap (dl_event d)" if "change_events env slot lsn b rels m = Inr events"
    and "d \<in> set (change_deliveries lsn events)" for lsn b rels m events d
    using that change_events_no_gap [OF that(1)] by (auto simp: change_deliveries_def dest: set_zip_rightD)
  obtain lsn m where lm: "lm = (lsn, m)" by (cases lm)
  show ?thesis
  proof (cases "is_change m")
    case True
    show ?thesis using assms new unfolding lm peek_message_change [OF True] Let_def
      by (auto split: sum.splits)
  next
    case False
    then show ?thesis using assms by (cases m) (simp_all add: lm peek_message_def is_change_def Let_def)
  qed
qed

lemma peek_messages_no_gap:
  "\<forall>d \<in> set (pk_deliveries st). \<not> ev_gap (dl_event d) \<Longrightarrow>
   \<forall>d \<in> set (pk_deliveries (fst (peek_messages env slot max_new ms st))). \<not> ev_gap (dl_event d)"
proof (induction ms arbitrary: st)
  case Nil
  then show ?case by simp
next
  case (Cons m ms)
  obtain st1 r where step: "peek_message env slot max_new m st = (st1, r)" by (cases "peek_message env slot max_new m st")
  have "\<forall>d \<in> set (pk_deliveries st1). \<not> ev_gap (dl_event d)"
    using peek_message_no_gap [OF Cons.prems, of env slot max_new m] by (simp add: step)
  with Cons.IH show ?case by (cases r) (simp_all add: step)
qed

lemma peek_no_gap: "snd (peek env slot rows max_new p) = Inr ds \<Longrightarrow> d \<in> set ds \<Longrightarrow> \<not> ev_gap (dl_event d)"
proof -
  assume "snd (peek env slot rows max_new p) = Inr ds" and d: "d \<in> set ds"
  then have "\<exists>ms. ds = pk_deliveries (fst (peek_messages env slot max_new ms (peek_start p)))"
    by (auto simp: peek_def split: option.splits sum.splits prod.splits) (metis fst_conv)
  then obtain ms where "ds = pk_deliveries (fst (peek_messages env slot max_new ms (peek_start p)))" ..
  with d show ?thesis using peek_messages_no_gap [of "peek_start p" env slot max_new ms] by (simp add: peek_start_def)
qed

text \<open>
  A slot that is gone is not always reported.  The source knows at its start whether it resumes; one
  that did not, and has read from its slot since, connects again to a slot someone dropped: the slot
  is created and no gap is flagged, so no event it delivers then is a gap event, although the changes
  in between are lost.
\<close>

theorem dropped_slot_unreported:
  assumes "ct_wal_level ct = ''logical''" and "tables \<noteq> [] \<or> publication \<in> dom (ct_publications ct)"
    and "cdc_slot c \<notin> ct_slots ct" and "\<not> cdc_resumed c" and "\<not> cdc_gap c"
    and "cdc_connect (snd (prepare no_fault publication tables (cdc_slot c) ct)) c = (c1, r)"
    and "cdc_receive env rows advanced max_new c1 = (c2, Inr ds, to)"
  shows "snd (prepare no_fault publication tables (cdc_slot c) ct) = Inr True \<and> r = Inr () \<and>
    (\<forall>d \<in> set ds. \<not> ev_gap (dl_event d))"
proof -
  have created: "snd (prepare no_fault publication tables (cdc_slot c) ct) = Inr True"
    using prepare_fine [OF assms(1,2), of "cdc_slot c"] assms(3) by simp
  then have c1: "r = Inr ()" "\<not> cdc_gap c1" "cdc_pool c1" using assms(4,5,6) by (auto simp: cdc_connect_def)
  then have "snd (peek env (cdc_slot c1) rows max_new (cdc_progress c1)) = Inr ds"
    using assms(7) by (auto simp: cdc_receive_def Let_def split: sum.splits prod.splits)
  then show ?thesis using created c1(1) peek_no_gap by blast
qed

text \<open>
  Nor is it when the slot is created but the answer is lost: the next attempt finds the slot, so a
  source that resumes does not flag the gap either.
\<close>

theorem lost_answer_hides_gap:
  assumes "ct_wal_level ct = ''logical''" and "publication \<in> dom (ct_publications ct)" and "slot \<notin> ct_slots ct"
    and "prepare (no_fault(CreateSlot := AnswerLost e)) publication tables slot ct = (ct1, r)"
  shows "\<not> is_ok r \<and> snd (prepare no_fault publication tables slot ct1) = Inr False"
proof -
  have ct1: "ct1 = ct\<lparr>ct_slots := insert slot (ct_slots ct)\<rparr>" "\<not> is_ok r"
    using assms by (auto simp: prepare_def prepare_publication_def prepare_slot_def query_answer_def change_def is_ok_def)
  then have "snd (prepare no_fault publication tables slot ct1) = Inr (slot \<notin> ct_slots ct1)"
    using assms(1,2) by (subst prepare_fine) auto
  then show ?thesis using ct1 by simp
qed

section \<open>Quoting\<close>

text \<open>
  A reference reading of SQL text as far as identifiers go: inside double quotes a doubled quote is a
  quote, and everything else stands for itself.
\<close>

datatype sql_token = Ident str | Punct char | Unclosed

fun read_sql :: "str option \<Rightarrow> str \<Rightarrow> sql_token list" where
  "read_sql None [] = []"
| "read_sql (Some a) [] = [Unclosed]"
| "read_sql None (c # cs) = (if c = CHR 0x22 then read_sql (Some []) cs else Punct c # read_sql None cs)"
| "read_sql (Some a) (c # cs) =
     (if c \<noteq> CHR 0x22 then read_sql (Some (a @ [c])) cs
      else if cs \<noteq> [] \<and> hd cs = CHR 0x22 then read_sql (Some (a @ [CHR 0x22])) (tl cs)
      else Ident a # read_sql None cs)"

fun separated :: "'a list \<Rightarrow> 'a list list \<Rightarrow> 'a list" where
  "separated sep [] = []"
| "separated sep [x] = x"
| "separated sep (x # y # ys) = x @ sep @ separated sep (y # ys)"

lemma lex_escaped:
  "rest = [] \<or> hd rest \<noteq> CHR 0x22 \<Longrightarrow>
   read_sql (Some a) (concat (map (\<lambda>c. if c = CHR 0x22 then [CHR 0x22, CHR 0x22] else [c]) s) @ CHR 0x22 # rest) =
     Ident (a @ s) # read_sql None rest"
  by (induction s arbitrary: a) auto

lemma lex_quoted: "rest = [] \<or> hd rest \<noteq> CHR 0x22 \<Longrightarrow> read_sql None (quoted s @ rest) = Ident s # read_sql None rest"
  using lex_escaped [of rest "[]" s] by (simp add: quoted_def)

lemma lex_plain: "CHR 0x22 \<notin> set s \<Longrightarrow> read_sql None (s @ rest) = map Punct s @ read_sql None rest"
  by (induction s) auto

lemma lex_join:
  assumes "\<forall>x \<in> set xs. \<forall>r. r = [] \<or> hd r \<noteq> CHR 0x22 \<longrightarrow> read_sql None (f x @ r) = g x @ read_sql None r"
    and "CHR 0x22 \<notin> set sep" and "sep \<noteq> []" and "rest = [] \<or> hd rest \<noteq> CHR 0x22"
  shows "read_sql None (join sep (map f xs) @ rest) = separated (map Punct sep) (map g xs) @ read_sql None rest"
  using assms(1)
proof (induction xs rule: induct_list012)
  case 1
  then show ?case by simp
next
  case (2 x)
  then have "read_sql None (f x @ rest) = g x @ read_sql None rest" using assms(4) by (elim ballE) auto
  then show ?case by simp
next
  case (3 x y zs)
  have "hd sep \<noteq> CHR 0x22" using assms(2,3) by (cases sep) auto
  then have sep: "read_sql None (f x @ sep @ r) = g x @ map Punct sep @ read_sql None r" for r
    using "3.prems" assms(3) lex_plain [OF assms(2)] by simp
  show ?case using "3.IH"(2) "3.prems" sep by simp
qed

lemma lex_table:
  "rest = [] \<or> hd rest \<noteq> CHR 0x22 \<Longrightarrow>
   read_sql None (quoted_table t @ rest) =
     separated [Punct (CHR ''.'')] (map (\<lambda>s. [Ident s]) (split_on (CHR ''.'') t)) @ read_sql None rest"
  unfolding quoted_table_def by (subst lex_join) (auto simp: lex_quoted)

text \<open>
  The statement that creates the publication cannot be broken out of: whatever the names of the
  publication and the tables are, it reads as the fixed words with each name as one identifier, a
  table name split at its dots, and nothing of a name stands outside quotes.
\<close>

theorem create_publication_reads:
  "read_sql None (create_publication_sql publication tables) =
     map Punct ''CREATE PUBLICATION '' @ [Ident publication] @ map Punct '' FOR TABLE '' @
     separated (map Punct '', '')
       (map (\<lambda>t. separated [Punct (CHR ''.'')] (map (\<lambda>s. [Ident s]) (split_on (CHR ''.'') t))) tables)"
proof -
  have "read_sql None (join '', '' (map quoted_table tables) @ []) = separated (map Punct '', '')
      (map (\<lambda>t. separated [Punct (CHR ''.'')] (map (\<lambda>s. [Ident s]) (split_on (CHR ''.'') t))) tables) @ read_sql None []"
    by (rule lex_join) (simp_all add: lex_table)
  then show ?thesis
    unfolding create_publication_sql_def
    by (subst lex_plain, simp, subst lex_quoted, simp, subst lex_plain, simp) simp
qed

text \<open>
  A peek reads exactly the rows the slot answers, in their order: rows whose positions and messages
  the database wrote are read back, and one that does not read fails the whole peek.
\<close>

theorem peek_rows_reads:
  assumes "list_all (\<lambda>(lsn, m). message_ok m) msgs"
  shows "peek_rows (Inr (map (\<lambda>(lsn, m). (Inr (lsn_text lsn), Inr (enc_message m))) msgs)) = Inr (map (apsnd message_meant) msgs)"
proof -
  have "peek_row (Inr (lsn_text lsn), Inr (enc_message m)) = Inr (lsn, message_meant m)" if "message_ok m" for lsn m
    using read_message [OF that, of "[]"] lsn_text_roundtrip by (simp add: peek_row_def decode_def)
  then have "try_map peek_row (map (\<lambda>(lsn, m). (Inr (lsn_text lsn), Inr (enc_message m))) msgs) = Inr (map (apsnd message_meant) msgs)"
    using assms by (induction msgs) auto
  then show ?thesis by (simp add: peek_rows_def)
qed

section \<open>Witnesses\<close>

definition bare_catalog :: catalog where
  "bare_catalog = \<lparr>ct_wal_level = ''logical'', ct_publications = [''pub'' \<mapsto> [''t'']], ct_slots = {}\<rparr>"

theorem prepare_retried_witness:
  "prepare no_fault ''pub'' [] ''s'' (fst (prepare (no_fault(CreateSlot := AnswerLost [])) ''pub'' [] ''s'' bare_catalog)) =
     (bare_catalog\<lparr>ct_slots := {''s''}\<rparr>, Inr False)"
proof -
  let ?f = "no_fault(CreateSlot := AnswerLost [])"
  let ?c = "fst (prepare ?f ''pub'' [] ''s'' bare_catalog)"
  have c: "?c = bare_catalog\<lparr>ct_slots := {''s''}\<rparr>"
    by (simp add: prepare_def prepare_publication_def prepare_slot_def query_answer_def change_def bare_catalog_def)
  have "prepare no_fault ''pub'' [] ''s'' ?c = (prepared_catalog ''pub'' [] ''s'' bare_catalog, Inr (''s'' \<notin> ct_slots ?c))"
    by (rule prepare_retried [of bare_catalog _ _ _ "[?f]"]) (simp_all add: bare_catalog_def)
  then show ?thesis by (simp add: c prepared_catalog_def) (simp add: bare_catalog_def)
qed

definition read_before :: cdc where
  "read_before = (sample_cdc default_progress)\<lparr>cdc_pool := True, cdc_resumed := False, cdc_gap := False\<rparr>"

lemma peek_nothing: "peek env slot (\<lambda>_. Inr []) max_new p = (p, Inr [])"
proof -
  have "0 < first_limit p max_new" by (simp add: first_limit_def MAX_PEEK_ROWS_def)
  then have "peek_loop (Suc n) (\<lambda>_. Inr []) p max_new (first_limit p max_new) = Some (Inr [])" for n by simp
  from this [of 8] have "peek_loop 9 (\<lambda>_. Inr []) p max_new (first_limit p max_new) = Some (Inr [])" by simp
  then show ?thesis by (simp add: peek_def peek_start_def)
qed

theorem dropped_slot_unreported_witness:
  "\<exists>c1 c2 to. cdc_connect (snd (prepare no_fault ''pub'' [] (cdc_slot read_before) bare_catalog)) read_before = (c1, Inr ()) \<and>
     cdc_receive sample_cdc_env (\<lambda>_. Inr []) True 10 c1 = (c2, Inr [], to) \<and>
     snd (prepare no_fault ''pub'' [] (cdc_slot read_before) bare_catalog) = Inr True"
proof -
  have hyps: "ct_wal_level bare_catalog = ''logical''" "[] \<noteq> [] \<or> ''pub'' \<in> dom (ct_publications bare_catalog)"
    "cdc_slot read_before \<notin> ct_slots bare_catalog" "\<not> cdc_resumed read_before" "\<not> cdc_gap read_before"
    by (simp_all add: bare_catalog_def read_before_def)
  obtain c1 r where c1: "cdc_connect (snd (prepare no_fault ''pub'' [] (cdc_slot read_before) bare_catalog)) read_before = (c1, r)"
    by (cases "cdc_connect (snd (prepare no_fault ''pub'' [] (cdc_slot read_before) bare_catalog)) read_before")
  have "cdc_pool c1 \<and> \<not> cdc_gap c1" using c1 prepare_fine [OF hyps(1,2), of "cdc_slot read_before"] hyps(4,5)
    by (auto simp: cdc_connect_def)
  then obtain c2 to where rc: "cdc_receive sample_cdc_env (\<lambda>_. Inr []) True 10 c1 = (c2, Inr [], to)"
    by (cases "settle True (c1\<lparr>cdc_gap := False\<rparr>)") (auto simp: cdc_receive_def peek_nothing)
  show ?thesis using dropped_slot_unreported [OF hyps c1 rc] c1 rc by blast
qed

theorem lost_answer_hides_gap_witness:
  "snd (prepare no_fault ''pub'' [] ''s''
     (fst (prepare (no_fault(CreateSlot := AnswerLost [])) ''pub'' [] ''s'' bare_catalog))) = Inr False"
  using lost_answer_hides_gap [of bare_catalog "''pub''" "''s''" "[]" "[]"]
  by (simp add: bare_catalog_def prod_eq_iff)

theorem peek_rows_reads_witness:
  "peek_rows (Inr [(Inr (lsn_text 7), Inr (enc_message (WCommit 0 8 9 0)))]) = Inr [(7, Commit 9)]"
  using peek_rows_reads [of "[(7, WCommit 0 8 9 0)]"] by (simp add: message_ok_def message_meant_def)

end
