(* ===== verification/Watches.thy ===== *)
theory Watches
  imports Polling Changes Listen Rotation
begin

text \<open>
  The entry points of the watches (\<open>watch\<close> of \<open>src/watch.rs\<close>, \<open>src/watch_changes.rs\<close> and
  \<open>src/watch_pg_listen.rs\<close>), and the bridge of \<open>src/cdylib.rs\<close> that hands a running watch to the host as a raw
  pointer and takes it back when the host cancels.  What \<open>serde_json\<close> makes of a spec, the drivers compiled
  in, the pools and the host's resume position are arguments.
\<close>

section \<open>Entry points\<close>

datatype watch_error = WInvalidSpec str | WSubscribe str

record watch_env =
  we_config :: config_env
  we_mtext :: "msg \<Rightarrow> str"
  we_text :: "sql_error \<Rightarrow> str"
  we_read_file :: "str \<Rightarrow> str + str"
  we_compiled :: "driver_kind \<Rightarrow> bool"
  we_connect :: connect_env
  we_enabled :: "str \<Rightarrow> bool"
  we_health :: "pool_options \<Rightarrow> unit sql_result"

definition driver_of :: "watch_env \<Rightarrow> driver_kind \<Rightarrow> watch_error + driver_kind" where
  "driver_of we d =
     (if we_compiled we d then Inr d
      else Inl (WInvalidSpec (we_mtext we (Msg ''driver is not compiled into this build'' [driver_as_str d]))))"

record polling_task =
  pt_pool :: pool_options
  pt_stmt :: prepared_stmt
  pt_session :: "str omap"
  pt_interval_ms :: u64
  pt_uri :: str

text \<open>The rotator of the pool is dropped: only its first component is kept.\<close>

definition polling_watch :: "watch_env \<Rightarrow> str \<Rightarrow> str + polling_spec \<Rightarrow> watch_error + polling_task" where
  "polling_watch we resource_uri spec =
     and_then (map_err (\<lambda>e. WInvalidSpec (we_mtext we (Msg ''sql_polling watch spec'' [e]))) spec) (\<lambda>parsed.
     let con = po_connection parsed; invalid_spec = (\<lambda>e. WInvalidSpec (we_text we e)); subscribe = (\<lambda>e. WSubscribe (we_text we e))
     in and_then (map_err invalid_spec (polling_validate (we_config we) parsed)) (\<lambda>_.
        and_then (driver_of we (cfg_driver con)) (\<lambda>_.
        and_then (map_err invalid_spec (build_prepared_stmt (we_read_file we) con)) (\<lambda>stmt.
        and_then (map_err subscribe (build_pool (we_connect we) (we_enabled we) con)) (\<lambda>(pool, _).
        and_then (map_err subscribe (we_health we pool)) (\<lambda>_.
        Inr \<lparr>pt_pool = pool, pt_stmt = stmt, pt_session = cfg_session_vars con, pt_interval_ms = po_interval_ms parsed,
             pt_uri = resource_uri\<rparr>))))))"

record changes_task =
  cg_connection :: sql_backend_config
  cg_plan :: changes_plan
  cg_resume :: "json list option"
  cg_uri :: str

text \<open>\<open>resume\<close> is what \<open>take_watch_resume\<close> takes out of the spec.\<close>

definition changes_watch :: "watch_env \<Rightarrow> str \<Rightarrow> str + changes_spec \<Rightarrow> json option \<Rightarrow> watch_error + changes_task" where
  "changes_watch we resource_uri spec resume =
     and_then (map_err (\<lambda>e. WInvalidSpec (we_mtext we (Msg ''sql_changes watch spec'' [e]))) spec) (\<lambda>parsed.
     and_then (map_err (\<lambda>e. WInvalidSpec (we_text we e)) (changes_compile (we_config we) parsed)) (\<lambda>plan.
     and_then
       (case resume of
          None \<Rightarrow> Inr None
        | Some r \<Rightarrow>
            and_then (map_err (\<lambda>m. WInvalidSpec (we_mtext we m)) (resume_key plan r)) (\<lambda>k. Inr (Some k))) (\<lambda>resumed.
     and_then (driver_of we (cfg_driver (ch_connection parsed))) (\<lambda>_.
     Inr \<lparr>cg_connection = ch_connection parsed, cg_plan = plan, cg_resume = resumed, cg_uri = resource_uri\<rparr>))))"

text \<open>The key of the shared listener a watch joins; opening it is in the step relation of \<open>Listen\<close>.\<close>

definition listen_watch :: "watch_env \<Rightarrow> str + listen_spec \<Rightarrow> watch_error + str \<times> str" where
  "listen_watch we spec =
     and_then (map_err (\<lambda>e. WInvalidSpec (we_mtext we (Msg ''postgres_listen_notify watch spec'' [e]))) spec) (\<lambda>parsed.
     and_then (map_err (\<lambda>e. WInvalidSpec (we_text we e)) (listen_validate parsed)) (\<lambda>_.
     Inr (ln_url parsed, ln_channel parsed)))"

section \<open>The bridge\<close>

text \<open>
  A watch that runs is a number, its cancellation token.  \<open>bg_heap\<close> has the boxes behind the pointers that
  \<open>Box::into_raw\<close> gave out, \<open>bg_cancelled\<close> the tokens cancelled, and \<open>bg_undefined\<close> says that a pointer was
  turned back into a box where there is none, the null pointer 0 included: from then on the program means
  nothing.  The host keeps its own ledger: which watch each pointer it holds is for (\<open>bg_held\<close>), and the
  watches it gave back for cancellation (\<open>bg_returned\<close>).
\<close>

record bridge =
  bg_heap :: "nat \<rightharpoonup> nat"
  bg_cancelled :: "nat set"
  bg_undefined :: bool
  bg_held :: "nat \<rightharpoonup> nat"
  bg_returned :: "nat set"
  bg_started :: "nat set"

text \<open>A watch that started is boxed, and its pointer handed over.\<close>

definition bridge_watch :: "nat \<Rightarrow> nat \<Rightarrow> bridge \<Rightarrow> bridge" where
  "bridge_watch p t s = s\<lparr>bg_heap := (bg_heap s)(p \<mapsto> t)\<rparr>"

text \<open>
  The sink of a bridged watch: an event reaches the host's closure as its JSON text, and one that does
  not serialise is dropped.
\<close>

definition closure_sink_emit :: "('e \<Rightarrow> str + str) \<Rightarrow> 'e \<Rightarrow> str list" where
  "closure_sink_emit to_string event = (case to_string event of Inr text \<Rightarrow> [text] | Inl _ \<Rightarrow> [])"

definition box_from_raw :: "nat \<Rightarrow> bridge \<Rightarrow> nat option \<times> bridge" where
  "box_from_raw p s =
     (case bg_heap s p of
        Some t \<Rightarrow> (Some t, s\<lparr>bg_heap := (bg_heap s)(p := None)\<rparr>)
      | None \<Rightarrow> (None, s\<lparr>bg_undefined := True\<rparr>))"

definition bridge_cancel :: "nat \<Rightarrow> bridge \<Rightarrow> bridge" where
  "bridge_cancel p s =
     (if p = 0 then s
      else
        (case box_from_raw p s of
           (Some t, s1) \<Rightarrow> s1\<lparr>bg_cancelled := insert t (bg_cancelled s1)\<rparr>
         | (None, s1) \<Rightarrow> s1))"

text \<open>
  The steps: a watch the plugin refuses leaves nothing; the allocator hands out an address that is not
  null and not in use, which may be one that was freed, and the host enters it in its ledger; the host
  cancels a pointer it holds, at most once, or the null pointer, at any time.
\<close>

inductive bridge_step :: "bridge \<Rightarrow> bridge \<Rightarrow> bool" where
  refused: "bridge_step s s"
| watched: "p \<noteq> 0 \<Longrightarrow> bg_heap s p = None \<Longrightarrow> t \<notin> bg_started s \<Longrightarrow>
     bridge_step s ((bridge_watch p t s)\<lparr>bg_held := (bg_held s)(p \<mapsto> t), bg_started := insert t (bg_started s)\<rparr>)"
| cancelled: "bg_held s p = Some t \<Longrightarrow>
     bridge_step s ((bridge_cancel p s)\<lparr>bg_held := (bg_held s)(p := None), bg_returned := insert t (bg_returned s)\<rparr>)"
| cancelled_null: "bridge_step s (bridge_cancel 0 s)"

definition bridge_init :: "bridge \<Rightarrow> bool" where
  "bridge_init s \<longleftrightarrow> bg_heap s = Map.empty \<and> bg_cancelled s = {} \<and> \<not> bg_undefined s \<and> bg_held s = Map.empty \<and>
     bg_returned s = {} \<and> bg_started s = {}"

definition bridge_inv :: "bridge \<Rightarrow> bool" where
  "bridge_inv s \<longleftrightarrow>
     \<not> bg_undefined s \<and> bg_heap s = bg_held s \<and> bg_cancelled s = bg_returned s \<and> 0 \<notin> dom (bg_heap s) \<and>
     inj_on (bg_heap s) (dom (bg_heap s)) \<and> ran (bg_heap s) \<inter> bg_cancelled s = {} \<and>
     ran (bg_heap s) \<union> bg_cancelled s = bg_started s"

lemma inj_on_map_upd: "inj_on m (dom m) \<Longrightarrow> t \<notin> ran m \<Longrightarrow> inj_on (m(p \<mapsto> t)) (dom (m(p \<mapsto> t)))"
  unfolding inj_on_def dom_def ran_def by (auto split: if_splits; metis)

lemma inj_on_map_take: "inj_on m (dom m) \<Longrightarrow> inj_on (m(p := None)) (dom (m(p := None)))"
  unfolding inj_on_def dom_def by (auto split: if_splits)

lemma ran_map_take: "inj_on m (dom m) \<Longrightarrow> m p = Some t \<Longrightarrow> ran (m(p := None)) = ran m - {t}"
  unfolding inj_on_def ran_def dom_def by (auto split: if_splits; metis option.inject)

text \<open>A held pointer is turned back into its box, and its token is the one cancelled.\<close>

lemma bridge_cancel_held:
  "bridge_inv s \<Longrightarrow> bg_held s p = Some t \<Longrightarrow>
   bridge_cancel p s = s\<lparr>bg_heap := (bg_heap s)(p := None), bg_cancelled := insert t (bg_cancelled s)\<rparr>"
  by (auto simp: bridge_inv_def bridge_cancel_def box_from_raw_def)

lemma bridge_cancel_null [simp]: "bridge_cancel 0 s = s"
  by (simp add: bridge_cancel_def)

lemma bridge_inv_step: "bridge_step s s' \<Longrightarrow> bridge_inv s \<Longrightarrow> bridge_inv s'"
proof (induction rule: bridge_step.induct)
  case (watched p s t)
  then have "t \<notin> ran (bg_heap s)" "t \<notin> bg_cancelled s" by (auto simp: bridge_inv_def)
  with watched show ?case
    using inj_on_map_upd [of "bg_held s" t p] by (auto simp: bridge_inv_def bridge_watch_def ran_map_upd dest: ranI)
next
  case (cancelled s p t)
  have inv: "inj_on (bg_held s) (dom (bg_held s))" and t: "t \<in> ran (bg_held s)"
    using cancelled by (auto simp: bridge_inv_def intro: ranI)
  show ?case
    unfolding bridge_cancel_held [OF cancelled(2,1)]
    using cancelled(2) inj_on_map_take [OF inv, of p] ran_map_take [OF inv cancelled(1)] t
    by (auto simp: bridge_inv_def)
qed simp_all

interpretation bridge: transition_invariant bridge_init bridge_step bridge_inv
proof unfold_locales
  show "bridge_inv s" if "bridge_init s" for s using that by (simp add: bridge_init_def bridge_inv_def)
  show "bridge_inv t" if "bridge_inv s" and "bridge_step s t" for s t using that by (blast intro: bridge_inv_step)
qed

text \<open>
  C32. Handing watches over as raw pointers is sound for a host that gives each pointer back at most once:
  whatever watches start, fail to start and are cancelled, in whatever order, and whatever addresses are
  used again, no pointer is ever turned back into a box that is not there; the boxes are exactly those
  behind the pointers the host holds, so that none leaks or dangles and no two pointers share a watch; and
  the tokens cancelled are exactly those of the watches the host gave back.  Cancelling the null pointer is
  always allowed and does nothing.
\<close>

theorem bridge_cancels_exactly:
  assumes "bridge_init s0" and "bridge_step\<^sup>*\<^sup>* s0 s"
  shows "\<not> bg_undefined s \<and> bg_heap s = bg_held s \<and> inj_on (bg_heap s) (dom (bg_heap s)) \<and> bg_cancelled s = bg_returned s \<and>
    bridge_cancel 0 s = s \<and>
    (\<forall>p t. bg_held s p = Some t \<longrightarrow>
       t \<notin> bg_cancelled s \<and> \<not> bg_undefined (bridge_cancel p s) \<and> bg_heap (bridge_cancel p s) = (bg_heap s)(p := None) \<and>
       bg_cancelled (bridge_cancel p s) = insert t (bg_cancelled s))"
proof -
  have inv: "bridge_inv s" by (rule bridge.reachable_inv) (rule assms)+
  moreover have "t \<notin> bg_cancelled s \<and> \<not> bg_undefined (bridge_cancel p s) \<and> bg_heap (bridge_cancel p s) = (bg_heap s)(p := None) \<and>
      bg_cancelled (bridge_cancel p s) = insert t (bg_cancelled s)" if "bg_held s p = Some t" for p t
    using inv ranI [of "bg_held s" p t] that by (auto simp: bridge_cancel_held [OF inv that] bridge_inv_def)
  ultimately show ?thesis by (auto simp: bridge_inv_def)
qed

definition bridge0 :: bridge where
  "bridge0 = \<lparr>bg_heap = Map.empty, bg_cancelled = {}, bg_undefined = False, bg_held = Map.empty, bg_returned = {}, bg_started = {}\<rparr>"

text \<open>One watch, started and given back, and the address used again for a second one.\<close>

theorem bridge_cancels_exactly_witness:
  "\<exists>s. bridge_step\<^sup>*\<^sup>* bridge0 s \<and> bg_held s 8 = Some 2 \<and> \<not> bg_undefined s \<and> bg_cancelled s = {1} \<and>
     bg_cancelled (bridge_cancel 8 s) = {2, 1} \<and> \<not> bg_undefined (bridge_cancel 8 s)"
proof -
  let ?w = "\<lambda>p t s. (bridge_watch p t s)\<lparr>bg_held := (bg_held s)(p \<mapsto> t), bg_started := insert t (bg_started s)\<rparr>"
  let ?a = "?w 8 1 bridge0"
  let ?b = "(bridge_cancel 8 ?a)\<lparr>bg_held := (bg_held ?a)(8 := None), bg_returned := insert 1 (bg_returned ?a)\<rparr>"
  let ?c = "?w 8 2 ?b"
  note defs = bridge0_def bridge_watch_def bridge_cancel_def box_from_raw_def
  have "bridge_step bridge0 ?a" by (rule bridge_step.watched) (simp_all add: defs)
  moreover have "bridge_step ?a ?b" by (rule bridge_step.cancelled) (simp add: defs)
  moreover have "bridge_step ?b ?c" by (rule bridge_step.watched) (simp_all add: defs)
  ultimately have run: "bridge_step\<^sup>*\<^sup>* bridge0 ?c"
    by (meson converse_rtranclp_into_rtranclp rtranclp.rtrancl_refl)
  have init: "bridge_init bridge0" by (simp add: bridge_init_def bridge0_def)
  have held: "bg_held ?c 8 = Some 2" "bg_cancelled ?c = {1}" by (simp_all add: defs)
  then have "\<not> bg_undefined ?c" "bg_cancelled (bridge_cancel 8 ?c) = {2, 1}" "\<not> bg_undefined (bridge_cancel 8 ?c)"
    using bridge_cancels_exactly [OF init run] by blast+
  with run held show ?thesis by blast
qed

text \<open>A host that gives a pointer back twice is not caught: the second cancel frees a box that is gone.\<close>

lemma bridge_cancel_twice: "p \<noteq> 0 \<Longrightarrow> bg_undefined (bridge_cancel p (bridge_cancel p s))"
  by (simp add: bridge_cancel_def box_from_raw_def split: option.splits)

end
