(* ===== verification/Sweeper.thy ===== *)
theory Sweeper
  imports Pools
begin

text \<open>
  The idle sweeper of \<open>src/pool.rs\<close> (\<open>idle_sweep_loop\<close>) beside the registry it sweeps, over time.  A tick of
  \<open>tokio::time::interval\<close> with \<open>MissedTickBehavior::Delay\<close> is due one interval after the last one ran, and
  runs at most \<open>slack\<close> later: the delay of the scheduler and of the registry's lock.
\<close>

section \<open>The loop\<close>

definition sweep_interval_ms :: nat where
  "sweep_interval_ms = 60000"

definition default_idle_eviction_ms :: u64 where
  "default_idle_eviction_ms = 900000"

record sweeping =
  sw_now :: nat
  sw_due :: nat
  sw_pools :: pools

text \<open>The first tick fires at once and is dropped.\<close>

definition sweeping_init :: "nat \<Rightarrow> sweeping \<Rightarrow> bool" where
  "sweeping_init interval s \<longleftrightarrow> sw_now s = 0 \<and> sw_due s = interval \<and> sw_pools s = []"

definition sweep_tick :: "nat \<Rightarrow> u64 \<Rightarrow> sweeping \<Rightarrow> sweeping" where
  "sweep_tick interval idle s =
     s\<lparr>sw_pools := fst (sweep_idle idle (of_nat (sw_now s)) (sw_pools s)), sw_due := sw_now s + interval\<rparr>"

text \<open>
  A step that changes the registry reads the clock at the instant it takes the lock.  The source reads it a
  moment before, and a call that has to build its pool reads it before the build: the stamp of an entry
  may be older than its insertion by that much, which brings its eviction forward.
\<close>

inductive sweeping_step :: "nat \<Rightarrow> nat \<Rightarrow> nat \<Rightarrow> u64 \<Rightarrow> sweeping \<Rightarrow> sweeping \<Rightarrow> bool" for mx interval slack idle where
  passes: "sw_now s + dt \<le> sw_due s + slack \<Longrightarrow> sw_now s + dt < 2 ^ 64 \<Longrightarrow>
     sweeping_step mx interval slack idle s (s\<lparr>sw_now := sw_now s + dt\<rparr>)"
| call: "sweeping_step mx interval slack idle s
     (s\<lparr>sw_pools := fst (get_or_build mx (of_nat (sw_now s)) digest keys build (sw_pools s))\<rparr>)"
| revoke: "sweeping_step mx interval slack idle s (s\<lparr>sw_pools := fst (evict_for plugin_id target (sw_pools s))\<rparr>)"
| rotate: "sweeping_step mx interval slack idle s (s\<lparr>sw_pools := fst (evict_for_secret secret_ref (sw_pools s))\<rparr>)"
| tick: "sw_due s \<le> sw_now s \<Longrightarrow> sweeping_step mx interval slack idle s (sweep_tick interval idle s)"

section \<open>How long an idle pool lives\<close>

text \<open>At the last tick every pool left had been used within the threshold.\<close>

definition sweeping_inv :: "nat \<Rightarrow> nat \<Rightarrow> u64 \<Rightarrow> sweeping \<Rightarrow> bool" where
  "sweeping_inv interval slack idle s \<longleftrightarrow>
     omap_ok (sw_pools s) \<and> sw_now s < 2 ^ 64 \<and> sw_now s \<le> sw_due s + slack \<and> interval \<le> sw_due s \<and> sw_due s \<le> sw_now s + interval \<and>
     (\<forall>d e. omap_get (sw_pools s) d = Some e \<longrightarrow>
        unat (pe_last_used e) \<le> sw_now s \<and> sw_due s - interval < unat (pe_last_used e) + unat idle)"

lemma time_word: "n < 2 ^ 64 \<Longrightarrow> unat (of_nat n :: u64) = n"
  by (simp add: unat_of_nat take_bit_nat_eq_self_iff)

lemma get_or_build_entries:
  assumes "omap_ok ps" and "omap_get (fst (get_or_build mx now digest keys build ps)) d = Some e"
  shows "omap_get ps d = Some e \<or> pe_last_used e = now"
  using assms make_room_props [OF assms(1), of mx]
  by (auto simp: get_or_build_def split: option.splits sum.splits if_splits)

lemma evict_keeps:
  assumes "omap_ok ps"
  shows "omap_ok (fst (evict_where P ps)) \<and>
    (\<forall>d e. omap_get (fst (evict_where P ps)) d = Some e \<longrightarrow> omap_get ps d = Some e \<and> \<not> P e)"
proof
  show "omap_ok (fst (evict_where P ps))" by (simp add: evict_where_def Let_def fold_omap_remove_ok assms)
  show "\<forall>d e. omap_get (fst (evict_where P ps)) d = Some e \<longrightarrow> omap_get ps d = Some e \<and> \<not> P e"
    by (auto simp: evict_where_get [OF assms] split: option.splits if_splits)
qed

lemma inv_fewer:
  "sweeping_inv interval slack idle s \<Longrightarrow> omap_ok ps \<Longrightarrow>
   \<forall>d e. omap_get ps d = Some e \<longrightarrow> omap_get (sw_pools s) d = Some e \<Longrightarrow>
   sweeping_inv interval slack idle (s\<lparr>sw_pools := ps\<rparr>)"
  by (simp add: sweeping_inv_def) blast

lemma sweeping_inv_step:
  assumes "0 < idle" and "sweeping_step mx interval slack idle s t" and inv: "sweeping_inv interval slack idle s"
  shows "sweeping_inv interval slack idle t"
  using assms(2)
proof cases
  case (passes dt)
  with inv show ?thesis by (auto simp: sweeping_inv_def intro: le_add2 trans_le_add1)
next
  case (call digest keys build)
  let ?ps = "fst (get_or_build mx (of_nat (sw_now s)) digest keys build (sw_pools s))"
  have ok: "omap_ok (sw_pools s)" "sw_now s < 2 ^ 64" using inv by (simp_all add: sweeping_inv_def)
  have "unat (pe_last_used e) \<le> sw_now s \<and> sw_due s - interval < unat (pe_last_used e) + unat idle"
    if "omap_get ?ps d = Some e" for d e
    using get_or_build_entries [OF ok(1) that]
  proof
    assume "omap_get (sw_pools s) d = Some e"
    with inv show ?thesis by (auto simp: sweeping_inv_def)
  next
    assume "pe_last_used e = of_nat (sw_now s)"
    then have "unat (pe_last_used e) = sw_now s" using time_word [OF ok(2)] by simp
    moreover have "0 < unat idle" using assms(1) by (simp add: word_less_nat_alt)
    moreover have "sw_due s \<le> sw_now s + interval" using inv by (simp add: sweeping_inv_def)
    ultimately show ?thesis by linarith
  qed
  with call inv get_or_build_ok [OF ok(1)] show ?thesis by (simp add: sweeping_inv_def)
next
  case (revoke plugin_id target)
  have "omap_ok (sw_pools s)" using inv by (simp add: sweeping_inv_def)
  from evict_keeps [OF this] show ?thesis unfolding revoke evict_for_def by (intro inv_fewer [OF inv]) blast+
next
  case (rotate secret_ref)
  with inv show ?thesis by (simp add: sweeping_inv_def evict_for_secret_def)
next
  case tick
  have ok: "omap_ok (sw_pools s)" "sw_now s < 2 ^ 64" using inv by (simp_all add: sweeping_inv_def)
  let ?P = "\<lambda>e. idle \<le> saturating_sub (of_nat (sw_now s)) (pe_last_used e)"
  have fresh: "sw_now s < unat (pe_last_used e) + unat idle"
    if "unat (pe_last_used e) \<le> sw_now s" and "\<not> idle \<le> saturating_sub (of_nat (sw_now s)) (pe_last_used e)" for e
    using that time_word [OF ok(2)]
    by (simp add: saturating_sub_def word_le_nat_alt unat_sub split: if_splits)
  have "unat (pe_last_used e) \<le> sw_now s \<and> sw_now s < unat (pe_last_used e) + unat idle"
    if "omap_get (fst (evict_where ?P (sw_pools s))) d = Some e" for d e
  proof -
    have "omap_get (sw_pools s) d = Some e" "\<not> ?P e" using evict_keeps [OF ok(1), of ?P] that by blast+
    then show ?thesis using fresh [of e] inv by (auto simp: sweeping_inv_def)
  qed
  then show ?thesis using evict_keeps [OF ok(1), of ?P] ok(2) by (simp add: tick sweeping_inv_def sweep_tick_def sweep_idle_def)
qed

interpretation sweeper: transition_invariant "sweeping_init interval" "sweeping_step mx interval slack idle"
    "\<lambda>s. 0 < idle \<longrightarrow> sweeping_inv interval slack idle s" for mx interval slack idle
proof unfold_locales
  show "0 < idle \<longrightarrow> sweeping_inv interval slack idle s" if "sweeping_init interval s" for s
    using that by (auto simp: sweeping_init_def sweeping_inv_def)
  show "0 < idle \<longrightarrow> sweeping_inv interval slack idle t"
    if "0 < idle \<longrightarrow> sweeping_inv interval slack idle s" and "sweeping_step mx interval slack idle s t" for s t
    using that sweeping_inv_step by blast
qed

text \<open>
  C33. A pool nobody uses does not stay: whatever calls, revocations and rotations there are, at every
  moment every pool in the registry was used less than the idle threshold, one sweep interval and the
  scheduler's slack ago, sixteen minutes and the slack with the defaults.
\<close>

theorem idle_pool_evicted:
  assumes "sweeping_init interval s0" and "(sweeping_step mx interval slack idle)\<^sup>*\<^sup>* s0 s" and "0 < idle"
    and "omap_get (sw_pools s) d = Some e"
  shows "sw_now s < unat (pe_last_used e) + unat idle + interval + slack"
proof -
  have "sweeping_inv interval slack idle s" using sweeper.reachable_inv [OF assms(1,2)] assms(3) by blast
  then have "sw_now s \<le> sw_due s + slack" "interval \<le> sw_due s" "sw_due s - interval < unat (pe_last_used e) + unat idle"
    using assms(4) by (auto simp: sweeping_inv_def)
  then show ?thesis by linarith
qed

theorem idle_pool_evicted_witness:
  "\<exists>s e. (sweeping_step 4 sweep_interval_ms 0 default_idle_eviction_ms)\<^sup>*\<^sup>* \<lparr>sw_now = 0, sw_due = 60000, sw_pools = []\<rparr> s \<and>
     omap_get (sw_pools s) ''d'' = Some e \<and> sw_now s < unat (pe_last_used e) + 960000"
proof -
  let ?zero = "\<lparr>sw_now = 0, sw_due = 60000, sw_pools = []\<rparr> :: sweeping"
  let ?one = "?zero\<lparr>sw_pools := fst (get_or_build 4 (of_nat (sw_now ?zero)) ''d'' [] (Inr 1) (sw_pools ?zero))\<rparr>"
  have "sweeping_step 4 sweep_interval_ms 0 default_idle_eviction_ms ?zero ?one" by (rule sweeping_step.call)
  then have steps: "(sweeping_step 4 sweep_interval_ms 0 default_idle_eviction_ms)\<^sup>*\<^sup>* ?zero ?one" by (rule rtranclp.rtrancl_into_rtrancl [OF rtranclp.rtrancl_refl])
  have init: "sweeping_init sweep_interval_ms ?zero" by (simp add: sweeping_init_def sweep_interval_ms_def)
  have get: "omap_get (sw_pools ?one) ''d'' = Some \<lparr>pe_pool = 1, pe_cred_keys = [], pe_last_used = 0\<rparr>"
    by (simp add: get_or_build_def)
  have "sw_now ?one < unat (pe_last_used \<lparr>pe_pool = 1, pe_cred_keys = [], pe_last_used = 0\<rparr>) + 960000"
    using idle_pool_evicted [OF init steps _ get] by (simp add: default_idle_eviction_ms_def sweep_interval_ms_def)
  with steps get show ?thesis by blast
qed

end
