(* ===== verification/Heartbeat.thy ===== *)
theory Heartbeat
  imports Metrics
begin

text \<open>
  \<open>with_heartbeat\<close> of \<open>src/lib.rs\<close> under the timeout its callers put around it, over time.  The task it spawns
  ticks by \<open>tokio::time::interval\<close> with its default burst behaviour: a tick is due one interval after the
  one before was due, and runs at most \<open>slack\<close> late.  The task is aborted when the query resolves; when
  the timeout drops the future instead, the handle of the task is dropped with it, which detaches the task.
\<close>

section \<open>The task beside the query\<close>

datatype waited = Waiting | Resolved | Expired

text \<open>Times are milliseconds since the future was first polled; \<open>hb_emitted\<close> is what the task told the recorder.\<close>

record beating =
  hb_now :: nat
  hb_due :: nat
  hb_running :: bool
  hb_waited :: waited
  hb_emitted :: "metric_op list"

text \<open>The first tick fires at once and is dropped.\<close>

definition beating_init :: "u64 option \<Rightarrow> beating \<Rightarrow> bool" where
  "beating_init heartbeat s \<longleftrightarrow>
     hb_now s = 0 \<and> hb_waited s = Waiting \<and> hb_emitted s = [] \<and>
     (case heartbeat of None \<Rightarrow> \<not> hb_running s | Some ms \<Rightarrow> hb_running s \<and> hb_due s = unat ms)"

definition heartbeat_tick :: "str \<Rightarrow> driver_kind \<Rightarrow> u64 \<Rightarrow> beating \<Rightarrow> beating" where
  "heartbeat_tick binding driver ms s =
     s\<lparr>hb_due := hb_due s + unat ms, hb_emitted := hb_emitted s @ record_progress_heartbeat binding driver\<rparr>"

inductive with_heartbeat :: "str \<Rightarrow> driver_kind \<Rightarrow> u64 option \<Rightarrow> u64 \<Rightarrow> nat \<Rightarrow> beating \<Rightarrow> beating \<Rightarrow> bool"
  for binding driver heartbeat timeout_ms slack where
  passes: "(hb_running s \<longrightarrow> hb_now s + dt \<le> hb_due s + slack) \<Longrightarrow>
     with_heartbeat binding driver heartbeat timeout_ms slack s (s\<lparr>hb_now := hb_now s + dt\<rparr>)"
| ticks: "heartbeat = Some ms \<Longrightarrow> hb_running s \<Longrightarrow> hb_due s \<le> hb_now s \<Longrightarrow>
     with_heartbeat binding driver heartbeat timeout_ms slack s (heartbeat_tick binding driver ms s)"
| resolves: "hb_waited s = Waiting \<Longrightarrow>
     with_heartbeat binding driver heartbeat timeout_ms slack s (s\<lparr>hb_waited := Resolved, hb_running := False\<rparr>)"
| expires: "hb_waited s = Waiting \<Longrightarrow> unat timeout_ms \<le> hb_now s \<Longrightarrow>
     with_heartbeat binding driver heartbeat timeout_ms slack s (s\<lparr>hb_waited := Expired\<rparr>)"

section \<open>How often it beats\<close>

definition beating_inv :: "str \<Rightarrow> driver_kind \<Rightarrow> u64 option \<Rightarrow> nat \<Rightarrow> beating \<Rightarrow> bool" where
  "beating_inv binding driver heartbeat slack s \<longleftrightarrow>
     hb_emitted s = concat (replicate (length (hb_emitted s)) (record_progress_heartbeat binding driver)) \<and>
     (case heartbeat of
        None \<Rightarrow> \<not> hb_running s \<and> hb_emitted s = []
      | Some ms \<Rightarrow>
          (hb_running s \<longleftrightarrow> hb_waited s \<noteq> Resolved) \<and>
          hb_due s = Suc (length (hb_emitted s)) * unat ms \<and>
          length (hb_emitted s) * unat ms \<le> hb_now s \<and>
          (hb_running s \<longrightarrow> hb_now s \<le> hb_due s + slack))"

lemma one_beat: "length (record_progress_heartbeat b d) = 1"
  by (simp add: record_progress_heartbeat_def)

lemma beats_snoc: "concat (replicate n xs) @ xs = concat (replicate (Suc n) xs)"
  by (induction n) simp_all

interpretation heartbeat: transition_invariant "beating_init heartbeat" "with_heartbeat b d heartbeat timeout_ms slack"
    "beating_inv b d heartbeat slack" for b d heartbeat timeout_ms slack
proof unfold_locales
  show "beating_inv b d heartbeat slack s" if "beating_init heartbeat s" for s
    using that by (auto simp: beating_init_def beating_inv_def split: option.splits)
  show "beating_inv b d heartbeat slack t"
    if inv: "beating_inv b d heartbeat slack s" and "with_heartbeat b d heartbeat timeout_ms slack s t" for s t
    using that(2)
  proof cases
    case (ticks ms)
    have "hb_emitted t = concat (replicate (length (hb_emitted t)) (record_progress_heartbeat b d))"
      using inv unfolding ticks(1) heartbeat_tick_def
      by (simp add: beating_inv_def one_beat) (metis beats_snoc concat.simps(2) replicate_Suc)
    with inv ticks show ?thesis
      by (simp add: beating_inv_def heartbeat_tick_def one_beat)
  qed (use inv in \<open>auto simp: beating_inv_def split: option.splits\<close>)
qed

text \<open>
  C30. The heartbeat of a registered binding: it tells the recorder nothing but its counter, at most once for
  each fifty milliseconds that pass (the floor of the configuration), nothing at all where it is not
  configured or the query is faster than the interval; and once the query has resolved, nothing more.
\<close>

theorem heartbeat_rate_bounded:
  assumes "build_runtime env cfg = Inr rt" and "beating_init (rt_progress_heartbeat rt) s0"
    and "(with_heartbeat b d (rt_progress_heartbeat rt) timeout_ms slack)\<^sup>*\<^sup>* s0 s"
    and "(with_heartbeat b d (rt_progress_heartbeat rt) timeout_ms slack)\<^sup>*\<^sup>* s t"
  shows "set (hb_emitted s) \<subseteq> set (record_progress_heartbeat b d) \<and> 50 * length (hb_emitted s) \<le> hb_now s
    \<and> (\<forall>ms. rt_progress_heartbeat rt = Some ms \<longrightarrow> hb_now s < unat ms \<longrightarrow> hb_emitted s = [])
    \<and> (hb_waited s = Resolved \<longrightarrow> hb_emitted t = hb_emitted s)"
proof (intro conjI impI allI)
  have inv: "beating_inv b d (rt_progress_heartbeat rt) slack s" by (rule heartbeat.reachable_inv [OF assms(2,3)])
  then have "hb_emitted s = concat (replicate (length (hb_emitted s)) (record_progress_heartbeat b d))"
    by (simp add: beating_inv_def)
  then have "set (hb_emitted s) = set (concat (replicate (length (hb_emitted s)) (record_progress_heartbeat b d)))"
    by (rule arg_cong)
  then show "set (hb_emitted s) \<subseteq> set (record_progress_heartbeat b d)" by auto
  have floor: "50 \<le> unat ms" if "rt_progress_heartbeat rt = Some ms" for ms
    using assms(1) that
    by (auto simp: build_runtime_def Let_def lift_def validate_iff config_wf_def limits_wf_def word_le_nat_alt)
  show "50 * length (hb_emitted s) \<le> hb_now s"
  proof (cases "rt_progress_heartbeat rt")
    case (Some ms)
    have "50 * length (hb_emitted s) \<le> length (hb_emitted s) * unat ms" using floor [OF Some] by simp
    also have "\<dots> \<le> hb_now s" using inv Some by (simp add: beating_inv_def)
    finally show ?thesis .
  qed (use inv in \<open>simp add: beating_inv_def\<close>)
  show "hb_emitted s = []" if "rt_progress_heartbeat rt = Some ms" "hb_now s < unat ms" for ms
    using inv that by (cases "hb_emitted s") (auto simp: beating_inv_def)
  show "hb_emitted t = hb_emitted s" if resolved: "hb_waited s = Resolved"
  proof -
    have "\<not> hb_running s" using inv resolved by (auto simp: beating_inv_def split: option.splits)
    from assms(4) this resolved have "hb_emitted t = hb_emitted s \<and> \<not> hb_running t \<and> hb_waited t = Resolved"
      by (induction rule: rtranclp_induct) (auto elim: with_heartbeat.cases)
    then show ?thesis by blast
  qed
qed

text \<open>
  The other end: a query that times out leaves its heartbeat running.  In every state after the
  timeout the task still lives and has beaten once per interval up to its slack, without end, although
  the call is over.
\<close>

theorem heartbeat_outlives_timeout:
  assumes "beating_init (Some ms) s0" and "(with_heartbeat b d (Some ms) timeout_ms slack)\<^sup>*\<^sup>* s0 s"
    and "hb_waited s = Expired" and "(with_heartbeat b d (Some ms) timeout_ms slack)\<^sup>*\<^sup>* s t"
  shows "hb_running t \<and> hb_now t \<le> Suc (length (hb_emitted t)) * unat ms + slack"
proof -
  have "beating_inv b d (Some ms) slack t"
    using heartbeat.reachable_inv [OF assms(1) rtranclp_trans [OF assms(2,4)]] .
  moreover from assms(4,3) have "hb_waited t = Expired"
    by (induction rule: rtranclp_induct) (auto simp: heartbeat_tick_def elim: with_heartbeat.cases)
  ultimately have "hb_running t" "hb_due t = Suc (length (hb_emitted t)) * unat ms" "hb_now t \<le> hb_due t + slack"
    unfolding beating_inv_def option.case by auto
  then show ?thesis by simp
qed

text \<open>A binding that beats every fifty milliseconds, and its start and first beat.\<close>

definition beat_cfg :: sql_backend_config where
  "beat_cfg = sample_cfg\<lparr>cfg_query := (cfg_query sample_cfg)\<lparr>query_progress_heartbeat_ms := Some 50\<rparr>\<rparr>"

definition beat_start :: beating where
  "beat_start = \<lparr>hb_now = 0, hb_due = 50, hb_running = True, hb_waited = Waiting, hb_emitted = []\<rparr>"

definition beat_once :: beating where
  "beat_once = heartbeat_tick ''orders'' Postgres 50 (beat_start\<lparr>hb_now := 50\<rparr>)"

lemma beat_builds: "\<exists>rt. build_runtime sample_env beat_cfg = Inr rt \<and> rt_progress_heartbeat rt = Some 50"
proof -
  have "(case build_runtime sample_env beat_cfg of Inr rt \<Rightarrow> rt_progress_heartbeat rt = Some 50 | Inl _ \<Rightarrow> False)"
    by code_simp
  then show ?thesis by (simp split: sum.splits)
qed

lemma beat_init: "beating_init (Some 50) beat_start"
  by (simp add: beating_init_def beat_start_def)

lemma beat_runs: "(with_heartbeat ''orders'' Postgres (Some 50) 50 0)\<^sup>*\<^sup>* beat_start beat_once"
proof -
  have "with_heartbeat ''orders'' Postgres (Some 50) 50 0 beat_start (beat_start\<lparr>hb_now := hb_now beat_start + 50\<rparr>)"
    by (rule with_heartbeat.passes) (simp add: beat_start_def)
  moreover have "with_heartbeat ''orders'' Postgres (Some 50) 50 0 (beat_start\<lparr>hb_now := 50\<rparr>) beat_once"
    unfolding beat_once_def by (rule with_heartbeat.ticks) (simp_all add: beat_start_def)
  ultimately show ?thesis by (simp add: beat_start_def)
qed

theorem heartbeat_rate_bounded_witness:
  "hb_emitted beat_once = record_progress_heartbeat ''orders'' Postgres \<and> 50 * length (hb_emitted beat_once) \<le> hb_now beat_once"
proof -
  obtain rt where rt: "build_runtime sample_env beat_cfg = Inr rt" and ms: "rt_progress_heartbeat rt = Some 50"
    using beat_builds by blast
  from heartbeat_rate_bounded [OF rt, unfolded ms, OF beat_init beat_runs rtranclp.rtrancl_refl]
  show ?thesis by (simp add: beat_once_def heartbeat_tick_def beat_start_def)
qed

theorem heartbeat_outlives_timeout_witness:
  "hb_running (beat_once\<lparr>hb_waited := Expired\<rparr>) \<and> hb_now beat_once \<le> 2 * 50"
proof -
  let ?s = "beat_once\<lparr>hb_waited := Expired\<rparr>"
  have "with_heartbeat ''orders'' Postgres (Some 50) 50 0 beat_once ?s"
    by (rule with_heartbeat.expires) (simp_all add: beat_once_def heartbeat_tick_def beat_start_def)
  with beat_runs have "(with_heartbeat ''orders'' Postgres (Some 50) 50 0)\<^sup>*\<^sup>* beat_start ?s" by (rule rtranclp.rtrancl_into_rtrancl)
  from heartbeat_outlives_timeout [OF beat_init this _ rtranclp.rtrancl_refl] show ?thesis
    by (simp add: beat_once_def heartbeat_tick_def beat_start_def one_beat)
qed

end
