(* ===== verification/Drivers.thy ===== *)
theory Drivers
  imports Sessions
begin

text \<open>
  The rest of the driver interface (\<open>SqlDriver\<close> of \<open>src/driver/mod.rs\<close>): the context variants of SQLite, which run
  a statement under the cancel table of theory \<open>InFlight\<close>, and the operations only some drivers override, with
  the defaults of the trait for the others.
\<close>

section \<open>SQLite under its cancel table\<close>

text \<open>
  One call: the connection \<open>conn\<close> is pinned, the flag of the call installed on it (\<open>lock1\<close> is whether its
  handle could be locked for that), the identifier registered, the statement run, and the flag taken
  back (\<open>lock2\<close> is the lock for that).
\<close>

record lite_env =
  le_conn :: conn_env
  le_id :: nat
  le_lock1 :: "sqlx_error + unit"
  le_lock2 :: bool

definition lite_pinned ::
    "lite_env \<Rightarrow> str option \<Rightarrow> 'a wired \<Rightarrow> sqlite_driver \<times> wire \<Rightarrow> (sqlite_driver \<times> wire) \<times> 'a sql_result" where
  "lite_pinned env rid body = (\<lambda>(sd, w).
     (case acquire LitePool (le_conn env) (wreturn ()) w of
        (w1, Inl e) \<Rightarrow> ((sd, w1), Inl e)
      | (w1, Inr _) \<Rightarrow>
          (case le_lock1 env of
             Inl e \<Rightarrow> ((sd, w1), Inl (from_execute e))
           | Inr _ \<Rightarrow>
               (case sqlite_start (case rid of Some r \<Rightarrow> r | None \<Rightarrow> []) (le_id env) sd of
                  (sd1, running) \<Rightarrow>
                    (case wbind (register_id rid (SqliteId (rn_nonce running))) (\<lambda>_. body) w1 of
                       (w2, r) \<Rightarrow> ((sqlite_finish (le_lock2 env) running sd1, w2), r))))))"

definition lite_execute_with_ctx ::
    "lite_env \<Rightarrow> str option \<Rightarrow> prepared_stmt \<Rightarrow> bound_param list \<Rightarrow> sqlite_driver \<times> wire \<Rightarrow>
     (sqlite_driver \<times> wire) \<times> row_batch sql_result" where
  "lite_execute_with_ctx env rid stmt args =
     (let c = le_conn env; bound = lite_args c args
      in lite_pinned env rid
           (wbind (ask (FetchW (ps_sql stmt) bound) (\<lambda>w. ne_fetch c w (ps_sql stmt) bound))
              (\<lambda>rows. wreturn (rows_batch (row_to_json_sqlite (ne_b64 c)) rows))))"

definition lite_execute_affected_with_ctx ::
    "lite_env \<Rightarrow> str option \<Rightarrow> prepared_stmt \<Rightarrow> bound_param list \<Rightarrow> sqlite_driver \<times> wire \<Rightarrow>
     (sqlite_driver \<times> wire) \<times> u64 sql_result" where
  "lite_execute_affected_with_ctx env rid stmt args =
     (let c = le_conn env; bound = lite_args c args
      in lite_pinned env rid (ask (ExecW (ps_sql stmt) bound) (\<lambda>w. ne_exec c w (ps_sql stmt) bound)))"

section \<open>Operations with a default\<close>

definition default_execute_multi_result :: "str \<Rightarrow> json list list wired" where
  "default_execute_multi_result kind w =
     (w, Inl (invalid ''row_mode: result_sets is not supported by the driver'' [kind]))"

definition driver_execute_multi_result ::
    "driver_kind \<Rightarrow> conn_env \<Rightarrow> prepared_stmt \<Rightarrow> bound_param list \<Rightarrow> (str \<times> str) list \<Rightarrow> json list list wired" where
  "driver_execute_multi_result d env stmt args session =
     (case d of
        Postgres \<Rightarrow> default_execute_multi_result ''postgres''
      | Sqlite \<Rightarrow> default_execute_multi_result ''sqlite''
      | _ \<Rightarrow> my_execute_multi_result env stmt args session)"

definition driver_verify_cancel_privilege :: "driver_kind \<Rightarrow> conn_env \<Rightarrow> unit wired" where
  "driver_verify_cancel_privilege d env =
     (if d \<in> {Mysql, Mariadb} then verify_cancel_privilege env else wreturn ())"

definition my_health_check :: "conn_env \<Rightarrow> unit wired" where
  "my_health_check env = health_check MyPool env"

definition lite_health_check :: "conn_env \<Rightarrow> unit wired" where
  "lite_health_check env = health_check LitePool env"

section \<open>Laws\<close>

lemma start_then_finish:
  assumes "sd_handles sd (sd_next_handle sd) = None" and "sqlite_start r conn sd = (sd1, q)"
  shows "sd_handles (sqlite_finish locked q sd1) = sd_handles sd"
    and "sd_flags (sqlite_finish locked q sd1) = sd_flags sd @ [\<lparr>cancelled = False, active = False\<rparr>]"
    and "sd_handler (sqlite_finish locked q sd1) = (sd_handler sd)(conn := (if locked then None else Some (length (sd_flags sd))))"
    and "rn_nonce q = sd_next_handle sd"
  using assms by (auto simp: sqlite_start_def sqlite_finish_def running_drop_def Let_def fun_eq_iff)

text \<open>
  A SQLite call leaves nothing to cancel: whatever the statement answers, the cancel table is as it was
  before the call, the flags of the other calls are untouched, and the flag of this call, if the
  connection still watches it (because its handle could not be locked again), stops nothing.
\<close>

theorem lite_call_leaves_nothing:
  assumes "sd_handles sd (sd_next_handle sd) = None" and "lite_pinned env rid body (sd, w) = ((sd1, w1), r)"
  shows "sd_handles sd1 = sd_handles sd \<and> take (length (sd_flags sd)) (sd_flags sd1) = sd_flags sd
    \<and> (\<forall>flag \<in> set (drop (length (sd_flags sd)) (sd_flags sd1)). \<not> stops flag)
    \<and> (\<forall>conn. sd_handler sd1 conn \<noteq> sd_handler sd conn \<longrightarrow>
         conn = le_id env \<and> (sd_handler sd1 conn = None \<or> sd_handler sd1 conn = Some (length (sd_flags sd))))"
proof -
  have "sd1 = sd \<or> (\<exists>r q sd'. sqlite_start r (le_id env) sd = (sd', q) \<and> sd1 = sqlite_finish (le_lock2 env) q sd')"
    using assms(2) by (auto simp: lite_pinned_def split: prod.splits sum.splits)
  then show ?thesis
  proof
    assume "\<exists>r q sd'. sqlite_start r (le_id env) sd = (sd', q) \<and> sd1 = sqlite_finish (le_lock2 env) q sd'"
    then obtain r q sd' where st: "sqlite_start r (le_id env) sd = (sd', q)" and fin: "sd1 = sqlite_finish (le_lock2 env) q sd'"
      by blast
    show ?thesis unfolding fin start_then_finish [OF assms(1) st] by (simp add: stops_def)
  qed simp
qed

text \<open>
  The identifier a cancel needs is on record before the statement runs: a successful SQLite call with a
  request id adds two events to the connection, the registration under the nonce of its flag and then
  the statement.
\<close>

theorem lite_registered_before_statement:
  assumes "lite_execute_affected_with_ctx env (Some rid) stmt args (sd, w) = ((sd1, w1), Inr n)"
  shows "w1 = w @ [(Registered rid (SqliteId (sd_next_handle sd)), True),
                   (ExecW (ps_sql stmt) (lite_args (le_conn env) args), True)]"
  using assms
  by (auto simp: lite_execute_affected_with_ctx_def lite_pinned_def acquire_def wreturn_def wbind_def
      register_id_def ask_def sqlite_start_def Let_def is_ok_def split: prod.splits sum.splits if_splits)

text \<open>
  The default of the trait is never what a call with \<open>row_mode: result_sets\<close> meets: a validated
  configuration has it on MySQL and MariaDB only, which override it.
\<close>

theorem result_sets_supported:
  assumes "sql_backend_config_validate env cfg = Inr ()" and "query_row_mode (cfg_query cfg) = ResultSets"
  shows "driver_execute_multi_result (cfg_driver cfg) = my_execute_multi_result"
proof -
  have "cfg_driver cfg \<in> {Mysql, Mariadb}" using assms by (simp add: validate_iff config_wf_def)
  then show ?thesis by (auto simp: driver_execute_multi_result_def fun_eq_iff)
qed

end
