(* ===== verification/Spec2Isabelle.thy ===== *)
theory Spec2Isabelle
  imports Cdc Dispatch Lifecycle Interval Changes Listen Polling Schema Sessions Rotation Completion Observe Slot Watches
    Sweeper Heartbeat Drivers
begin

text \<open>
  A verification development for the SQL backend plugin of the MCP gateway, the Rust crate under
  \<open>src/\<close>.  The plugin lets an operator bind a tool to a SQL statement on PostgreSQL, MySQL, MariaDB or
  SQLite.  \<open>register_profile\<close> turns a configuration into a runtime; \<open>execute\<close> answers a call from it;
  four watches report changes of a database; a C interface hands all of it to the gateway.

  \<^bold>\<open>Reading the model.\<close>  Structs are records, enums datatypes, functions functions of the same name;
  \<open>Result\<close> is a sum with the error on the left, and an error that carries a formatted text carries the
  fixed part and the arguments (\<open>msg\<close>).  Machine integers are words.  A \<open>str\<close> is the list of its UTF-8
  bytes.  Ordered maps are sorted association lists.  Code of other crates, and what databases, clocks
  and the host answer, are arguments, grouped in the records named \<open>..._env\<close>.  What a function does to
  the outside is a list of events beside its result.  Stateful and concurrent parts are \<open>inductive\<close> step
  relations, one step per critical section of the code, so a run is any interleaving; times are
  milliseconds.

  \<^bold>\<open>Theories and the code they model.\<close>
  \<^item> \<open>Prelude\<close>, \<open>Json\<close>, \<open>Decimal\<close>, \<open>Rounding\<close>: integers, bytes, ordered maps, \<open>serde_json::Value\<close>, \<open>f64\<close> literals and
    rounding, with the error bound of the rounding.
  \<^item> \<open>Errors\<close>, \<open>Redact\<close> (\<open>errors.rs\<close>, \<open>redact.rs\<close>): the error taxonomy, its projection to the gateway, and that
    no password of a URL reaches an error text.
  \<^item> \<open>Params\<close>, \<open>Guards\<close> (\<open>params.rs\<close>, the SQL checks of \<open>config.rs\<close>): placeholder rewriting, equal to a
    token-level reference, and the statement guards, equal to the definition of a single statement.
  \<^item> \<open>Config\<close>, \<open>Auth\<close> (\<open>config.rs\<close>, \<open>auth/mod.rs\<close>): every configuration type and check; the validator accepts
    exactly the well-formed configurations.
  \<^item> \<open>Registration\<close> (\<open>register_profile\<close> of \<open>lib.rs\<close>): every statement a binding holds is safe.
  \<^item> \<open>Breaker\<close> (\<open>breaker.rs\<close>): the circuit breaker under interleaved calls.
  \<^item> \<open>StreamCursor\<close> (\<open>stream.rs\<close>): keyset cursors, their round trip, and that foreign ones are refused.
  \<^item> \<open>Exprs\<close>, \<open>Cost\<close>, \<open>Cache\<close> (\<open>param_exprs.rs\<close>, \<open>cost.rs\<close>, \<open>cache.rs\<close>): computed parameters, charges and their cap, the
    cache key and its invalidation.
  \<^item> \<open>Pools\<close>, \<open>Sweeper\<close> (\<open>pool.rs\<close>, \<open>resolve_creds_for\<close>): the bounded registry of per-credential pools, revocation,
    and the eviction of idle pools over time.
  \<^item> \<open>Rotation\<close> (\<open>auth/\<close>, \<open>connect\<close> of the drivers, \<open>build_pool\<close>): opening pools, the RDS token provider and the
    rotator; how old a token a pool uses can be, given how long a refresh takes, and what happens when it
    takes longer.
  \<^item> \<open>Rows\<close>, \<open>Sessions\<close>, \<open>Drivers\<close> (\<open>driver/\<close>): binding and decoding of values, the statement paths of the three
    drivers on a wire, session variables that do not leak (for MySQL: out of calls that are answered; a call
    that times out leaks them), the cancel table of SQLite, and the defaults of the driver interface.
  \<^item> \<open>Schema\<close>, \<open>Interval\<close> (\<open>schema.rs\<close>, \<open>driver/interval.rs\<close>): derived JSON Schemas and that answers conform to
    them; ISO 8601 text of intervals.
  \<^item> \<open>Response\<close>, \<open>Dispatch\<close>, \<open>Completion\<close> (\<open>lib.rs\<close>): shaping and listings, the whole path of a call, completion.
  \<^item> \<open>InFlight\<close>, \<open>Lifecycle\<close>, \<open>Heartbeat\<close> (\<open>in_flight.rs\<close>, \<open>lib.rs\<close>): cancellation, shutdown, progress heartbeats.
  \<^item> \<open>Metrics\<close>, \<open>Observe\<close> (\<open>metrics.rs\<close>, \<open>execute\<close> of \<open>lib.rs\<close>): what a call tells recorder, log and host.
  \<^item> \<open>Transaction\<close> (\<open>transaction.rs\<close>): transaction groups over the three drivers.
  \<^item> \<open>PgOutput\<close>, \<open>Cdc\<close>, \<open>Slot\<close> (\<open>pgoutput.rs\<close>, \<open>watch_pg_cdc.rs\<close>): the wire decoder, and the change-data-capture
    watch with its slot.
  \<^item> \<open>Changes\<close>, \<open>Listen\<close>, \<open>Polling\<close>, \<open>Watches\<close> (\<open>watch_changes.rs\<close>, \<open>watch_pg_listen.rs\<close>, \<open>watch.rs\<close>, \<open>cdylib.rs\<close>): the
    other watches, their entry points and their hand-over to the host.
  \<^item> This theory: the plugin over time, composed of registration, calls and shutdown.

  \<^bold>\<open>How the parts meet.\<close>  A runtime built by \<open>Registration\<close> from a configuration \<open>Config\<close> accepts is what
  \<open>Dispatch\<close> runs: it asks \<open>Breaker\<close> for admission, takes a pool from \<open>Pools\<close>, evaluates \<open>Exprs\<close>, binds by
  \<open>Params\<close>, applies the cursor of \<open>StreamCursor\<close>, looks into \<open>Cache\<close>, submits to a driver (\<open>Sessions\<close>, \<open>Rows\<close>),
  shapes by \<open>Response\<close>, charges by \<open>Cost\<close>; \<open>Observe\<close> wraps it, and \<open>InFlight\<close> holds its identifier meanwhile.

  \<^bold>\<open>Interfaces.\<close>  \<open>key_map\<close> is the contract of the ordered maps (interpretation \<open>omap\<close>).
  \<open>transition_invariant\<close> is the contract of a step relation with an invariant; it is interpreted for the breaker
  (\<open>cb\<close>), the change-data-capture world (\<open>cdcw\<close>), the changes watch (\<open>watch\<close>), calls in flight (\<open>calls\<close>), shutdown
  (\<open>life\<close>), shared listeners (\<open>listeners\<close>), the pool registry (\<open>registry\<close>), registration (\<open>reg\<close>), rotation
  (\<open>rotation\<close>), the bridge (\<open>bridge\<close>), the sweeper (\<open>sweeper\<close>), heartbeats (\<open>heartbeat\<close>) and the plugin as a whole
  (\<open>system\<close>).  \<open>wire_codec\<close> is the contract of a field of the replication protocol, what is written and what
  the reader makes of it (\<open>c8\<close> to \<open>ccolumn\<close>).  \<open>tx_handle\<close> is the trait \<open>SqlTxHandle\<close> (\<open>pg\<close>, \<open>mysql\<close>, \<open>sqlite\<close>), \<open>column_decoder\<close> what the
  three row decoders share, \<open>session_scope\<close> what isolates session variables (\<open>pg_scope\<close>, \<open>my_scope\<close>).

  \<^bold>\<open>Bounds.\<close>  Loops without a structural measure have fuel, and the fuel is shown to be enough.
  \<open>await_fuel\<close> is the timeout in milliseconds and two, since every poll that does not end the wait takes
  a millisecond at least (\<open>await_returns\<close>); \<open>drain_fuel\<close> is the number of polls in the thirty seconds of the
  ceiling and two (\<open>shutdown_drain_bounded\<close>; closing the pools after it has no bound in the code and none here); a peek of the slot raises its limit fourfold at most eight times; a poll of
  the changes watch has a page per row behind and one more.

  \<^bold>\<open>Not modelled.\<close>  Deserialisation of the configuration and the wire types (\<open>serde\<close>): the records are what
  it yields.  The \<open>tokio\<close> runtime: tasks are steps, and its channels and timers are what its documentation
  promises.  CEL, URL parsing, BLAKE3, base64, the AWS credential chain and request signing, \<open>sqlx\<close> and
  the recorder of \<open>metrics\<close> are other crates and stay arguments.  The entry points of \<open>cdylib.rs\<close> that block
  on a function modelled here and pass its result on, the plugin manifests, the choice of a TLS
  provider, \<open>Debug\<close> and \<open>Clone\<close> implementations, and log lines have no behaviour of their own to state.  The
  merge of derived schemas with the operator's belongs to the gateway.
\<close>

section \<open>The plugin over time\<close>

text \<open>
  The plugin with the pool registries of its bindings, and two records of what happened so far: the
  registrations that were accepted, each with the name, the environment and the configuration it had, and
  what calls have handed to the drivers, each with the binding, the world and the request of its call.
  A call runs on the snapshot of the profile it takes at its start, so one step stands for it whatever is
  registered meanwhile.
\<close>

record submission =
  sb_binding :: str
  sb_env :: exec_env
  sb_request :: request
  sb_call :: driver_call

record system =
  sy_plugin :: plugin_state
  sy_pools :: "str \<Rightarrow> pools"
  sy_registered :: "(str \<times> reg_env \<times> sql_backend_config) list"
  sy_sent :: "submission list"

definition system_register :: "reg_env \<Rightarrow> str \<Rightarrow> str + sql_backend_config \<Rightarrow> system \<Rightarrow> system" where
  "system_register env name spec s =
     (case register_profile env name spec (sy_plugin s) of
        (plugin1, Inr _) \<Rightarrow>
          s\<lparr>sy_plugin := plugin1, sy_pools := (sy_pools s)(name := []),
            sy_registered := sy_registered s @ (case spec of Inr cfg \<Rightarrow> [(name, env, cfg)] | Inl _ \<Rightarrow> [])\<rparr>
      | (plugin1, Inl _) \<Rightarrow> s\<lparr>sy_plugin := plugin1\<rparr>)"

definition system_call :: "exec_env \<Rightarrow> nat \<Rightarrow> nat \<Rightarrow> str \<Rightarrow> request \<Rightarrow> system \<Rightarrow> (system \<times> response backend_result) option" where
  "system_call xe t0 t1 name req s =
     (case execute xe t0 t1 name req (sy_pools s name) (sy_plugin s) of
        None \<Rightarrow> None
      | Some (plugin1, ps1, evs, r) \<Rightarrow>
          Some (s\<lparr>sy_plugin := plugin1, sy_pools := (sy_pools s)(name := ps1),
                  sy_sent := sy_sent s @
                    map (\<lambda>c. \<lparr>sb_binding = name, sb_env = xe, sb_request = req, sb_call = c\<rparr>) (submissions evs)\<rparr>, r))"

definition system_init :: "system \<Rightarrow> bool" where
  "system_init s \<longleftrightarrow> plugin_init (sy_plugin s) \<and> sy_registered s = [] \<and> sy_sent s = []"

inductive system_step :: "system \<Rightarrow> system \<Rightarrow> bool" where
  register: "system_step s (system_register env name spec s)"
| call: "system_call xe t0 t1 name req s = Some (s1, r) \<Longrightarrow> system_step s s1"
| drain: "system_step s (s\<lparr>sy_plugin := (sy_plugin s)\<lparr>draining := True\<rparr>\<rparr>)"

inductive_cases system_stepE: "system_step s s1"

text \<open>
  What the operator lets a call run: the statement of the query, or the check and the trigger of a binding
  that waits, each with the parameters declared for it.
\<close>

definition operator_statements :: "reg_env \<Rightarrow> sql_backend_config \<Rightarrow> (str \<times> str list) set" where
  "operator_statements env cfg =
     (case cfg_await cfg of
        None \<Rightarrow> {(raw, query_params (cfg_query cfg)) | raw. raw_statement (re_read_file env) cfg = Inr raw}
      | Some aw \<Rightarrow> (\<lambda>st. (step_sql st, step_params st)) ` insert (await_check aw) (set_option (await_trigger aw)))"

text \<open>The statement a driver gets is the rewriting of such a text, for the driver of the binding.\<close>

definition rewriting_of :: "driver_kind \<Rightarrow> str \<times> str list \<Rightarrow> prepared_stmt \<Rightarrow> bool" where
  "rewriting_of d text st \<longleftrightarrow>
     (case rewrite_placeholders (fst text) d of
        (sql, order) \<Rightarrow>
          st = \<lparr>ps_sql = sql, ps_param_order = (if order = [] then snd text else order), ps_driver = d\<rparr>)"

text \<open>
  The values it binds: what the payload of the request holds under the name once the computed parameters
  are evaluated, and the caller's own value where nothing is computed.  The parameters the plugin manages
  itself, the keyset and the idempotency hint, are apart.
\<close>

definition values_of_request :: "exec_env \<Rightarrow> request \<Rightarrow> str omap \<Rightarrow> bound_param list \<Rightarrow> bool" where
  "values_of_request xe req exprs args \<longleftrightarrow>
     (\<exists>payload computed. parse_payload xe req = Inr payload \<and>
        evaluate_with_client (xe_run xe) (xe_b64 xe) payload exprs (rq_identity req) (rq_client req) = Inr computed \<and>
        (\<forall>p \<in> set args. \<not> plugin_managed (bp_name p) \<longrightarrow>
           json_get computed (bp_name p) = Some (bp_value p) \<and>
           (bp_name p \<notin> fst ` set exprs \<longrightarrow> json_get payload (bp_name p) = Some (bp_value p))))"

definition submission_ok :: "(str \<times> reg_env \<times> sql_backend_config) list \<Rightarrow> submission \<Rightarrow> bool" where
  "submission_ok registered sb \<longleftrightarrow>
     (\<exists>env cfg. (sb_binding sb, env, cfg) \<in> set registered \<and>
        (\<exists>text \<in> operator_statements env cfg. safe_statement (fst text) \<and>
           rewriting_of (cfg_driver cfg) text (dc_stmt (sb_call sb))) \<and>
        map bp_name (dc_args (sb_call sb)) = ps_param_order (dc_stmt (sb_call sb)) \<and>
        values_of_request (sb_env sb) (sb_request sb) (query_param_exprs (cfg_query cfg)) (dc_args (sb_call sb)) \<and>
        fst ` set (dc_session (sb_call sb)) \<subseteq> fst ` set (cfg_session_vars cfg) \<and>
        (\<forall>k \<in> fst ` set (cfg_session_vars cfg). is_safe_sql_identifier k))"

text \<open>A stored profile is what some accepted registration of that name built, but for its breaker.\<close>

definition profile_from :: "(str \<times> reg_env \<times> sql_backend_config) list \<Rightarrow> str \<Rightarrow> profile_runtime \<Rightarrow> bool" where
  "profile_from registered name rt \<longleftrightarrow>
     (\<exists>env cfg br. (name, env, cfg) \<in> set registered \<and> build_runtime env cfg = Inr (rt\<lparr>rt_breaker := br\<rparr>))"

definition system_inv :: "system \<Rightarrow> bool" where
  "system_inv s \<longleftrightarrow>
     (\<forall>name rt. profiles (sy_plugin s) name = Some rt \<longrightarrow> profile_from (sy_registered s) name rt) \<and>
     (\<forall>sb \<in> set (sy_sent s). submission_ok (sy_registered s) sb)"

section \<open>What the plugin shows\<close>

definition is_draining :: "plugin_state \<Rightarrow> bool" where
  "is_draining plugin = draining plugin"

definition circuit_snapshot :: "plugin_state \<Rightarrow> str \<Rightarrow> (circuit_state \<times> u32 \<times> u64) option" where
  "circuit_snapshot plugin backend_name =
     Option.bind (profiles plugin backend_name) (\<lambda>rt. map_option breaker_snapshot (rt_breaker rt))"

definition input_schema :: "plugin_state \<Rightarrow> str \<Rightarrow> json option" where
  "input_schema plugin backend_name = Option.bind (profiles plugin backend_name) rt_input_schema"

definition output_schema :: "plugin_state \<Rightarrow> str \<Rightarrow> json option" where
  "output_schema plugin backend_name = Option.bind (profiles plugin backend_name) rt_output_schema"

text \<open>The host handle is a cell that is written once.\<close>

definition set_host_handle :: "'h \<Rightarrow> 'h option \<Rightarrow> 'h option \<times> bool" where
  "set_host_handle host slot = (case slot of None \<Rightarrow> (Some host, True) | Some _ \<Rightarrow> (slot, False))"

section \<open>What a call hands over\<close>

lemma collect_names: "collect_bound_params args names = Inr bound \<Longrightarrow> map bp_name bound = names"
  by (auto simp: collect_bound_params_closed comp_def split: json.splits option.splits if_splits)

lemma fold_inserts_keys:
  "fst ` set (fold (\<lambda>key vars. case omap_get m key of Some v \<Rightarrow> omap_insert key (f v) vars | None \<Rightarrow> vars) keys vars)
     \<subseteq> fst ` set vars \<union> fst ` set m"
proof (induction keys arbitrary: vars)
  case (Cons key keys)
  let ?v = "case omap_get m key of Some v \<Rightarrow> omap_insert key (f v) vars | None \<Rightarrow> vars"
  have "fst ` set ?v \<subseteq> fst ` set vars \<union> fst ` set m"
    using omap_insert_keys [of key _ vars]
    by (auto simp: omap_get_def dest!: map_of_SomeD split: option.splits intro: rev_image_eqI)
  with Cons.IH [of ?v] show ?case unfolding fold.simps comp_apply by blast
qed simp

lemma resolved_session_keys:
  assumes "resolve_creds_for env cfg = Inr rc"
  shows "fst ` set (rc_session_vars rc) \<subseteq> fst ` set (cfg_session_vars cfg)"
proof -
  obtain answer where "ce_resolve env (json_obj (map (\<lambda>uri. (uri, JStr uri)) (cred_uris env cfg))) = Inr answer"
    using assms by (auto simp: resolve_creds_for_def Let_def)
  with assms obtain f where "rc_session_vars rc =
      fold (\<lambda>key vars. case omap_get (cfg_session_vars cfg) key of
          Some v \<Rightarrow> omap_insert key (f v) vars | None \<Rightarrow> vars) (token_vars env cfg) (cfg_session_vars cfg)"
    by (cases answer) (auto simp: resolve_creds_for_def Let_def)
  then show ?thesis by (simp only:) (rule order_trans [OF fold_inserts_keys], simp)
qed

text \<open>
  What a call hands over, whichever way it goes: the arguments are made from its request, and statement,
  bound values and session are those of its profile.
\<close>

definition call_of :: "exec_env \<Rightarrow> str \<Rightarrow> request \<Rightarrow> profile_runtime \<Rightarrow> driver_call \<Rightarrow> bool" where
  "call_of xe b req rt c \<longleftrightarrow>
     (\<exists>payload computed args. parse_payload xe req = Inr payload \<and>
        evaluate_with_client (xe_run xe) (xe_b64 xe) payload (rt_param_exprs rt) (rq_identity req) (rq_client req) = Inr computed \<and>
        collect_bound_params args (ps_param_order (dc_stmt c)) = Inr (dc_args c) \<and>
        (case rt_await rt of
           None \<Rightarrow> prepare_args xe b req rt = Inr args \<and> dc_stmt c = rt_stmt rt \<and> call_session_vars xe rt = Inr (dc_session c)
         | Some ar \<Rightarrow> args = computed \<and> (dc_stmt c = ar_check_stmt ar \<or> ar_trigger_stmt ar = Some (dc_stmt c)) \<and>
             dc_session c = rt_session_vars rt))"

lemma execute_call_of:
  assumes "rt_await rt = None" and "c \<in> set (submissions (fst (execute_call xe b req rt pool)))"
  shows "call_of xe b req rt c"
  using execute_call_sends [OF assms(2)] assms(1) by (auto simp: call_of_def prepare_args_def)

lemma await_loop_of:
  assumes "rt_await rt = Some ar" and "parse_payload xe req = Inr payload"
    and "evaluate_with_client (xe_run xe) (xe_b64 xe) payload (rt_param_exprs rt) (rq_identity req) (rq_client req) = Inr args"
    and "await_loop fuel xe rt b args ar i = Some (evs, r)" and "c \<in> set (submissions evs)"
  shows "call_of xe b req rt c"
  using assms(4,5)
proof (induction fuel arbitrary: i evs)
  case (Suc fuel)
  show ?case
  proof (cases "collect_bound_params args (ps_param_order (ar_check_stmt ar))")
    case (Inr check_args)
    then have "call_of xe b req rt (check_call rt ar check_args)"
      using assms(1-3) by (auto simp: call_of_def check_call_def)
    then show ?thesis
      using Suc Inr by (auto simp: after_def split: option.splits dest: poll_submits_nothing)
  qed (use Suc.prems in \<open>auto simp: quiet_def\<close>)
qed simp

lemma trigger_of:
  assumes "rt_await rt = Some ar" and "parse_payload xe req = Inr payload"
    and "evaluate_with_client (xe_run xe) (xe_b64 xe) payload (rt_param_exprs rt) (rq_identity req) (rq_client req) = Inr args"
    and "await_trigger_call xe rt b args ar = (evs, r)" and "c \<in> set (submissions evs)"
  shows "call_of xe b req rt c"
proof -
  have submitted: "c \<in> set (submissions (fst (await_trigger_call xe rt b args ar)))"
    using assms(4,5) by simp
  obtain st where st: "ar_trigger_stmt ar = Some st"
    using submitted by (auto simp: await_trigger_call_def emit_def split: option.splits)
  obtain bound where b: "collect_bound_params args (ps_param_order st) = Inr bound"
    using submitted st
    by (cases "collect_bound_params args (ps_param_order st)") (auto simp: await_trigger_call_def tbind_submissions)
  have "c = \<lparr>dc_pool = StaticPool, dc_stmt = st, dc_args = bound, dc_session = rt_session_vars rt\<rparr>"
    using submitted st b
    by (simp add: await_trigger_call_def tbind_submissions Let_def emit_def split: timed.splits sum.splits)
  then show ?thesis using assms(1-3) st b by (auto simp: call_of_def)
qed

lemma impl_call_of:
  assumes "execute_inner_impl xe b req rt ps = Some (ps1, m)" and "c \<in> set (submissions (fst m))"
  shows "call_of xe b req rt c"
proof (cases "rt_await rt")
  case None
  then obtain pool where "c \<in> set (submissions (fst (execute_call xe b req rt pool)))"
    using impl_sends [OF assms(1) None assms(2)] by blast
  then show ?thesis by (rule execute_call_of [OF None])
next
  case (Some ar)
  then obtain payload args where args: "parse_payload xe req = Inr payload"
      "evaluate_with_client (xe_run xe) (xe_b64 xe) payload (rt_param_exprs rt) (rq_identity req) (rq_client req) = Inr args"
    using assms by (auto simp: execute_inner_impl_def execute_await_loop_def Let_def quiet_def after_def split: sum.splits)
  note of_args = await_loop_of [OF Some args] trigger_of [OF Some args]
  show ?thesis
    using assms args Some
    by (auto simp: execute_inner_impl_def execute_await_loop_def Let_def quiet_def after_def
        split: sum.splits prod.splits dest: of_args)
qed

lemma execute_call_ofD:
  assumes "execute xe t0 t1 b req ps plugin = Some (plugin1, ps1, evs, r)" and "c \<in> set (submissions evs)"
  obtains rt where "profiles plugin b = Some rt" and "call_of xe b req rt c"
proof -
  have "submissions evs \<noteq> []" using assms(2) by auto
  with execute_runs_impl [OF assms(1)] assms(2) that impl_call_of [of xe b req _ ps ps1 "(evs, r)" c] show thesis by auto
qed

lemma execute_plugin:
  assumes "execute xe t0 t1 b req ps plugin = Some (plugin1, ps1, evs, r)"
  shows "plugin1 = plugin \<or> (\<exists>rt br. profiles plugin b = Some rt \<and> plugin1 = set_breaker b rt br plugin)"
  using assms
  by (auto simp: execute_def execute_inner_def split: if_splits option.splits prod.splits sum.splits)

section \<open>What the profile fixes of it\<close>

lemma fold_after_keeps:
  "\<not> prefix ''_after_'' name \<Longrightarrow>
   omap_get (fold (\<lambda>(col, val). omap_insert (after_placeholder col) val) kvs m) name = omap_get m name"
  by (induction kvs arbitrary: m) (auto simp: after_placeholder_def)

lemma stream_cursor_keeps:
  assumes "apply_stream_cursor x args rt b = Inr args1" and "\<not> prefix ''_after_'' name" and "json_get args1 name = Some v"
  shows "json_get args name = Some v"
  using assms
  by (auto simp: apply_stream_cursor_def fold_after_keeps split: json.splits if_splits)

lemma idempotency_keeps:
  assumes "json_get (inject_idempotency hint args) name = Some v"
    and "name \<noteq> ''idempotency_key''" and "name \<noteq> ''idempotency_scope_hash''"
  shows "json_get args name = Some v"
  using assms by (auto simp: inject_idempotency_def simp del: omap_insert.simps split: option.splits json.splits if_splits)

lemma prepare_args_keeps:
  assumes "prepare_args xe b req rt = Inr args" and "parse_payload xe req = Inr payload"
    and "evaluate_with_client (xe_run xe) (xe_b64 xe) payload (rt_param_exprs rt) (rq_identity req) (rq_client req) = Inr computed"
    and "json_get args name = Some v" and "\<not> plugin_managed name"
  shows "json_get computed name = Some v"
proof -
  obtain args1 where "args = inject_idempotency (rq_idempotency req) args1"
    and cursor: "args1 = computed \<or> (\<exists>stream_rt. apply_stream_cursor (xe_codec xe) computed stream_rt b = Inr args1)"
    using assms(1-3) by (auto simp: prepare_args_def split: option.splits)
  then have "json_get args1 name = Some v"
    using idempotency_keeps [of "rq_idempotency req" args1 name v] assms(4,5) by (simp add: plugin_managed_def)
  moreover have "\<not> prefix ''_after_'' name" using assms(5) by (simp add: plugin_managed_def)
  ultimately show ?thesis using cursor stream_cursor_keeps by blast
qed

lemma evaluate_keeps_caller:
  assumes "evaluate_with_client run b64 args exprs ident client = Inr args1"
    and "name \<notin> fst ` set exprs" and "json_get args1 name = Some v"
  shows "json_get args name = Some v"
proof -
  have keeps: "evaluate_exprs run b64 ident client exprs obj = Inr obj1 \<Longrightarrow> omap_get obj1 name = omap_get obj name"
    if "name \<notin> fst ` set exprs" for obj obj1 exprs
    using that by (induction exprs arbitrary: obj) (auto split: sum.splits)
  show ?thesis
    using assms keeps [OF assms(2)] by (auto simp: evaluate_with_client_def split: if_splits json.splits)
qed

lemma compile_all_same: "compile_all env exprs = Inr compiled \<Longrightarrow> compiled = exprs"
  unfolding compile_all_def by (induction exprs arbitrary: compiled) auto

lemma prepare_step_rewriting: "rewriting_of d (step_sql st, step_params st) (prepare_step d st)"
  by (simp add: rewriting_of_def prepare_step_def split: prod.splits)

text \<open>The fields of a built runtime that a call reads.\<close>

lemma built_fields:
  assumes "build_runtime env cfg = Inr rt"
  shows "config_wf (re_config env) cfg" "rt_cfg rt = cfg" "rt_session_vars rt = cfg_session_vars cfg"
    "rt_param_exprs rt = query_param_exprs (cfg_query cfg)" "prepare_stmt (re_read_file env) cfg = Inr (rt_stmt rt)"
    "rt_await rt = map_option (\<lambda>aw. \<lparr>ar_cfg = aw, ar_trigger_stmt = map_option (prepare_step (cfg_driver cfg)) (await_trigger aw),
       ar_check_stmt = prepare_step (cfg_driver cfg) (await_check aw)\<rparr>) (cfg_await cfg)"
  using assms
  by (auto simp: build_runtime_def Let_def lift_def plain_def validate_iff compile_opt_def prepare_await_def
      dest!: compile_all_same split: option.splits)

lemma built_statements:
  assumes built: "build_runtime env cfg = Inr rt" and await: "rt_await rt = None \<Longrightarrow> st = rt_stmt rt"
    and wait: "\<And>ar. rt_await rt = Some ar \<Longrightarrow> st = ar_check_stmt ar \<or> ar_trigger_stmt ar = Some st"
  shows "\<exists>text \<in> operator_statements env cfg. safe_statement (fst text) \<and> rewriting_of (cfg_driver cfg) text st"
proof (cases "cfg_await cfg")
  case None
  then have st: "prepare_stmt (re_read_file env) cfg = Inr st" using await built_fields [OF built] by simp
  obtain raw where raw: "raw_statement (re_read_file env) cfg = Inr raw"
    and "ps_sql st = fst (rewrite_placeholders raw (cfg_driver cfg))" "ps_driver st = cfg_driver cfg"
    and "ps_param_order st = (let order = snd (rewrite_placeholders raw (cfg_driver cfg))
            in if order = [] then query_params (cfg_query cfg) else order)"
    using prepare_stmtD [OF st] by metis
  then have "rewriting_of (cfg_driver cfg) (raw, query_params (cfg_query cfg)) st"
    by (cases st) (simp add: rewriting_of_def Let_def split: prod.splits)
  moreover have "(raw, query_params (cfg_query cfg)) \<in> operator_statements env cfg"
    using None raw by (auto simp: operator_statements_def)
  moreover have "safe_statement raw" by (rule raw_statement_safe [OF built_fields(1) [OF built] raw])
  ultimately show ?thesis by (intro bexI [of _ "(raw, query_params (cfg_query cfg))"]) simp_all
next
  case (Some aw)
  then have "st = prepare_step (cfg_driver cfg) (await_check aw) \<or>
      (\<exists>trig. await_trigger aw = Some trig \<and> st = prepare_step (cfg_driver cfg) trig)"
    using wait built_fields(6) [OF built] by auto
  then obtain step where step: "step \<in> insert (await_check aw) (set_option (await_trigger aw))"
    "st = prepare_step (cfg_driver cfg) step" by auto
  have "\<forall>sql \<in> set (side_statements cfg). safe_statement sql"
    using built_fields(1) [OF built] by (simp add: config_wf_def)
  then have "safe_statement (step_sql step)"
    unfolding side_statements_ball using step(1) Some by (elim conjE) auto
  then show ?thesis
    using step(2) prepare_step_rewriting [of "cfg_driver cfg" step] imageI [OF step(1), of "\<lambda>st. (step_sql st, step_params st)"] Some
    by (intro bexI [of _ "(step_sql step, step_params step)"]) (simp_all add: operator_statements_def)
qed

lemma call_of_session:
  assumes "build_runtime env cfg = Inr rt" and "call_of xe b req rt c"
  shows "fst ` set (dc_session c) \<subseteq> fst ` set (cfg_session_vars cfg)"
proof -
  have "call_session_vars xe rt = Inr (dc_session c) \<or> dc_session c = cfg_session_vars cfg"
    using assms(2) built_fields [OF assms(1)] by (auto simp: call_of_def split: option.splits)
  then have "dc_session c = cfg_session_vars cfg \<or>
      (\<exists>rc. resolve_creds_for (xe_cred xe 1) cfg = Inr rc \<and> dc_session c = rc_session_vars rc)"
    using built_fields(2,3) [OF assms(1)] by (cases "rt_has_cred_refs rt") (auto simp: call_session_vars_def)
  then show ?thesis using resolved_session_keys by (elim disjE exE conjE) simp_all
qed

lemma call_of_values:
  assumes "call_of xe b req rt c"
  shows "values_of_request xe req (rt_param_exprs rt) (dc_args c)"
proof -
  obtain payload computed args where req: "parse_payload xe req = Inr payload"
      "evaluate_with_client (xe_run xe) (xe_b64 xe) payload (rt_param_exprs rt) (rq_identity req) (rq_client req) = Inr computed"
    and bound: "collect_bound_params args (ps_param_order (dc_stmt c)) = Inr (dc_args c)"
    and args: "prepare_args xe b req rt = Inr args \<or> args = computed"
    using assms by (auto simp: call_of_def split: option.splits)
  have "json_get computed (bp_name p) = Some (bp_value p)" if "p \<in> set (dc_args c)" "\<not> plugin_managed (bp_name p)" for p
    using args collect_bound_value [OF bound that(1)] prepare_args_keeps [OF _ req _ that(2)] by auto
  with req evaluate_keeps_caller [OF req(2)] show ?thesis by (auto simp: values_of_request_def)
qed

lemma call_of_ok:
  assumes reg: "(b, env, cfg) \<in> set registered" and built: "build_runtime env cfg = Inr rt" and call: "call_of xe b req rt c"
  shows "submission_ok registered \<lparr>sb_binding = b, sb_env = xe, sb_request = req, sb_call = c\<rparr>"
proof -
  have "\<exists>text \<in> operator_statements env cfg. safe_statement (fst text) \<and> rewriting_of (cfg_driver cfg) text (dc_stmt c)"
    using call by (intro built_statements [OF built]) (auto simp: call_of_def)
  moreover have "map bp_name (dc_args c) = ps_param_order (dc_stmt c)"
    using call collect_names by (auto simp: call_of_def)
  moreover have "values_of_request xe req (query_param_exprs (cfg_query cfg)) (dc_args c)"
    using call_of_values [OF call] built_fields(4) [OF built] by simp
  moreover have "\<forall>k \<in> fst ` set (cfg_session_vars cfg). is_safe_sql_identifier k"
    using built_fields(1) [OF built] by (simp add: config_wf_def session_vars_wf_def)
  ultimately show ?thesis
    using reg call_of_session [OF built call] unfolding submission_ok_def by (intro exI [of _ env] exI [of _ cfg]) simp
qed

text \<open>A call does not read the breaker once it is admitted.\<close>

lemma call_of_breaker: "call_of xe b req (rt\<lparr>rt_breaker := br\<rparr>) c \<longleftrightarrow> call_of xe b req rt c"
  by (simp add: call_of_def prepare_args_def call_session_vars_def cong: option.case_cong)

lemma submission_ok_mono: "submission_ok registered sb \<Longrightarrow> set registered \<subseteq> set later \<Longrightarrow> submission_ok later sb"
  unfolding submission_ok_def by blast

lemma profile_from_mono: "profile_from registered name rt \<Longrightarrow> set registered \<subseteq> set later \<Longrightarrow> profile_from later name rt"
  unfolding profile_from_def by blast

lemma profile_from_breaker: "profile_from registered name rt \<Longrightarrow> profile_from registered name (rt\<lparr>rt_breaker := br\<rparr>)"
  unfolding profile_from_def by simp

lemma register_from:
  assumes "system_inv s"
  shows "system_inv (system_register env name spec s)"
proof (cases "snd (register_profile env name spec (sy_plugin s))")
  case (Inl e)
  then show ?thesis
    using assms by (auto simp: system_register_def system_inv_def register_profile_def split: sum.splits)
next
  case (Inr u)
  then obtain cfg rt where cfg: "spec = Inr cfg" "build_runtime env cfg = Inr rt" "\<not> draining (sy_plugin s)"
    by (cases spec) (auto simp: register_profile_def split: sum.splits if_splits)
  let ?s = "system_register env name spec s"
  have s: "profiles (sy_plugin ?s) = (profiles (sy_plugin s))(name \<mapsto> rt)" "sy_sent ?s = sy_sent s"
    "sy_registered ?s = sy_registered s @ [(name, env, cfg)]"
    using cfg by (simp_all add: system_register_def register_profile_def)
  have "profile_from (sy_registered ?s) name rt"
    unfolding profile_from_def s using cfg(2) by (intro exI [of _ env] exI [of _ cfg] exI [of _ "rt_breaker rt"]) simp
  then show ?thesis
    using assms unfolding system_inv_def s
    by (auto intro: profile_from_mono [of "sy_registered s"] submission_ok_mono [of "sy_registered s"])
qed

lemma call_keeps_inv:
  assumes "system_inv s" and "system_call xe t0 t1 name req s = Some (s1, r)"
  shows "system_inv s1"
proof -
  obtain plugin1 ps1 evs
    where ex: "execute xe t0 t1 name req (sy_pools s name) (sy_plugin s) = Some (plugin1, ps1, evs, r)"
      and t: "sy_plugin s1 = plugin1" "sy_registered s1 = sy_registered s"
        "sy_sent s1 = sy_sent s @ map (\<lambda>c. \<lparr>sb_binding = name, sb_env = xe, sb_request = req, sb_call = c\<rparr>) (submissions evs)"
    using assms(2) by (auto simp: system_call_def split: option.splits)
  have from_reg: "profile_from (sy_registered s) n rt" if "profiles (sy_plugin s) n = Some rt" for n rt
    using assms(1) that by (simp add: system_inv_def)
  have "profile_from (sy_registered s) n rt" if "profiles plugin1 n = Some rt" for n rt
    using execute_plugin [OF ex] that from_reg profile_from_breaker by (auto simp: set_breaker_def split: if_splits)
  moreover have "submission_ok (sy_registered s) \<lparr>sb_binding = name, sb_env = xe, sb_request = req, sb_call = c\<rparr>"
    if c: "c \<in> set (submissions evs)" for c
  proof -
    obtain rt where rt: "profiles (sy_plugin s) name = Some rt" "call_of xe name req rt c"
      by (rule execute_call_ofD [OF ex c])
    obtain env cfg br where reg: "(name, env, cfg) \<in> set (sy_registered s)" "build_runtime env cfg = Inr (rt\<lparr>rt_breaker := br\<rparr>)"
      using from_reg [OF rt(1)] by (auto simp: profile_from_def)
    show ?thesis using rt(2) by (intro call_of_ok [OF reg]) (simp only: call_of_breaker)
  qed
  ultimately show ?thesis using assms(1) unfolding system_inv_def t by auto
qed

interpretation system: transition_invariant system_init system_step system_inv
proof
  show "system_inv s" if "system_init s" for s
    using that by (simp add: system_init_def system_inv_def plugin_init_def)
  show "system_inv t" if "system_inv s" "system_step s t" for s t
    using that(2,1)
  proof cases
    case (call xe t0 t1 name req r)
    then show ?thesis by (intro call_keeps_inv [OF that(1)])
  qed (use that(1) in \<open>simp_all add: register_from, simp add: system_inv_def\<close>)
qed

section \<open>Properties\<close>

text \<open>
  C5. No call can choose what runs.  Over any interleaving of registrations (each in any environment),
  calls (with any request, any answers of the database and the host) and a shutdown, every statement a
  call ever handed to a driver is the rewriting of a text the operator gave in a configuration that was
  accepted under that name: the query (inline, in the file as it was at the registration, or the call of
  the procedure), or, for a binding that waits, its check or its trigger.  That text is a single
  statement that leads with no privileged DDL, and what is sent has at most one unquoted semicolon.  It
  binds one value for each name the text binds, in its order, and the value is the one the payload of
  this very request holds under that name once the computed parameters are evaluated (the names the
  plugin manages itself are apart).  The session it runs in sets no variable but the configured ones, and
  these all have plain identifiers as names.
\<close>

theorem submitted_statements_safe:
  assumes "system_init s0" and "system_step\<^sup>*\<^sup>* s0 s" and "sb \<in> set (sy_sent s)"
  shows "\<exists>env cfg raw declared. (sb_binding sb, env, cfg) \<in> set (sy_registered s) \<and>
      (raw, declared) \<in> operator_statements env cfg \<and>
      single_statement raw \<and> is_ok (reject_privileged_ddl raw) \<and>
      ps_sql (dc_stmt (sb_call sb)) = fst (rewrite_placeholders raw (cfg_driver cfg)) \<and>
      length (split_statements False False (ps_sql (dc_stmt (sb_call sb)))) \<le> 2 \<and>
      map bp_name (dc_args (sb_call sb)) =
        (let order = snd (rewrite_placeholders raw (cfg_driver cfg)) in if order = [] then declared else order) \<and>
      values_of_request (sb_env sb) (sb_request sb) (query_param_exprs (cfg_query cfg)) (dc_args (sb_call sb)) \<and>
      fst ` set (dc_session (sb_call sb)) \<subseteq> fst ` set (cfg_session_vars cfg) \<and>
      (\<forall>k \<in> fst ` set (dc_session (sb_call sb)). is_safe_sql_identifier k)"
proof -
  have "submission_ok (sy_registered s) sb"
    using system.reachable_inv [OF assms(1,2)] assms(3) by (simp add: system_inv_def)
  then obtain env cfg raw declared where reg: "(sb_binding sb, env, cfg) \<in> set (sy_registered s)"
    and raw: "(raw, declared) \<in> operator_statements env cfg" "safe_statement raw"
      "rewriting_of (cfg_driver cfg) (raw, declared) (dc_stmt (sb_call sb))"
    and args: "map bp_name (dc_args (sb_call sb)) = ps_param_order (dc_stmt (sb_call sb))"
      "values_of_request (sb_env sb) (sb_request sb) (query_param_exprs (cfg_query cfg)) (dc_args (sb_call sb))"
    and session: "fst ` set (dc_session (sb_call sb)) \<subseteq> fst ` set (cfg_session_vars cfg)"
      "\<forall>k \<in> fst ` set (cfg_session_vars cfg). is_safe_sql_identifier k"
    by (auto simp: submission_ok_def)
  have sql: "ps_sql (dc_stmt (sb_call sb)) = fst (rewrite_placeholders raw (cfg_driver cfg))"
    and order: "ps_param_order (dc_stmt (sb_call sb)) =
      (let order = snd (rewrite_placeholders raw (cfg_driver cfg)) in if order = [] then declared else order)"
    using raw(3) by (simp_all add: rewriting_of_def split: prod.splits)
  have "length (split_statements False False (ps_sql (dc_stmt (sb_call sb)))) \<le> 2"
    using raw(2) rewrite_keeps_count single_statement_count by (simp add: sql safe_statement_def)
  moreover have "\<forall>k \<in> fst ` set (dc_session (sb_call sb)). is_safe_sql_identifier k"
    using session by blast
  ultimately show ?thesis
    using reg raw(1,2) args session(1) order
    by (intro exI [of _ env] exI [of _ cfg] exI [of _ raw] exI [of _ declared])
       (simp add: sql safe_statement_def)
qed

lemma drained_step:
  assumes "system_step s t" and "draining (sy_plugin s)"
  shows "draining (sy_plugin t) \<and> profiles (sy_plugin t) = profiles (sy_plugin s) \<and> sy_sent t = sy_sent s"
  using assms
  by cases (auto simp: system_register_def register_profile_def system_call_def execute_def quiet_def)

text \<open>
  A draining plugin is final: whatever follows, no call hands anything to a driver any more, no binding
  is added or replaced, and every call is refused and changes nothing.
\<close>

theorem drained_plugin_silent:
  assumes "draining (sy_plugin s)" and "system_step\<^sup>*\<^sup>* s t"
  shows "sy_sent t = sy_sent s \<and> profiles (sy_plugin t) = profiles (sy_plugin s)
    \<and> system_call xe t0 t1 name req t = Some (t, Inl draining_error)"
proof -
  from assms(2,1) have "draining (sy_plugin t) \<and> profiles (sy_plugin t) = profiles (sy_plugin s) \<and> sy_sent t = sy_sent s"
    by (induction rule: rtranclp_induct) (auto dest: drained_step)
  then show ?thesis by (simp add: system_call_def execute_def quiet_def)
qed

text \<open>A run of two steps: a registration and a call whose argument is an attempt at an injection.\<close>

definition fresh_system :: system where
  "fresh_system = \<lparr>sy_plugin = \<lparr>draining = False, profiles = Map.empty\<rparr>, sy_pools = (\<lambda>_. []), sy_registered = [], sy_sent = []\<rparr>"

definition one_cfg :: sql_backend_config where
  "one_cfg = sample_cfg\<lparr>cfg_circuit_breaker := None,
     cfg_query :=
        \<lparr>query_body_of = BodySql ''SELECT :id'', query_params = [''id''], query_param_exprs = [], query_row_mode = Many,
         query_max_rows = 10, query_timeout_ms = None, query_read_only = True,
         query_progress_heartbeat_ms = None, query_stream = None\<rparr>\<rparr>"

definition one_rt :: profile_runtime where
  "one_rt =
     \<lparr>rt_driver_kind = Postgres, rt_cfg = one_cfg, rt_has_cred_refs = False,
      rt_stmt = \<lparr>ps_sql = ''SELECT $1'', ps_param_order = [''id''], ps_driver = Postgres\<rparr>,
      rt_row_mode = Many, rt_max_rows = 10, rt_timeout_ms = 5000, rt_session_vars = [(''app.user'', ''u'')],
      rt_progress_heartbeat = None, rt_input_schema = None, rt_output_schema = None, rt_param_exprs = [],
      rt_breaker = None, rt_list = None, rt_await = None, rt_stream = None, rt_isolation_level = None,
      rt_cache = None, rt_tracking = None, rt_cost = None\<rparr>"

definition one_xe :: exec_env where
  "one_xe = sample_xe\<lparr>xe_from_slice := (\<lambda>_. Inr (JObj [(''id'', JStr ''1; DROP TABLE t'')]))\<rparr>"

lemma one_builds: "build_runtime sample_env one_cfg = Inr one_rt"
  by code_simp

definition one_call :: driver_call where
  "one_call =
     \<lparr>dc_pool = StaticPool, dc_stmt = rt_stmt one_rt,
      dc_args = [\<lparr>bp_name = ''id'', bp_value = JStr ''1; DROP TABLE t''\<rparr>], dc_session = [(''app.user'', ''u'')]\<rparr>"

definition one_system :: system where
  "one_system = system_register sample_env ''orders'' (Inr one_cfg) fresh_system"

definition one_sent :: submission where
  "one_sent = \<lparr>sb_binding = ''orders'', sb_env = one_xe, sb_request = sample_request, sb_call = one_call\<rparr>"

lemma one_system_plugin: "sy_plugin one_system = sample_plugin one_rt" "sy_sent one_system = []"
  "sy_registered one_system = [(''orders'', sample_env, one_cfg)]"
  by (simp_all add: one_system_def system_register_def register_profile_def fresh_system_def one_builds sample_plugin_def)

lemma one_call_runs:
  "\<exists>s r. system_call one_xe 0 0 ''orders'' sample_request one_system = Some (s, r) \<and>
     sy_sent s = [one_sent] \<and> sy_registered s = [(''orders'', sample_env, one_cfg)]"
  by (simp add: system_call_def one_system_plugin run_defs sample_defs one_xe_def one_rt_def one_call_def
      one_sent_def omap_get_def)

theorem submitted_statements_safe_witness:
  "\<exists>s. system_step\<^sup>*\<^sup>* fresh_system s \<and> sy_sent s = [one_sent]
     \<and> (\<exists>raw declared. (raw, declared) \<in> operator_statements sample_env one_cfg \<and>
          ps_sql (dc_stmt one_call) = fst (rewrite_placeholders raw Postgres))
     \<and> values_of_request one_xe sample_request [] (dc_args one_call)"
proof -
  obtain s r where "system_call one_xe 0 0 ''orders'' sample_request one_system = Some (s, r)"
    and sent: "sy_sent s = [one_sent]" and reg: "sy_registered s = [(''orders'', sample_env, one_cfg)]"
    using one_call_runs by blast
  then have "system_step one_system s" by (intro system_step.call)
  moreover have "system_step fresh_system one_system"
    unfolding one_system_def by (rule system_step.register)
  ultimately have run: "system_step\<^sup>*\<^sup>* fresh_system s" by (rule converse_rtranclp_into_rtranclp [OF _ r_into_rtranclp, rotated])
  have "system_init fresh_system" by (simp add: system_init_def plugin_init_def fresh_system_def)
  moreover have "cfg_driver one_cfg = Postgres" "query_param_exprs (cfg_query one_cfg) = []"
    by (simp_all add: one_cfg_def sample_cfg_def)
  ultimately have "(\<exists>raw declared. (raw, declared) \<in> operator_statements sample_env one_cfg \<and>
          ps_sql (dc_stmt one_call) = fst (rewrite_placeholders raw Postgres))
     \<and> values_of_request one_xe sample_request [] (dc_args one_call)"
    using submitted_statements_safe [OF _ run, of one_sent] by (auto simp: sent reg one_sent_def)
  with run sent show ?thesis by blast
qed

theorem drained_plugin_silent_witness:
  "\<exists>s. sy_sent s = [] \<and> profiles (sy_plugin s) ''orders'' \<noteq> None
     \<and> system_call one_xe 0 0 ''orders'' sample_request s = Some (s, Inl draining_error)"
proof -
  let ?s = "one_system\<lparr>sy_plugin := (sy_plugin one_system)\<lparr>draining := True\<rparr>\<rparr>"
  have "system_call one_xe 0 0 ''orders'' sample_request ?s = Some (?s, Inl draining_error)"
    using drained_plugin_silent [of ?s ?s one_xe 0 0 "''orders''" sample_request] by simp
  then show ?thesis using one_system_plugin by (intro exI [of _ ?s]) (simp add: sample_plugin_def)
qed

text \<open>
  What clients are told of a binding depends on its registration alone: a call, whatever it does to
  the breaker, changes no published schema and registers no binding.
\<close>

theorem calls_keep_schemas:
  assumes "system_call xe t0 t1 name req s = Some (s1, r)"
  shows "input_schema (sy_plugin s1) = input_schema (sy_plugin s) \<and> output_schema (sy_plugin s1) = output_schema (sy_plugin s)
    \<and> dom (profiles (sy_plugin s1)) = dom (profiles (sy_plugin s))"
proof -
  obtain ps1 evs where ex: "execute xe t0 t1 name req (sy_pools s name) (sy_plugin s) = Some (sy_plugin s1, ps1, evs, r)"
    using assms by (auto simp: system_call_def split: option.splits)
  have "sy_plugin s1 = sy_plugin s \<or>
      (\<exists>rt br. profiles (sy_plugin s) name = Some rt \<and> sy_plugin s1 = set_breaker name rt br (sy_plugin s))"
    by (rule execute_plugin [OF ex])
  then show ?thesis
    by (auto simp: input_schema_def output_schema_def set_breaker_def fun_eq_iff split: if_splits)
qed

theorem calls_keep_schemas_witness:
  "\<exists>s r. system_call one_xe 0 0 ''orders'' sample_request one_system = Some (s, r)
     \<and> input_schema (sy_plugin s) = input_schema (sy_plugin one_system)"
  using one_call_runs calls_keep_schemas by blast

end
